(* ===== verification/Prelude.thy ===== *)
theory Prelude
  imports Complex_Main "HOL-Library.AList" "HOL-Library.Multiset"
begin

text \<open>
  Shared vocabulary of the development: the collections of facts the component theories add to,
  and the generic lemmas about ordered dictionaries (association lists with distinct keys, the
  order being the insertion order of a Python \<open>dict\<close>), about counting list elements and about
  reachable states of a step relation.
\<close>

section \<open>Collections\<close>

named_theorems op_defs \<open>definitions of the operations of a component, for unfolding\<close>
named_theorems inv_intros \<open>preservation facts: one per operation of a component\<close>
named_theorems frame_simps \<open>fields an operation does not write\<close>

section \<open>Ordered dictionaries\<close>

type_synonym ('k, 'v) odict = "('k \<times> 'v) list"

abbreviation keys :: "('k, 'v) odict \<Rightarrow> 'k list" where
  "keys d \<equiv> map fst d"

abbreviation vals :: "('k, 'v) odict \<Rightarrow> 'v list" where
  "vals d \<equiv> map snd d"

text \<open>
  Applying a function to every value keeps keys and order.  \<open>AList.update\<close> overwrites in place
  and appends a new key at the end, as \<open>d[k] = v\<close> does.
\<close>

lemma keys_map_snd [simp]: "keys (map (\<lambda>(k, v). (k, f v)) d) = keys d"
  by (simp add: case_prod_unfold comp_def)

lemma odict_update_in_place:
  assumes "distinct (keys d)" and "map_of d k = Some v0"
  shows "AList.update k v d = map (\<lambda>(k', v'). (k', if k' = k then v else v')) d"
  using assms
proof (induction d)
  case Nil
  then show ?case by simp
next
  case (Cons p d)
  obtain k1 v1 where p: "p = (k1, v1)" by (cases p)
  show ?case
  proof (cases "k1 = k")
    case True
    then have "k \<notin> set (keys d)" using Cons.prems p by auto
    then have "map (\<lambda>(k', v'). (k', if k' = k then v else v')) d = d"
      by (intro map_idI) (auto simp: image_iff)
    then show ?thesis using True p by simp
  next
    case False
    then show ?thesis using Cons p by auto
  qed
qed

lemma keys_update_member:
  "k \<in> set (keys d) \<Longrightarrow> keys (AList.update k v d) = keys d"
  by (induction d) auto

lemma keys_update_fresh:
  "k \<notin> set (keys d) \<Longrightarrow> AList.update k v d = d @ [(k, v)]"
  by (induction d) auto

lemma map_of_in_keys: "map_of d k = Some v \<Longrightarrow> k \<in> set (keys d)"
  by (induction d) (auto split: if_splits)

lemma distinct_keys_delete: "distinct (keys d) \<Longrightarrow> distinct (keys (AList.delete k d))"
  by (simp add: distinct_delete)

lemma map_of_delete_other: "k' \<noteq> k \<Longrightarrow> map_of (AList.delete k d) k' = map_of d k'"
  by (simp add: delete_conv')

lemma set_delete_subset: "set (AList.delete k d) \<subseteq> set d"
  by (auto simp: AList.delete_eq)

lemma length_delete_member:
  assumes "distinct (keys d)" and "k \<in> set (keys d)"
  shows "Suc (length (AList.delete k d)) = length d"
  using assms
proof (induction d)
  case Nil
  then show ?case by simp
next
  case (Cons p d)
  obtain k1 v1 where p: "p = (k1, v1)" by (cases p)
  show ?case
  proof (cases "k1 = k")
    case True
    with Cons.prems p have "k \<notin> set (keys d)" by auto
    then have "AList.delete k d = d"
      by (auto simp: AList.delete_eq filter_id_conv image_iff)
    with True p show ?thesis by simp
  next
    case False
    with Cons p show ?thesis by auto
  qed
qed

lemma in_set_map_of_distinct:
  "distinct (keys d) \<Longrightarrow> (k, v) \<in> set d \<longleftrightarrow> map_of d k = Some v"
  by (auto dest: map_of_SomeD)

lemma count_delete_le:
  "length (filter P (vals (AList.delete k d))) \<le> length (filter P (vals d))"
  by (induction d) auto

text \<open>Two dictionaries with the same keys in the same order and related values.\<close>

definition odict_rel ::
  "('v \<Rightarrow> 'v \<Rightarrow> bool) \<Rightarrow> ('k, 'v) odict \<Rightarrow> ('k, 'v) odict \<Rightarrow> bool" where
  "odict_rel R d d' \<longleftrightarrow> list_all2 (\<lambda>p q. fst p = fst q \<and> R (snd p) (snd q)) d d'"

lemma odict_rel_Nil [simp]: "odict_rel R [] []"
  by (simp add: odict_rel_def)

lemma odict_rel_Cons [simp]:
  "odict_rel R ((k, v) # d) ((k', v') # d') \<longleftrightarrow> k = k' \<and> R v v' \<and> odict_rel R d d'"
  by (simp add: odict_rel_def)

lemma odict_rel_refl: "(\<And>v. v \<in> set (vals d) \<Longrightarrow> R v v) \<Longrightarrow> odict_rel R d d"
  by (auto simp: odict_rel_def list_all2_same)

lemma odict_rel_keys: "odict_rel R d d' \<Longrightarrow> keys d' = keys d"
  unfolding odict_rel_def by (induction rule: list_all2_induct) auto

lemma odict_rel_length: "odict_rel R d d' \<Longrightarrow> length d' = length d"
  by (auto simp: odict_rel_def dest: list_all2_lengthD)

lemma odict_rel_lookup:
  "odict_rel R d d' \<Longrightarrow> map_of d k = Some v \<Longrightarrow> \<exists>v'. map_of d' k = Some v' \<and> R v v'"
  unfolding odict_rel_def by (induction rule: list_all2_induct) (auto split: if_splits)

lemma odict_rel_lookup_back:
  "odict_rel R d d' \<Longrightarrow> map_of d' k = Some v' \<Longrightarrow> \<exists>v. map_of d k = Some v \<and> R v v'"
  unfolding odict_rel_def by (induction rule: list_all2_induct) (auto split: if_splits)

lemma odict_rel_mono:
  "odict_rel R d d' \<Longrightarrow> (\<And>v v'. R v v' \<Longrightarrow> S v v') \<Longrightarrow> odict_rel S d d'"
  unfolding odict_rel_def by (auto elim: list_all2_mono)

lemma odict_rel_all:
  assumes "odict_rel R d d'" and "\<And>k v v'. R v v' \<Longrightarrow> P k v \<Longrightarrow> P k v'"
    and "\<forall>(k, v) \<in> set d. P k v"
  shows "\<forall>(k, v) \<in> set d'. P k v"
  using assms unfolding odict_rel_def
  by (induction rule: list_all2_induct) (auto simp: split_beta)

lemma odict_rel_update:
  assumes "distinct (keys d)" and "map_of d k = Some v" and "R v v'" and "\<And>u. R u u"
  shows "odict_rel R d (AList.update k v' d)"
proof -
  have "R (snd p) (snd (case p of (k', u) \<Rightarrow> (k', if k' = k then v' else u)))"
    if "p \<in> set d" for p
    using that assms(2-4) in_set_map_of_distinct[OF assms(1), of "fst p" "snd p"]
    by (auto split: prod.splits)
  then show ?thesis
    by (simp add: odict_rel_def odict_update_in_place[OF assms(1,2)] list_all2_map2
        list_all2_same split_beta)
qed

lemma odict_rel_count:
  assumes "odict_rel R d d'" and "\<And>v v'. R v v' \<Longrightarrow> P v' \<Longrightarrow> P v"
  shows "length (filter P (vals d')) \<le> length (filter P (vals d))"
  using assms unfolding odict_rel_def by (induction rule: list_all2_induct) auto


section \<open>Invariants of step relations\<close>

text \<open>
  A component with state is an initial predicate and a step relation; \<open>runs\<close> is its reflexive
  transitive closure from an initial state.  A predicate that every initial state has and every
  step keeps holds in every reachable state.
\<close>

inductive runs :: "('s \<Rightarrow> bool) \<Rightarrow> ('s \<Rightarrow> 's \<Rightarrow> bool) \<Rightarrow> 's \<Rightarrow> bool"
  for ini :: "'s \<Rightarrow> bool" and step :: "'s \<Rightarrow> 's \<Rightarrow> bool" where
  runs_init: "ini s \<Longrightarrow> runs ini step s"
| runs_step: "runs ini step s \<Longrightarrow> step s t \<Longrightarrow> runs ini step t"

locale invariant =
  fixes ini :: "'s \<Rightarrow> bool" and step :: "'s \<Rightarrow> 's \<Rightarrow> bool" and I :: "'s \<Rightarrow> bool"
  assumes init_inv: "ini s \<Longrightarrow> I s"
    and step_inv: "I s \<Longrightarrow> step s t \<Longrightarrow> I t"
begin

lemma reachable_inv: "runs ini step s \<Longrightarrow> I s"
  by (induction rule: runs.induct) (auto intro: init_inv step_inv)

lemma steps_inv: "step\<^sup>*\<^sup>* s t \<Longrightarrow> I s \<Longrightarrow> I t"
  by (induction rule: rtranclp_induct) (auto intro: step_inv)

end

lemma runs_steps: "step\<^sup>*\<^sup>* s t \<Longrightarrow> runs ini step s \<Longrightarrow> runs ini step t"
  by (induction rule: rtranclp_induct) (auto intro: runs_step)

text \<open>
  A component whose steps are executions of labelled operations, and an abstract system that
  matches each execution by a sequence of its own events: one the label permits between the two
  states, and one that leads from the view of the first state to the view of the second.
\<close>

locale simulation = invariant ini step I
  for ini :: "'s \<Rightarrow> bool" and step :: "'s \<Rightarrow> 's \<Rightarrow> bool" and I :: "'s \<Rightarrow> bool" +
  fixes exec :: "'l \<Rightarrow> 's \<Rightarrow> 's option" and view :: "'s \<Rightarrow> 'a" and start :: 'a
    and permits :: "'l \<Rightarrow> 's \<Rightarrow> 's \<Rightarrow> 'e list \<Rightarrow> bool"
    and events :: "'s \<Rightarrow> 's \<Rightarrow> 'e list \<Rightarrow> 'a \<Rightarrow> 'a option"
  assumes start_view: "ini s \<Longrightarrow> view s = start"
    and exec_step: "exec l s = Some t \<Longrightarrow> step s t"
    and exec_events: "I s \<Longrightarrow> exec l s = Some t \<Longrightarrow>
      \<exists>evs. permits l s t evs \<and> events s t evs (view s) = Some (view t)"
begin

lemma reachable_events:
  "runs ini step s \<Longrightarrow> exec l s = Some t \<Longrightarrow>
   runs ini step t \<and> (\<exists>evs. permits l s t evs \<and> events s t evs (view s) = Some (view t))"
  using exec_events[OF reachable_inv] exec_step by (blast intro: runs_step)

end

section \<open>Self-delimiting encodings\<close>

text \<open>
  An encoder into token lists and a decoder that consumes one encoded value from the front of its
  input.  Every encoding of the program that a peer parses has this shape.
\<close>

locale codec =
  fixes enc :: "'a \<Rightarrow> 't list"
    and dec :: "'t list \<Rightarrow> ('a \<times> 't list) option"
    and ok :: "'a \<Rightarrow> bool"
  assumes dec_enc: "ok x \<Longrightarrow> dec (enc x @ rest) = Some (x, rest)"
begin

lemma dec_enc_exact: "ok x \<Longrightarrow> dec (enc x) = Some (x, [])"
  using dec_enc[of x "[]"] by simp

lemma enc_append_inj:
  assumes "ok x" and "ok y" and "enc x @ r = enc y @ s"
  shows "x = y \<and> r = s"
proof -
  have "Some (x, r) = Some (y, s)"
    using dec_enc[OF assms(1)] dec_enc[OF assms(2)] assms(3) by metis
  then show ?thesis by simp
qed

lemma enc_inj: "ok x \<Longrightarrow> ok y \<Longrightarrow> enc x = enc y \<Longrightarrow> x = y"
  using enc_append_inj[of x y "[]" "[]"] by simp

text \<open>Decoding \<open>n\<close> values in a row.\<close>

primrec dec_many :: "nat \<Rightarrow> 't list \<Rightarrow> ('a list \<times> 't list) option" where
  "dec_many 0 ts = Some ([], ts)"
| "dec_many (Suc n) ts =
     (case dec ts of None \<Rightarrow> None
      | Some (x, ts') \<Rightarrow>
          (case dec_many n ts' of None \<Rightarrow> None | Some (xs, r) \<Rightarrow> Some (x # xs, r)))"

lemma dec_many_enc:
  "list_all ok xs \<Longrightarrow> dec_many (length xs) (concat (map enc xs) @ rest) = Some (xs, rest)"
  by (induction xs) (simp_all add: dec_enc)

end

end
