(* ===== verification/Python.thy ===== *)
theory Python
  imports Prelude "HOL-Library.Word"
begin

text \<open>
  The parts of Python and its standard library that the source uses: exception classes and the
  results of fallible calls, dynamically typed values (arguments of a tool call, a TOML document,
  a JSON object), \<open>datetime\<close> and \<open>timedelta\<close> as integers of microseconds, \<open>str\<close> methods.
  A Python \<open>str\<close> is a \<open>string\<close>: a list of code points below 256.
\<close>

section \<open>Exceptions and results\<close>

text \<open>
  The exception classes that the source raises, catches or lets through.  \<open>Library_error\<close> is any
  other subclass of \<open>Exception\<close>, raised by a third-party call; \<open>CancelledError\<close> (asyncio) and
  \<open>SystemExit\<close> derive from \<open>BaseException\<close> only.
\<close>

datatype py_exn =
    RequestUnavailable
  | QueryPolicyRejected
  | ArrowAdmissionError
  | ConfigurationError string
  | PrivateKeyError string
  | InvalidCommand
  | ValidationError
  | ValueError
  | TypeError
  | KeyError
  | OSError
  | OverflowError
  | StructError
  | Library_error nat
  | CancelledError
  | SystemExit

definition is_Exception :: "py_exn \<Rightarrow> bool" where
  "is_Exception e \<longleftrightarrow> e \<noteq> CancelledError \<and> e \<noteq> SystemExit"

type_synonym 'a result = "py_exn + 'a"

text \<open>Pydantic's \<open>ValidationError\<close> is a subclass of \<open>ValueError\<close>.\<close>

definition is_ValueError :: "py_exn \<Rightarrow> bool" where
  "is_ValueError e \<longleftrightarrow> e = ValueError \<or> e = ValidationError"

primrec is_ok :: "'a result \<Rightarrow> bool" where
  "is_ok (Inl e) = False"
| "is_ok (Inr x) = True"

text \<open>Sequencing of fallible calls that touch no shared state.\<close>

definition then_do :: "'a result \<Rightarrow> ('a \<Rightarrow> 'b result) \<Rightarrow> 'b result" where
  "then_do m f = (case m of Inl e \<Rightarrow> Inl e | Inr x \<Rightarrow> f x)"

lemma then_do_simps [simp]:
  "then_do (Inl e) f = Inl e"
  "then_do (Inr x) f = f x"
  by (simp_all add: then_do_def)

lemma then_do_Inr_iff:
  "then_do m f = Inr y \<longleftrightarrow> (\<exists>x. m = Inr x \<and> f x = Inr y)"
  by (cases m) auto

lemma then_do_Inl_iff:
  "then_do m f = Inl e \<longleftrightarrow> m = Inl e \<or> (\<exists>x. m = Inr x \<and> f x = Inl e)"
  by (cases m) auto

primrec map_result :: "('a \<Rightarrow> 'b result) \<Rightarrow> 'a list \<Rightarrow> 'b list result" where
  "map_result f [] = Inr []"
| "map_result f (x # xs) =
     then_do (f x) (\<lambda>y. then_do (map_result f xs) (\<lambda>ys. Inr (y # ys)))"

lemma map_result_Inr_iff:
  "map_result f xs = Inr ys \<longleftrightarrow> list_all2 (\<lambda>x y. f x = Inr y) xs ys"
proof (induction xs arbitrary: ys)
  case Nil
  then show ?case by auto
next
  case (Cons x xs)
  then show ?case by (auto simp: then_do_Inr_iff list_all2_Cons1)
qed

lemma map_result_all: "map_result f xs = Inr ys \<Longrightarrow> \<forall>x \<in> set xs. \<exists>y. f x = Inr y"
  by (induction xs arbitrary: ys) (auto simp: then_do_Inr_iff)

lemma map_result_Inl: "map_result f xs = Inl e \<Longrightarrow> \<exists>x \<in> set xs. f x = Inl e"
  by (induction xs) (auto simp: then_do_Inl_iff)

section \<open>Dynamically typed values\<close>

text \<open>
  \<open>POther\<close> stands for every object of a type the source never asks for (a TOML date, a NaN, an
  arbitrary instance); finite floats are rationals, which is what equality with an \<open>int\<close> compares.
\<close>

datatype pyval =
    PNone
  | PBool bool
  | PInt int
  | PFloat rat
  | PStr string
  | PList "pyval list"
  | PDict "(string \<times> pyval) list"
  | POther nat

text \<open>\<open>isinstance(v, str)\<close>, \<open>isinstance(v, dict)\<close> and \<open>isinstance(v, list)\<close> as selectors.\<close>

fun as_str :: "pyval \<Rightarrow> string option" where
  "as_str (PStr s) = Some s"
| "as_str _ = None"

fun as_dict :: "pyval \<Rightarrow> (string, pyval) odict option" where
  "as_dict (PDict d) = Some d"
| "as_dict _ = None"

fun as_list :: "pyval \<Rightarrow> pyval list option" where
  "as_list (PList xs) = Some xs"
| "as_list _ = None"

text \<open>\<open>type(v) is int\<close>: unlike \<open>isinstance\<close>, it is false for a \<open>bool\<close>.\<close>

fun as_exact_int :: "pyval \<Rightarrow> int option" where
  "as_exact_int (PInt n) = Some n"
| "as_exact_int _ = None"

text \<open>\<open>v == n\<close> for an \<open>int\<close> \<open>n\<close>: booleans and floats compare numerically.\<close>

fun equals_int :: "pyval \<Rightarrow> int \<Rightarrow> bool" where
  "equals_int (PInt m) n \<longleftrightarrow> m = n"
| "equals_int (PBool b) n \<longleftrightarrow> (if b then 1 else 0) = n"
| "equals_int (PFloat q) n \<longleftrightarrow> q = of_int n"
| "equals_int _ n \<longleftrightarrow> False"

lemma as_str_Some [simp]: "as_str v = Some s \<longleftrightarrow> v = PStr s"
  by (cases v) auto

lemma as_dict_Some [simp]: "as_dict v = Some d \<longleftrightarrow> v = PDict d"
  by (cases v) auto

lemma as_list_Some [simp]: "as_list v = Some xs \<longleftrightarrow> v = PList xs"
  by (cases v) auto

lemma as_exact_int_Some [simp]: "as_exact_int v = Some n \<longleftrightarrow> v = PInt n"
  by (cases v) auto

text \<open>\<open>d[k]\<close> raises \<open>KeyError\<close> on a missing key.\<close>

definition getitem :: "(string, pyval) odict \<Rightarrow> string \<Rightarrow> pyval result" where
  "getitem d k = (case map_of d k of None \<Rightarrow> Inl KeyError | Some v \<Rightarrow> Inr v)"

lemma getitem_Inr [simp]: "getitem d k = Inr v \<longleftrightarrow> map_of d k = Some v"
  by (auto simp: getitem_def split: option.splits)

lemma getitem_Inl [simp]: "getitem d k = Inl e \<longleftrightarrow> map_of d k = None \<and> e = KeyError"
  by (auto simp: getitem_def split: option.splits)

section \<open>Time\<close>

text \<open>
  A \<open>timedelta\<close> is its microseconds; an aware \<open>datetime\<close> is the microseconds since the epoch.
  A reading of the clock also says whether its \<open>tzinfo\<close> is set.
\<close>

type_synonym timedelta = int
type_synonym instant = int

record reading =
  instant_of :: instant
  tz_aware :: bool

text \<open>\<open>datetime.min\<close> and \<open>datetime.max\<close>, in UTC; the sum of a \<open>datetime\<close> and a \<open>timedelta\<close>.\<close>

definition first_instant :: instant where "first_instant = - 62135596800000000"

definition last_instant :: instant where "last_instant = 253402300799999999"

definition datetime_add :: "instant \<Rightarrow> timedelta \<Rightarrow> instant result" where
  "datetime_add t d =
     (if first_instant \<le> t + d \<and> t + d \<le> last_instant then Inr (t + d) else Inl OverflowError)"

lemma datetime_add_Inr: "datetime_add t d = Inr u \<Longrightarrow> u = t + d \<and> u \<le> last_instant"
  by (auto simp: datetime_add_def split: if_splits)

lemma datetime_add_Inl: "datetime_add t d = Inl x \<Longrightarrow> x = OverflowError"
  by (auto simp: datetime_add_def split: if_splits)

definition seconds :: "int \<Rightarrow> timedelta" where
  "seconds n = n * 1000000"

definition minutes :: "int \<Rightarrow> timedelta" where
  "minutes n = seconds (60 * n)"

text \<open>
  \<open>timedelta(seconds=n)\<close> normalises to days, seconds and microseconds and raises
  \<open>OverflowError\<close> when the days leave the range of \<open>datetime.timedelta\<close>.
\<close>

definition timedelta_of_seconds :: "int \<Rightarrow> timedelta result" where
  "timedelta_of_seconds n =
     (if \<bar>n div 86400\<bar> \<le> 999999999 then Inr (seconds n) else Inl OverflowError)"

lemma timedelta_of_seconds_Inr:
  "timedelta_of_seconds n = Inr d \<Longrightarrow> d = seconds n"
  by (auto simp: timedelta_of_seconds_def split: if_splits)

lemma timedelta_of_seconds_Inl:
  "timedelta_of_seconds n = Inl e \<Longrightarrow> e = OverflowError"
  by (auto simp: timedelta_of_seconds_def split: if_splits)

lemma seconds_pos [simp]: "0 < seconds n \<longleftrightarrow> 0 < n"
  by (auto simp: seconds_def)

section \<open>Strings\<close>

text \<open>\<open>s.split(c)\<close> for a one-character separator: always at least one part.\<close>

fun split_on :: "char \<Rightarrow> string \<Rightarrow> string list" where
  "split_on c [] = [[]]"
| "split_on c (x # xs) =
     (if x = c then [] # split_on c xs
      else (case split_on c xs of [] \<Rightarrow> [[x]] | p # ps \<Rightarrow> (x # p) # ps))"

fun join_with :: "char \<Rightarrow> string list \<Rightarrow> string" where
  "join_with c [] = []"
| "join_with c [p] = p"
| "join_with c (p # ps) = p @ c # join_with c ps"

lemma split_on_not_Nil [simp]: "split_on c s \<noteq> []"
  by (cases s) (auto split: list.splits)

lemma join_split_on: "join_with c (split_on c s) = s"
proof (induction s)
  case Nil
  then show ?case by simp
next
  case (Cons x s)
  obtain p ps where ps: "split_on c s = p # ps"
    by (cases "split_on c s") auto
  then show ?case using Cons by (cases ps) auto
qed

lemma split_on_no_sep: "p \<in> set (split_on c s) \<Longrightarrow> c \<notin> set p"
proof (induction s arbitrary: p)
  case Nil
  then show ?case by simp
next
  case (Cons x s)
  then show ?case by (cases "split_on c s") (auto split: if_splits)
qed

lemma split_on_append_sep:
  "c \<notin> set p \<Longrightarrow> split_on c (p @ c # s) = p # split_on c s"
  by (induction p) auto

lemma split_on_plain: "c \<notin> set p \<Longrightarrow> split_on c p = [p]"
  by (induction p) auto

lemma split_on_join:
  "ps \<noteq> [] \<Longrightarrow> \<forall>p \<in> set ps. c \<notin> set p \<Longrightarrow> split_on c (join_with c ps) = ps"
  by (induction ps rule: join_with.induct[of _ c]) (auto simp: split_on_plain split_on_append_sep)

text \<open>
  \<open>str.strip()\<close> removes leading and trailing white space; the source only asks whether
  anything is left.  The white space code points below 256 are 9 to 13, 28 to 32, 133 and 160.
\<close>

definition is_space :: "char \<Rightarrow> bool" where
  "is_space ch =
     (let n = (of_char ch :: nat)
      in (9 \<le> n \<and> n \<le> 13) \<or> (28 \<le> n \<and> n \<le> 32) \<or> n = 133 \<or> n = 160)"

definition strip :: "string \<Rightarrow> string" where
  "strip s = rev (dropWhile is_space (rev (dropWhile is_space s)))"

lemma strip_eq_Nil: "strip s = [] \<longleftrightarrow> list_all is_space s"
proof
  assume "strip s = []"
  then have *: "\<forall>x \<in> set (dropWhile is_space s). is_space x"
    by (auto simp: strip_def dropWhile_eq_Nil_conv)
  have "dropWhile is_space s = []"
  proof (rule ccontr)
    assume ne: "dropWhile is_space s \<noteq> []"
    then have "\<not> is_space (hd (dropWhile is_space s))" by (rule hd_dropWhile)
    with ne * show False by simp
  qed
  then show "list_all is_space s" by (simp add: dropWhile_eq_Nil_conv list_all_iff)
next
  assume "list_all is_space s"
  then have "dropWhile is_space s = []" by (simp add: dropWhile_eq_Nil_conv list_all_iff)
  then show "strip s = []" unfolding strip_def by (simp only: dropWhile.simps rev.simps)
qed

text \<open>Character classes of the regular expressions.\<close>

definition char_code :: "char \<Rightarrow> nat" where
  "char_code ch = of_char ch"

definition is_upper :: "char \<Rightarrow> bool" where
  "is_upper ch \<longleftrightarrow> 65 \<le> char_code ch \<and> char_code ch \<le> 90"

definition is_lower :: "char \<Rightarrow> bool" where
  "is_lower ch \<longleftrightarrow> 97 \<le> char_code ch \<and> char_code ch \<le> 122"

definition is_digit_char :: "char \<Rightarrow> bool" where
  "is_digit_char ch \<longleftrightarrow> 48 \<le> char_code ch \<and> char_code ch \<le> 57"

end
