(* ===== verification/Tokens.thy ===== *)
theory Tokens
  imports Python
begin

text \<open>
  \<open>secrets.token_urlsafe(18)\<close>, the source of every request identifier: 18 bytes of operating
  system entropy in URL-safe base64 with the padding removed; and the request-identifier pattern
  \<open>^[A-Za-z0-9_-]{20,32}$\<close> that every receipt is validated against.
\<close>

type_synonym byte = "8 word"

section \<open>URL-safe base64 without padding\<close>

text \<open>The alphabet: \<open>A-Z\<close>, \<open>a-z\<close>, \<open>0-9\<close>, \<open>-\<close>, \<open>_\<close> for the sextets 0 to 63.\<close>

definition b64_char :: "nat \<Rightarrow> char" where
  "b64_char n =
     (if n < 26 then char_of (65 + n)
      else if n < 52 then char_of (71 + n)
      else if n < 62 then char_of (n - 4)
      else if n = 62 then CHR ''-'' else CHR ''_'')"

fun b64encode :: "byte list \<Rightarrow> string" where
  "b64encode [] = []"
| "b64encode [a] =
     [b64_char (unat a div 4), b64_char (unat a mod 4 * 16)]"
| "b64encode [a, b] =
     [b64_char (unat a div 4), b64_char (unat a mod 4 * 16 + unat b div 16),
      b64_char (unat b mod 16 * 4)]"
| "b64encode (a # b # c # bs) =
     b64_char (unat a div 4) # b64_char (unat a mod 4 * 16 + unat b div 16) #
     b64_char (unat b mod 16 * 4 + unat c div 64) # b64_char (unat c mod 64) # b64encode bs"

definition token_urlsafe :: "byte list \<Rightarrow> string" where
  "token_urlsafe entropy = b64encode entropy"

section \<open>The request-identifier pattern\<close>

definition url_char :: "char \<Rightarrow> bool" where
  "url_char ch \<longleftrightarrow>
     is_upper ch \<or> is_lower ch \<or> is_digit_char ch \<or> ch = CHR ''_'' \<or> ch = CHR ''-''"

definition request_id_pattern :: "string \<Rightarrow> bool" where
  "request_id_pattern s \<longleftrightarrow> list_all url_char s \<and> 20 \<le> length s \<and> length s \<le> 32"

lemma b64_char_code:
  assumes "n < 64"
  shows "char_code (b64_char n) =
    (if n < 26 then 65 + n else if n < 52 then 71 + n else if n < 62 then n - 4
     else if n = 62 then 45 else 95)"
  using assms by (auto simp: b64_char_def char_code_def)

lemma url_char_b64:
  assumes "n < 64"
  shows "url_char (b64_char n)"
proof -
  consider "n < 26" | "26 \<le> n" "n < 52" | "52 \<le> n" "n < 62" | "n = 62" | "n = 63"
    using assms by linarith
  then show ?thesis
    by cases (auto simp: url_char_def is_upper_def is_lower_def is_digit_char_def
        b64_char_code, auto simp: b64_char_def)
qed

lemma b64_char_inj:
  assumes "m < 64" "n < 64" and "b64_char m = b64_char n"
  shows "m = n"
proof -
  from assms(3) have "char_code (b64_char m) = char_code (b64_char n)" by simp
  with assms(1,2) show ?thesis by (auto simp: b64_char_code split: if_splits)
qed

lemma unat_byte_less: "unat (b :: byte) < 256"
  using unsigned_less[of b] by simp

lemma sextet_bounds [simp]:
  fixes a b c :: byte
  shows "unat a div 4 < 64" "unat a mod 4 * 16 + unat b div 16 < 64"
    "unat b mod 16 * 4 + unat c div 64 < 64" "unat a mod 4 * 16 < 64" "unat b mod 16 * 4 < 64"
  using unat_byte_less[of a] unat_byte_less[of b] unat_byte_less[of c] by auto

lemma b64encode_url: "list_all url_char (b64encode bs)"
  by (induction bs rule: b64encode.induct) (auto intro!: url_char_b64)

lemma b64encode_length:
  "length (b64encode bs) = length bs div 3 * 4 + (if length bs mod 3 = 0 then 0 else length bs mod 3 + 1)"
proof (induction bs rule: b64encode.induct)
  case (4 a b c bs)
  have "length (a # b # c # bs) = length bs + 3" by simp
  then have "length (a # b # c # bs) div 3 = length bs div 3 + 1"
    and "length (a # b # c # bs) mod 3 = length bs mod 3" by presburger+
  with 4 show ?case by simp
qed simp_all

text \<open>Three bytes are determined by their four sextets: each sextet splits into the low bits of
  one byte and the high bits of the next.\<close>

lemma split_sum_inj:
  fixes x y x' y' k :: nat
  assumes "x * k + y = x' * k + y'" and "y < k" and "y' < k"
  shows "x = x' \<and> y = y'"
proof -
  have "x = (x * k + y) div k" "x' = (x' * k + y') div k" using assms(2,3) by simp_all
  then have "x = x'" using assms(1) by simp
  with assms(1) show ?thesis by simp
qed

lemma div_mod_inj: "(x :: nat) div k = y div k \<Longrightarrow> x mod k = y mod k \<Longrightarrow> x = y"
  by (metis div_mult_mod_eq)

lemma sextets_inj:
  fixes a b c a' b' c' :: nat
  assumes "a < 256" "b < 256" "c < 256" "a' < 256" "b' < 256" "c' < 256"
    and "a div 4 = a' div 4" "a mod 4 * 16 + b div 16 = a' mod 4 * 16 + b' div 16"
    and "b mod 16 * 4 + c div 64 = b' mod 16 * 4 + c' div 64" "c mod 64 = c' mod 64"
  shows "a = a' \<and> b = b' \<and> c = c'"
proof -
  have "a mod 4 = a' mod 4 \<and> b div 16 = b' div 16"
    by (rule split_sum_inj[OF assms(8)]) (use assms(2,5) in auto)
  moreover have "b mod 16 = b' mod 16 \<and> c div 64 = c' div 64"
    by (rule split_sum_inj[OF assms(9)]) (use assms(3,6) in auto)
  ultimately show ?thesis using assms(7,10) by (auto intro: div_mod_inj)
qed

lemma b64encode_inj_length:
  assumes "length bs = length cs" and "3 dvd length bs" and "b64encode bs = b64encode cs"
  shows "bs = cs"
  using assms
proof (induction bs arbitrary: cs rule: b64encode.induct)
  case 1
  then show ?case by simp
next
  case (2 a)
  from 2(2) have False by simp
  then show ?case ..
next
  case (3 a b)
  from 3(2) have False by (simp add: dvd_def) presburger
  then show ?case ..
next
  case (4 a b c bs)
  obtain a' b' c' cs' where cs: "cs = a' # b' # c' # cs'"
    using 4(2) by (auto simp: length_Suc_conv dest!: sym[of "Suc _" "length cs"])
  from 4(4) have sext:
    "b64_char (unat a div 4) = b64_char (unat a' div 4)"
    "b64_char (unat a mod 4 * 16 + unat b div 16) = b64_char (unat a' mod 4 * 16 + unat b' div 16)"
    "b64_char (unat b mod 16 * 4 + unat c div 64) = b64_char (unat b' mod 16 * 4 + unat c' div 64)"
    "b64_char (unat c mod 64) = b64_char (unat c' mod 64)"
    and rest: "b64encode bs = b64encode cs'"
    by (auto simp: cs)
  have "unat a = unat a' \<and> unat b = unat b' \<and> unat c = unat c'"
    by (rule sextets_inj) (rule unat_byte_less sext[THEN b64_char_inj[rotated 2]] sextet_bounds | simp)+
  moreover have "3 dvd length bs"
    using 4(3) dvd_add_left_iff[of 3 3 "length bs"] by (simp add: numeral_3_eq_3)
  then have "bs = cs'"
    using 4(1)[of cs'] 4(2) rest by (simp add: cs)
  ultimately show ?case by (simp add: cs word_unat_eq_iff)
qed

section \<open>What a fresh identifier looks like\<close>

lemma token_urlsafe_shape:
  "length entropy = 18 \<Longrightarrow>
   request_id_pattern (token_urlsafe entropy) \<and> length (token_urlsafe entropy) = 24"
  by (simp add: request_id_pattern_def token_urlsafe_def b64encode_url b64encode_length)

text \<open>
  Eighteen bytes of entropy always give an identifier of 24 URL-safe characters,
  so every identifier the program generates passes its own receipt pattern.
\<close>

theorem token_urlsafe_matches_pattern:
  assumes "length entropy = 18"
  shows "request_id_pattern (token_urlsafe entropy) \<and> length (token_urlsafe entropy) = 24"
  by (rule token_urlsafe_shape[OF assms])

theorem token_urlsafe_matches_pattern_witness:
  "length (replicate 18 (255 :: byte)) = 18 \<and>
   request_id_pattern (token_urlsafe (replicate 18 255)) \<and>
   length (token_urlsafe (replicate 18 255)) = 24"
  using token_urlsafe_matches_pattern[of "replicate 18 255"] by simp

text \<open>
  The encoding loses nothing: two draws give the same identifier only if the entropy was
  the same, so an identifier carries all 144 bits.
\<close>

lemma token_urlsafe_inj:
  assumes "length e1 = 18" and "length e2 = 18" and "token_urlsafe e1 = token_urlsafe e2"
  shows "e1 = e2"
  by (rule b64encode_inj_length) (use assms in \<open>auto simp: token_urlsafe_def\<close>)

end
