(* ===== verification/Broker.thy ===== *)
theory Broker
  imports Tokens
begin

text \<open>
  The in-process request broker (\<open>src/snowglobe/broker.py\<close>): its records, every operation, and
  the two lock-scoped context managers the operations are built from.  Sources and cursors are
  opaque objects compared by identity, the type parameters \<open>'s\<close> and \<open>'c\<close>.

  An operation maps the broker to a result and the new broker; a raised exception is an \<open>Inl\<close>
  result, and the state it leaves behind is returned with it.  The clock and the operating
  system's entropy are read in order, each read having its own position, so that two reads in one
  operation may differ.  \<open>trace\<close> records when the lock is taken and released and which driver
  cursors are cancelled, in order.
\<close>

section \<open>State\<close>

datatype request_status = PENDING | COMPLETE | FAILED | CANCELLED | EXPIRED

record request_view =
  view_id :: string
  view_status :: request_status
  view_expires_at :: instant

record ('s, 'c) request_record =
  rec_id :: string
  rec_status :: request_status
  rec_expires_at :: instant
  rec_source :: "'s option"
  rec_cursor :: "'c option"

definition record_view :: "('s, 'c) request_record \<Rightarrow> request_view" where
  "record_view r =
     \<lparr>view_id = rec_id r, view_status = rec_status r, view_expires_at = rec_expires_at r\<rparr>"

datatype 'c broker_event = Lock_acquired | Lock_released | Driver_cancel 'c

record ('s, 'c) broker =
  maximum_ttl :: timedelta
  maximum_pending_requests :: "int option"
  maximum_requests :: "int option"
  records :: "(string, ('s, 'c) request_record) odict"
  clock_reads :: nat
  tokens_drawn :: nat
  trace :: "'c broker_event list"

text \<open>The process environment: what the clock and the entropy source answer at each read.\<close>

record env =
  clock_at :: "nat \<Rightarrow> reading"
  entropy_at :: "nat \<Rightarrow> byte list"

definition broker_init ::
  "timedelta \<Rightarrow> int option \<Rightarrow> int option \<Rightarrow> ('s, 'c) broker result" where
  "broker_init ttl pending capacity =
     (if ttl \<le> 0 then Inl ValueError
      else if (case pending of None \<Rightarrow> False | Some n \<Rightarrow> n \<le> 0) then Inl ValueError
      else if (case capacity of None \<Rightarrow> False | Some n \<Rightarrow> n \<le> 0) then Inl ValueError
      else Inr \<lparr>maximum_ttl = ttl, maximum_pending_requests = pending,
                maximum_requests = capacity, records = [], clock_reads = 0,
                tokens_drawn = 0, trace = []\<rparr>)"

section \<open>The clock, expiry and cancellation of driver cursors\<close>

definition now :: "env \<Rightarrow> nat \<Rightarrow> instant result \<times> nat" where
  "now e n =
     (if tz_aware (clock_at e n) then Inr (instant_of (clock_at e n)) else Inl ValueError, Suc n)"

text \<open>
  \<open>_expire\<close> reads the clock only for a pending or complete record; it returns the cursor the
  expired record held, the record it leaves and the next clock position.
\<close>

definition expire ::
  "env \<Rightarrow> ('s, 'c) request_record \<Rightarrow> nat \<Rightarrow> 'c option result \<times> ('s, 'c) request_record \<times> nat"
where
  "expire e r n =
     (if rec_status r = PENDING \<or> rec_status r = COMPLETE then
        (case now e n of
           (Inl x, n') \<Rightarrow> (Inl x, r, n')
         | (Inr t, n') \<Rightarrow>
             if rec_expires_at r \<le> t then
               (Inr (rec_cursor r),
                r\<lparr>rec_status := EXPIRED, rec_source := None, rec_cursor := None\<rparr>, n')
             else (Inr None, r, n'))
      else (Inr None, r, n))"

text \<open>
  The comprehension of \<open>_locked_records\<close>: it expires the records in dictionary order and
  collects their cursors; an exception leaves the earlier records expired and no cursor list.
\<close>

fun expire_all ::
  "env \<Rightarrow> (string, ('s, 'c) request_record) odict \<Rightarrow> nat \<Rightarrow>
   'c list result \<times> (string, ('s, 'c) request_record) odict \<times> nat"
where
  "expire_all e [] n = (Inr [], [], n)"
| "expire_all e ((i, r) # rs) n =
     (case expire e r n of
        (Inl x, r', n') \<Rightarrow> (Inl x, (i, r') # rs, n')
      | (Inr c, r', n') \<Rightarrow>
          (case expire_all e rs n' of
             (Inl x, rs', n'') \<Rightarrow> (Inl x, (i, r') # rs', n'')
           | (Inr cs, rs', n'') \<Rightarrow>
               (Inr (case c of None \<Rightarrow> cs | Some c' \<Rightarrow> c' # cs), (i, r') # rs', n'')))"

definition log_event :: "'c broker_event \<Rightarrow> ('s, 'c) broker \<Rightarrow> ('s, 'c) broker" where
  "log_event ev b = b\<lparr>trace := trace b @ [ev]\<rparr>"

text \<open>
  \<open>_cancel_quietly\<close>: the driver's \<open>cancel()\<close> is called; an \<open>Exception\<close> it raises is suppressed,
  so only the call itself is visible.
\<close>

definition cancel_quietly :: "'c \<Rightarrow> ('s, 'c) broker \<Rightarrow> ('s, 'c) broker" where
  "cancel_quietly c b = log_event (Driver_cancel c) b"

definition cancel_opt :: "'c option \<Rightarrow> ('s, 'c) broker \<Rightarrow> ('s, 'c) broker" where
  "cancel_opt c b = (case c of None \<Rightarrow> b | Some c' \<Rightarrow> cancel_quietly c' b)"

section \<open>Lock-scoped access\<close>

text \<open>
  \<open>_locked_record\<close> with the body of its \<open>with\<close> block: the body reads and writes the one record.
  A cursor freed by expiry is cancelled in the \<open>finally\<close>, after the lock is released.
\<close>

definition locked_record ::
  "env \<Rightarrow> string \<Rightarrow> (('s, 'c) request_record \<Rightarrow> 'a result \<times> ('s, 'c) request_record) \<Rightarrow>
   ('s, 'c) broker \<Rightarrow> 'a result \<times> ('s, 'c) broker"
where
  "locked_record e i body b =
     (let b0 = log_event Lock_acquired b in
      case map_of (records b0) i of
        None \<Rightarrow> (Inl RequestUnavailable, log_event Lock_released b0)
      | Some r \<Rightarrow>
          (case expire e r (clock_reads b0) of
             (Inl x, r1, n) \<Rightarrow>
               (Inl x, log_event Lock_released (b0\<lparr>clock_reads := n\<rparr>))
           | (Inr c, r1, n) \<Rightarrow>
               (case body r1 of
                  (res, r2) \<Rightarrow>
                    (res, cancel_opt c (log_event Lock_released
                       (b0\<lparr>records := AList.update i r2 (records b0), clock_reads := n\<rparr>))))))"

text \<open>
  \<open>_locked_records\<close> in two halves, around a body that works on the whole broker.
\<close>

definition enter_records ::
  "env \<Rightarrow> ('s, 'c) broker \<Rightarrow> 'c list result \<times> ('s, 'c) broker" where
  "enter_records e b =
     (let b0 = log_event Lock_acquired b in
      case expire_all e (records b0) (clock_reads b0) of
        (res, rs, n) \<Rightarrow> (res, b0\<lparr>records := rs, clock_reads := n\<rparr>))"

definition exit_records :: "'c list \<Rightarrow> ('s, 'c) broker \<Rightarrow> ('s, 'c) broker" where
  "exit_records cs b = fold cancel_quietly cs (log_event Lock_released b)"

section \<open>Operations\<close>

text \<open>
  \<open>_new_request_id\<close> draws tokens until one is not in use; a broken entropy source could make it
  run forever, which is the value \<open>None\<close>.
\<close>

partial_function (option) new_request_id ::
  "(nat \<Rightarrow> byte list) \<Rightarrow> string list \<Rightarrow> nat \<Rightarrow> (string \<times> nat) option" where
  "new_request_id entropy used n =
     (if token_urlsafe (entropy n) \<in> set used then new_request_id entropy used (Suc n)
      else Some (token_urlsafe (entropy n), Suc n))"

declare new_request_id.simps [code]

definition pending_count :: "('s, 'c) broker \<Rightarrow> nat" where
  "pending_count b = length (filter (\<lambda>r. rec_status r = PENDING) (vals (records b)))"

definition at_pending_capacity :: "('s, 'c) broker \<Rightarrow> bool" where
  "at_pending_capacity b =
     (case maximum_pending_requests b of
        None \<Rightarrow> False
      | Some m \<Rightarrow> m \<le> int (pending_count b))"

definition evictable :: "('s, 'c) request_record \<Rightarrow> bool" where
  "evictable r \<longleftrightarrow>
     rec_status r = FAILED \<or> rec_status r = CANCELLED \<or> rec_status r = EXPIRED"

text \<open>\<open>_make_room\<close> deletes the first (oldest) terminal record, and only when the broker is full.\<close>

definition make_room :: "('s, 'c) broker \<Rightarrow> unit result \<times> ('s, 'c) broker" where
  "make_room b =
     (if (case maximum_requests b of None \<Rightarrow> True | Some m \<Rightarrow> int (length (records b)) < m)
      then (Inr (), b)
      else (case find (\<lambda>(i, r). evictable r) (records b) of
              Some (i, r) \<Rightarrow> (Inr (), b\<lparr>records := AList.delete i (records b)\<rparr>)
            | None \<Rightarrow> (Inl RequestUnavailable, b)))"

definition insert_pending ::
  "env \<Rightarrow> timedelta \<Rightarrow> string \<Rightarrow> ('s, 'c) broker \<Rightarrow> request_view result \<times> ('s, 'c) broker" where
  "insert_pending e ttl i b =
     (case now e (clock_reads b) of
        (Inl x, n) \<Rightarrow> (Inl x, b\<lparr>clock_reads := n\<rparr>)
      | (Inr t, n) \<Rightarrow>
          (case datetime_add t (min ttl (maximum_ttl b)) of
             Inl x \<Rightarrow> (Inl x, b\<lparr>clock_reads := n\<rparr>)
           | Inr deadline \<Rightarrow>
               (let r = \<lparr>rec_id = i, rec_status = PENDING, rec_expires_at = deadline,
                         rec_source = None, rec_cursor = None\<rparr>
                in (Inr (record_view r),
                    b\<lparr>clock_reads := n, records := AList.update i r (records b)\<rparr>))))"

definition submit_body ::
  "env \<Rightarrow> timedelta \<Rightarrow> ('s, 'c) broker \<Rightarrow> (request_view result \<times> ('s, 'c) broker) option" where
  "submit_body e ttl b =
     (if at_pending_capacity b then Some (Inl RequestUnavailable, b)
      else (case make_room b of
              (Inl x, b1) \<Rightarrow> Some (Inl x, b1)
            | (Inr _, b1) \<Rightarrow>
                (case new_request_id (entropy_at e) (keys (records b1)) (tokens_drawn b1) of
                   None \<Rightarrow> None
                 | Some (i, k) \<Rightarrow> Some (insert_pending e ttl i (b1\<lparr>tokens_drawn := k\<rparr>)))))"

definition broker_submit ::
  "env \<Rightarrow> timedelta \<Rightarrow> ('s, 'c) broker \<Rightarrow> (request_view result \<times> ('s, 'c) broker) option" where
  "broker_submit e ttl b =
     (if ttl \<le> 0 then Some (Inl ValueError, b)
      else (case enter_records e b of
              (Inl x, b1) \<Rightarrow> Some (Inl x, exit_records [] b1)
            | (Inr cs, b1) \<Rightarrow>
                map_option (\<lambda>(res, b2). (res, exit_records cs b2)) (submit_body e ttl b1)))"

definition register_body ::
  "'c \<Rightarrow> ('s, 'c) request_record \<Rightarrow> request_view option result \<times> ('s, 'c) request_record" where
  "register_body c r =
     (if rec_status r = PENDING \<and> rec_cursor r = None
      then (let r' = r\<lparr>rec_cursor := Some c\<rparr> in (Inr (Some (record_view r')), r'))
      else (Inr None, r))"

definition register_cursor ::
  "env \<Rightarrow> string \<Rightarrow> 'c \<Rightarrow> ('s, 'c) broker \<Rightarrow> request_view result \<times> ('s, 'c) broker" where
  "register_cursor e i c b =
     (case locked_record e i (register_body c) b of
        (Inl x, b') \<Rightarrow>
          (if x = RequestUnavailable then (Inl x, cancel_quietly c b') else (Inl x, b'))
      | (Inr (Some v), b') \<Rightarrow> (Inr v, b')
      | (Inr None, b') \<Rightarrow> (Inl RequestUnavailable, cancel_quietly c b'))"

definition release_body ::
  "'c \<Rightarrow> ('s, 'c) request_record \<Rightarrow> unit result \<times> ('s, 'c) request_record" where
  "release_body c r =
     (if rec_status r = PENDING \<and> rec_cursor r = Some c
      then (Inr (), r\<lparr>rec_cursor := None\<rparr>) else (Inr (), r))"

definition release_cursor ::
  "env \<Rightarrow> string \<Rightarrow> 'c \<Rightarrow> ('s, 'c) broker \<Rightarrow> unit result \<times> ('s, 'c) broker" where
  "release_cursor e i c b = locked_record e i (release_body c) b"

definition publish_body ::
  "'s \<Rightarrow> ('s, 'c) request_record \<Rightarrow> request_view result \<times> ('s, 'c) request_record" where
  "publish_body s r =
     (if rec_status r \<noteq> PENDING then (Inl RequestUnavailable, r)
      else (let r' = r\<lparr>rec_source := Some s, rec_cursor := None, rec_status := COMPLETE\<rparr>
            in (Inr (record_view r'), r')))"

definition publish ::
  "env \<Rightarrow> string \<Rightarrow> 's \<Rightarrow> ('s, 'c) broker \<Rightarrow> request_view result \<times> ('s, 'c) broker" where
  "publish e i s b = locked_record e i (publish_body s) b"

text \<open>
  \<open>fail\<close> and \<open>cancel\<close> take the cursor out of the record under the lock and cancel it after
  the \<open>with\<close> block, so their bodies return it beside the view.
\<close>

definition fail_body ::
  "('s, 'c) request_record \<Rightarrow> ('c option \<times> request_view) result \<times> ('s, 'c) request_record" where
  "fail_body r =
     (if rec_status r \<noteq> PENDING then (Inl RequestUnavailable, r)
      else (let r' = r\<lparr>rec_cursor := None, rec_status := FAILED\<rparr>
            in (Inr (rec_cursor r, record_view r'), r')))"

definition cancel_body ::
  "('s, 'c) request_record \<Rightarrow> ('c option \<times> request_view) result \<times> ('s, 'c) request_record" where
  "cancel_body r =
     (if rec_status r = CANCELLED then (Inr (None, record_view r), r)
      else if rec_status r = EXPIRED then (Inl RequestUnavailable, r)
      else if rec_status r = FAILED then (Inr (None, record_view r), r)
      else (let r' = r\<lparr>rec_status := CANCELLED, rec_source := None, rec_cursor := None\<rparr>
            in (Inr (rec_cursor r, record_view r'), r')))"

definition with_cursor_cancelled ::
  "('c option \<times> 'a) result \<times> ('s, 'c) broker \<Rightarrow> 'a result \<times> ('s, 'c) broker" where
  "with_cursor_cancelled out =
     (case out of
        (Inl x, b) \<Rightarrow> (Inl x, b)
      | (Inr (c, v), b) \<Rightarrow> (Inr v, cancel_opt c b))"

definition broker_fail ::
  "env \<Rightarrow> string \<Rightarrow> ('s, 'c) broker \<Rightarrow> request_view result \<times> ('s, 'c) broker" where
  "broker_fail e i b = with_cursor_cancelled (locked_record e i fail_body b)"

definition broker_cancel ::
  "env \<Rightarrow> string \<Rightarrow> ('s, 'c) broker \<Rightarrow> request_view result \<times> ('s, 'c) broker" where
  "broker_cancel e i b = with_cursor_cancelled (locked_record e i cancel_body b)"

definition list_requests ::
  "env \<Rightarrow> ('s, 'c) broker \<Rightarrow> request_view list result \<times> ('s, 'c) broker" where
  "list_requests e b =
     (case enter_records e b of
        (Inl x, b1) \<Rightarrow> (Inl x, exit_records [] b1)
      | (Inr cs, b1) \<Rightarrow>
          (Inr (map record_view (rev (vals (records b1)))), exit_records cs b1))"

definition get_request ::
  "env \<Rightarrow> string \<Rightarrow> ('s, 'c) broker \<Rightarrow> request_view result \<times> ('s, 'c) broker" where
  "get_request e i b = locked_record e i (\<lambda>r. (Inr (record_view r), r)) b"

definition open_body ::
  "('s, 'c) request_record \<Rightarrow> 's result \<times> ('s, 'c) request_record" where
  "open_body r =
     (if rec_status r \<noteq> COMPLETE then (Inl RequestUnavailable, r)
      else (case rec_source r of
              None \<Rightarrow> (Inl RequestUnavailable, r)
            | Some s \<Rightarrow> (Inr s, r)))"

definition open_source ::
  "env \<Rightarrow> string \<Rightarrow> ('s, 'c) broker \<Rightarrow> 's result \<times> ('s, 'c) broker" where
  "open_source e i b = locked_record e i open_body b"

lemmas broker_bodies =
  register_body_def release_body_def publish_body_def fail_body_def cancel_body_def open_body_def

section \<open>Runs of operations\<close>

text \<open>
  The lock serialises the operations, so a history of the broker is a sequence of calls.  A call
  whose identifier loop never returns has no successor.
\<close>

datatype ('s, 'c) broker_call =
    Submit timedelta
  | Register string 'c
  | Release string 'c
  | Publish string 's
  | Fail string
  | Cancel string
  | List_all
  | Get string
  | Open string

fun broker_exec ::
  "env \<Rightarrow> ('s, 'c) broker_call \<Rightarrow> ('s, 'c) broker \<Rightarrow> ('s, 'c) broker option" where
  "broker_exec e (Submit ttl) b = map_option snd (broker_submit e ttl b)"
| "broker_exec e (Register i c) b = Some (snd (register_cursor e i c b))"
| "broker_exec e (Release i c) b = Some (snd (release_cursor e i c b))"
| "broker_exec e (Publish i s) b = Some (snd (publish e i s b))"
| "broker_exec e (Fail i) b = Some (snd (broker_fail e i b))"
| "broker_exec e (Cancel i) b = Some (snd (broker_cancel e i b))"
| "broker_exec e List_all b = Some (snd (list_requests e b))"
| "broker_exec e (Get i) b = Some (snd (get_request e i b))"
| "broker_exec e (Open i) b = Some (snd (open_source e i b))"

fun broker_run ::
  "env \<Rightarrow> ('s, 'c) broker_call list \<Rightarrow> ('s, 'c) broker \<Rightarrow> ('s, 'c) broker option" where
  "broker_run e [] b = Some b"
| "broker_run e (q # qs) b =
     (case broker_exec e q b of None \<Rightarrow> None | Some b' \<Rightarrow> broker_run e qs b')"

definition broker_step :: "env \<Rightarrow> ('s, 'c) broker \<Rightarrow> ('s, 'c) broker \<Rightarrow> bool" where
  "broker_step e b b' \<longleftrightarrow> (\<exists>q. broker_exec e q b = Some b')"

definition broker_initial :: "('s, 'c) broker \<Rightarrow> bool" where
  "broker_initial b \<longleftrightarrow> (\<exists>ttl pending capacity. broker_init ttl pending capacity = Inr b)"

section \<open>Elimination rules for the lock scopes\<close>

text \<open>A call through \<open>_locked_record\<close> ends in one of three ways.\<close>

lemma locked_record_cases [consumes 1, case_names unknown clock ran]:
  assumes "locked_record e i body b = (res, b')"
  obtains
    "map_of (records b) i = None" "res = Inl RequestUnavailable"
    "b' = b\<lparr>trace := trace b @ [Lock_acquired, Lock_released]\<rparr>"
  | r x n where "map_of (records b) i = Some r"
    "expire e r (clock_reads b) = (Inl x, r, n)" "res = Inl x"
    "b' = b\<lparr>clock_reads := n, trace := trace b @ [Lock_acquired, Lock_released]\<rparr>"
  | r c r1 n r2 where "map_of (records b) i = Some r"
    "expire e r (clock_reads b) = (Inr c, r1, n)" "body r1 = (res, r2)"
    "b' = b\<lparr>records := AList.update i r2 (records b), clock_reads := n,
            trace := trace b @ [Lock_acquired, Lock_released] @
              (case c of None \<Rightarrow> [] | Some c' \<Rightarrow> [Driver_cancel c'])\<rparr>"
proof (cases "map_of (records b) i")
  case None
  with assms show ?thesis
    by (intro that(1)) (auto simp: locked_record_def log_event_def Let_def)
next
  case (Some r)
  obtain m r1 n where ex: "expire e r (clock_reads b) = (m, r1, n)"
    by (cases "expire e r (clock_reads b)") auto
  show ?thesis
  proof (cases m)
    case (Inl x)
    have "r1 = r" using ex Inl by (auto simp: expire_def now_def split: if_splits)
    with Some ex Inl assms show ?thesis
      by (intro that(2)[of r x n]) (auto simp: locked_record_def log_event_def Let_def)
  next
    case (Inr c)
    obtain r2 where "body r1 = (res, r2)"
      using Some ex Inr assms
      by (cases "body r1") (auto simp: locked_record_def log_event_def Let_def)
    with Some ex Inr assms show ?thesis
      by (intro that(3)[of r c r1 n r2])
        (auto simp: locked_record_def log_event_def Let_def cancel_opt_def cancel_quietly_def
          split: option.splits)
  qed
qed

lemma exit_records_eq:
  "exit_records cs b = b\<lparr>trace := trace b @ Lock_released # map Driver_cancel cs\<rparr>"
proof -
  have "fold cancel_quietly cs b' = b'\<lparr>trace := trace b' @ map Driver_cancel cs\<rparr>"
    for b' :: "('a, 'b) broker"
    by (induction cs arbitrary: b') (auto simp: cancel_quietly_def log_event_def)
  then show ?thesis by (simp add: exit_records_def log_event_def)
qed

lemma enter_records_eq:
  "enter_records e b =
     (case expire_all e (records b) (clock_reads b) of
        (res, rs, n) \<Rightarrow>
          (res, b\<lparr>records := rs, clock_reads := n, trace := trace b @ [Lock_acquired]\<rparr>))"
  by (auto simp: enter_records_def log_event_def Let_def split: prod.splits)

section \<open>A concrete environment\<close>

text \<open>
  Used to evaluate examples: a clock that advances one second per read, entropy that differs in
  its last byte, a broker with room for one pending request and two records, and the identifier
  its first submission draws.
\<close>

definition steady_env :: env where
  "steady_env =
     \<lparr>clock_at = (\<lambda>n. \<lparr>instant_of = seconds (int n), tz_aware = True\<rparr>),
      entropy_at = (\<lambda>n. replicate 17 0 @ [word_of_nat n])\<rparr>"

definition sample_broker :: "(nat, nat) broker" where
  "sample_broker =
     \<lparr>maximum_ttl = minutes 5, maximum_pending_requests = Some 1, maximum_requests = Some 2,
      records = [], clock_reads = 0, tokens_drawn = 0, trace = []\<rparr>"

abbreviation sample_id :: string where
  "sample_id \<equiv> ''AAAAAAAAAAAAAAAAAAAAAAAA''"

definition sample_after :: "(nat, nat) broker_call list \<Rightarrow> (nat, nat) broker" where
  "sample_after qs =
     (case broker_run steady_env qs sample_broker of None \<Rightarrow> sample_broker | Some b \<Rightarrow> b)"

end
