(* ===== verification/Broker_Inv.thy ===== *)
theory Broker_Inv
  imports Broker
begin

text \<open>
  The broker's invariant and its lifecycle: what a record may become, how a whole operation
  changes the store, and that every operation keeps the invariant.  The properties of this theory
  speak about every history of calls from a newly built broker.
\<close>

section \<open>Lifecycle\<close>

text \<open>The edges of the lifecycle: pending work ends once, a complete result may still be
  withdrawn, and the other three states are terminal.\<close>

inductive lifecycle :: "request_status \<Rightarrow> request_status \<Rightarrow> bool" where
  published: "lifecycle PENDING COMPLETE"
| failed: "lifecycle PENDING FAILED"
| cancelled_pending: "lifecycle PENDING CANCELLED"
| expired_pending: "lifecycle PENDING EXPIRED"
| cancelled_complete: "lifecycle COMPLETE CANCELLED"
| expired_complete: "lifecycle COMPLETE EXPIRED"

inductive_simps lifecycle_from_pending [simp]: "lifecycle PENDING s"
inductive_simps lifecycle_from_complete [simp]: "lifecycle COMPLETE s"
inductive_cases lifecycle_from_terminal:
  "lifecycle FAILED s" "lifecycle CANCELLED s" "lifecycle EXPIRED s"
inductive_cases lifecycle_to_pending: "lifecycle s PENDING"

definition terminal :: "request_status \<Rightarrow> bool" where
  "terminal s \<longleftrightarrow> s = FAILED \<or> s = CANCELLED \<or> s = EXPIRED"

abbreviation advances :: "request_status \<Rightarrow> request_status \<Rightarrow> bool" where
  "advances \<equiv> lifecycle\<^sup>*\<^sup>*"

lemma advances_terminal: "advances s t \<Longrightarrow> terminal s \<Longrightarrow> t = s"
  by (induction rule: converse_rtranclp_induct)
    (auto simp: terminal_def elim: lifecycle_from_terminal)

lemma advances_to_pending: "advances s PENDING \<Longrightarrow> s = PENDING"
  by (auto elim: rtranclp.cases lifecycle_to_pending)

lemma advances_complete: "advances COMPLETE t \<Longrightarrow> t = COMPLETE \<or> t = CANCELLED \<or> t = EXPIRED"
  by (induction rule: rtranclp_induct) (auto elim: lifecycle_from_terminal)

text \<open>
  Advancing is a partial order with \<open>PENDING\<close> at the bottom: a request never comes back to a state
  it has left.
\<close>

lemma advances_antisym:
  assumes "advances s t" and "advances t s"
  shows "s = t"
proof (cases s)
  case PENDING
  with assms(2) show ?thesis by (auto dest: advances_to_pending)
next
  case COMPLETE
  with assms show ?thesis
    by (auto dest!: advances_complete dest: advances_terminal simp: terminal_def)
qed (use assms(1) in \<open>auto dest: advances_terminal simp: terminal_def\<close>)

lemma advances_from_pending: "advances PENDING s"
  by (cases s) (auto intro: lifecycle.intros)

instantiation request_status :: order_bot
begin

definition less_eq_request_status :: "request_status \<Rightarrow> request_status \<Rightarrow> bool" where
  "less_eq_request_status s t \<longleftrightarrow> advances s t"

definition less_request_status :: "request_status \<Rightarrow> request_status \<Rightarrow> bool" where
  "less_request_status s t \<longleftrightarrow> advances s t \<and> \<not> advances t s"

definition bot_request_status :: request_status where
  "bot_request_status = PENDING"

instance
  by standard
    (auto simp: less_eq_request_status_def less_request_status_def bot_request_status_def
      intro: advances_antisym advances_from_pending rtranclp_trans)

end

lemma advances_le: "advances s t \<longleftrightarrow> s \<le> t"
  by (simp add: less_eq_request_status_def)

lemma not_terminal: "\<not> terminal s \<longleftrightarrow> s = PENDING \<or> s = COMPLETE"
  by (cases s) (auto simp: terminal_def)

lemma evictable_terminal: "evictable r \<longleftrightarrow> terminal (rec_status r)"
  by (simp add: evictable_def terminal_def)

section \<open>Records\<close>

text \<open>
  A record holds a source exactly while complete, and a driver cursor only while pending.
\<close>

definition wf_record :: "('s, 'c) request_record \<Rightarrow> bool" where
  "wf_record r \<longleftrightarrow>
     (rec_source r \<noteq> None \<longleftrightarrow> rec_status r = COMPLETE) \<and>
     (rec_cursor r \<noteq> None \<longrightarrow> rec_status r = PENDING)"

text \<open>
  How an operation may change a record it finds in the store: identity and deadline stay, the
  status follows the lifecycle, well-formedness is kept and a published source is never replaced.
\<close>

definition rec_evolves :: "('s, 'c) request_record \<Rightarrow> ('s, 'c) request_record \<Rightarrow> bool" where
  "rec_evolves r r' \<longleftrightarrow>
     rec_id r' = rec_id r \<and> rec_expires_at r' = rec_expires_at r \<and>
     advances (rec_status r) (rec_status r') \<and> (wf_record r \<longrightarrow> wf_record r') \<and>
     (rec_status r = COMPLETE \<and> rec_status r' = COMPLETE \<longrightarrow> rec_source r' = rec_source r)"

lemma rec_evolves_refl [simp]: "rec_evolves r r"
  by (simp add: rec_evolves_def)

lemma rec_evolves_trans:
  assumes "rec_evolves r s" and "rec_evolves s t"
  shows "rec_evolves r t"
proof -
  have le: "rec_status r \<le> rec_status s" "rec_status s \<le> rec_status t"
    using assms by (simp_all add: rec_evolves_def advances_le)
  then have "rec_status r \<le> rec_status t" by (rule order.trans)
  moreover have "rec_status s = COMPLETE" if "rec_status r = COMPLETE" "rec_status t = COMPLETE"
    using le that by (simp add: order.antisym)
  ultimately show ?thesis using assms by (simp add: rec_evolves_def advances_le)
qed

lemma lifecycle_evolves:
  "rec_id r' = rec_id r \<Longrightarrow> rec_expires_at r' = rec_expires_at r \<Longrightarrow>
   rec_status r' = rec_status r \<or> lifecycle (rec_status r) (rec_status r') \<Longrightarrow>
   (wf_record r \<Longrightarrow> wf_record r') \<Longrightarrow>
   (rec_status r = COMPLETE \<Longrightarrow> rec_status r' = COMPLETE \<Longrightarrow> rec_source r' = rec_source r) \<Longrightarrow>
   rec_evolves r r'"
  by (auto simp: rec_evolves_def)

lemma expire_evolves: "expire e r n = (res, r', n') \<Longrightarrow> rec_evolves r r'"
  by (auto simp: expire_def wf_record_def intro!: lifecycle_evolves
      split: if_splits prod.splits sum.splits)

lemma body_evolves [inv_intros]:
  "rec_evolves r (snd (register_body c r))"
  "rec_evolves r (snd (release_body c r))"
  "rec_evolves r (snd (publish_body s r))"
  "rec_evolves r (snd (fail_body r))"
  "rec_evolves r (snd (cancel_body r))"
  "rec_evolves r (snd (open_body r))"
  "rec_evolves r (snd ((\<lambda>r. (Inr (record_view r), r)) r))"
  by (auto simp: broker_bodies Let_def wf_record_def split: option.splits
      intro!: lifecycle_evolves) (cases "rec_status r"; simp)+

section \<open>The lock discipline\<close>

text \<open>
  The lock depth after a trace, \<open>None\<close> if the trace released a free lock or called the driver
  while the lock was held.
\<close>

fun lock_run :: "nat \<Rightarrow> 'c broker_event list \<Rightarrow> nat option" where
  "lock_run d [] = Some d"
| "lock_run d (Lock_acquired # evs) = lock_run (Suc d) evs"
| "lock_run d (Lock_released # evs) = (case d of 0 \<Rightarrow> None | Suc d' \<Rightarrow> lock_run d' evs)"
| "lock_run d (Driver_cancel c # evs) = (if d = 0 then lock_run d evs else None)"

lemma lock_run_append:
  "lock_run d (xs @ ys) = (case lock_run d xs of None \<Rightarrow> None | Some d' \<Rightarrow> lock_run d' ys)"
  by (induction d xs rule: lock_run.induct) (auto split: nat.splits)

lemma lock_run_cancels [simp]: "lock_run 0 (map Driver_cancel cs) = Some 0"
  by (induction cs) auto

definition lock_free :: "('s, 'c) broker \<Rightarrow> bool" where
  "lock_free b \<longleftrightarrow> lock_run 0 (trace b) = Some 0"

lemma lock_free_append:
  "lock_free b \<Longrightarrow> trace b' = trace b @ evs \<Longrightarrow> lock_run 0 evs = Some 0 \<Longrightarrow> lock_free b'"
  by (simp add: lock_free_def lock_run_append)

section \<open>The invariant\<close>

definition fits :: "nat \<Rightarrow> int option \<Rightarrow> bool" where
  "fits n bound \<longleftrightarrow> (case bound of None \<Rightarrow> True | Some m \<Rightarrow> int n \<le> m)"

definition store_inv :: "('s, 'c) broker \<Rightarrow> bool" where
  "store_inv b \<longleftrightarrow>
     distinct (keys (records b)) \<and>
     (\<forall>(i, r) \<in> set (records b). rec_id r = i \<and> wf_record r) \<and>
     0 < maximum_ttl b \<and>
     fits (pending_count b) (maximum_pending_requests b) \<and>
     fits (length (records b)) (maximum_requests b)"

definition broker_inv :: "('s, 'c) broker \<Rightarrow> bool" where
  "broker_inv b \<longleftrightarrow> store_inv b \<and> lock_free b"

lemma broker_inv_record:
  "broker_inv b \<Longrightarrow> map_of (records b) i = Some r \<Longrightarrow> rec_id r = i \<and> wf_record r"
  by (auto simp: broker_inv_def store_inv_def dest: map_of_SomeD)

lemma broker_inv_distinct: "broker_inv b \<Longrightarrow> distinct (keys (records b))"
  by (simp add: broker_inv_def store_inv_def)

lemma broker_init_inv: "broker_init ttl pending capacity = Inr b \<Longrightarrow> broker_inv b"
  by (auto simp: broker_init_def broker_inv_def store_inv_def fits_def pending_count_def lock_free_def
      split: if_splits option.splits)

text \<open>
  The store before and after: same configuration and keys, every record evolved, and the lock
  free again.  This is the effect of every operation but \<open>submit\<close>.
\<close>

definition same_config :: "('s, 'c) broker \<Rightarrow> ('s, 'c) broker \<Rightarrow> bool" where
  "same_config b b' \<longleftrightarrow>
     maximum_ttl b' = maximum_ttl b \<and>
     maximum_pending_requests b' = maximum_pending_requests b \<and>
     maximum_requests b' = maximum_requests b"

definition store_evolves :: "('s, 'c) broker \<Rightarrow> ('s, 'c) broker \<Rightarrow> bool" where
  "store_evolves b b' \<longleftrightarrow>
     same_config b b' \<and> odict_rel rec_evolves (records b) (records b') \<and>
     (lock_free b \<longrightarrow> lock_free b')"

lemma evolved_pending_count:
  "odict_rel rec_evolves rs rs' \<Longrightarrow>
   length (filter (\<lambda>r. rec_status r = PENDING) (vals rs')) \<le>
   length (filter (\<lambda>r. rec_status r = PENDING) (vals rs))"
  by (erule odict_rel_count) (auto simp: rec_evolves_def dest: advances_to_pending)

lemma evolved_wf:
  assumes "odict_rel rec_evolves rs rs'" and "\<forall>(i, r) \<in> set rs. rec_id r = i \<and> wf_record r"
  shows "\<forall>(i, r) \<in> set rs'. rec_id r = i \<and> wf_record r"
  by (rule odict_rel_all[OF assms(1) _ assms(2)]) (auto simp: rec_evolves_def)

lemma fits_mono: "fits n bound \<Longrightarrow> m \<le> n \<Longrightarrow> fits m bound"
  by (auto simp: fits_def split: option.splits)

lemma evolved_store_inv:
  assumes "odict_rel rec_evolves (records b) (records b')" and "same_config b b'" and "store_inv b"
  shows "store_inv b'"
  using assms evolved_pending_count[OF assms(1)] evolved_wf[OF assms(1)]
  by (auto simp: same_config_def store_inv_def pending_count_def odict_rel_keys[OF assms(1)]
      odict_rel_length[OF assms(1)] intro: fits_mono)

lemma store_evolves_inv: "store_evolves b b' \<Longrightarrow> broker_inv b \<Longrightarrow> broker_inv b'"
  by (auto simp: store_evolves_def broker_inv_def intro: evolved_store_inv)

text \<open>Appending a driver cancellation keeps the relation.\<close>

lemma store_evolves_trace:
  "store_evolves b b' \<Longrightarrow> trace b'' = trace b' @ map Driver_cancel cs \<Longrightarrow>
   same_config b' b'' \<Longrightarrow> records b'' = records b' \<Longrightarrow> store_evolves b b''"
  by (auto simp: store_evolves_def same_config_def intro: lock_free_append)

lemma locked_record_evolves:
  assumes "locked_record e i body b = (res, b')" and "distinct (keys (records b))"
    and "\<And>r. rec_evolves r (snd (body r))"
  shows "store_evolves b b'"
  using assms(1)
proof (cases rule: locked_record_cases)
  case unknown
  then show ?thesis
    by (auto simp: store_evolves_def same_config_def lock_free_def lock_run_append
        intro!: odict_rel_refl)
next
  case (clock r x n)
  then show ?thesis
    by (auto simp: store_evolves_def same_config_def lock_free_def lock_run_append
        intro!: odict_rel_refl)
next
  case (ran r c r1 n r2)
  have "rec_evolves r r2"
    using expire_evolves[OF ran(2)] assms(3)[of r1] ran(3) by (auto intro: rec_evolves_trans)
  then have "odict_rel rec_evolves (records b) (AList.update i r2 (records b))"
    using odict_rel_update[OF assms(2) ran(1)] by simp
  then show ?thesis
    by (auto simp: ran(4) store_evolves_def same_config_def lock_free_def lock_run_append
        split: option.splits)
qed

section \<open>Every operation keeps the invariant\<close>

lemma expire_all_evolves:
  "expire_all e rs n = (res, rs', n') \<Longrightarrow> odict_rel rec_evolves rs rs'"
proof (induction rs arbitrary: n res rs' n')
  case Nil
  then show ?case by simp
next
  case (Cons p rs)
  obtain i r where p: "p = (i, r)" by (cases p)
  from Cons.prems show ?case
    by (auto simp: p split: prod.splits sum.splits dest: expire_evolves Cons.IH
        intro!: odict_rel_refl)
qed

lemma enter_records_evolves:
  "enter_records e b = (res, b') \<Longrightarrow> store_evolves b (exit_records cs b')"
  by (auto simp: enter_records_eq exit_records_eq store_evolves_def same_config_def lock_free_def
      lock_run_append dest: expire_all_evolves split: prod.splits)

lemma with_cursor_cancelled_evolves:
  "store_evolves b (snd out) \<Longrightarrow> store_evolves b (snd (with_cursor_cancelled out))"
  by (auto simp: with_cursor_cancelled_def cancel_opt_def cancel_quietly_def log_event_def
      same_config_def split: prod.splits sum.splits option.splits
      intro: store_evolves_trace[where cs = "[_]"])

lemma register_cursor_evolves:
  assumes "distinct (keys (records b))"
  shows "store_evolves b (snd (register_cursor e i c b))"
proof -
  obtain res b' where lr: "locked_record e i (register_body c) b = (res, b')"
    by fastforce
  have "store_evolves b b'"
    by (rule locked_record_evolves[OF lr assms]) (rule body_evolves)
  then show ?thesis
    by (auto simp: register_cursor_def lr cancel_quietly_def log_event_def same_config_def
        split: sum.splits option.splits intro: store_evolves_trace[where cs = "[c]"])
qed

lemma locked_record_snd_evolves:
  assumes "distinct (keys (records b))" and "\<And>r. rec_evolves r (snd (body r))"
  shows "store_evolves b (snd (locked_record e i body b))"
  by (rule locked_record_evolves[OF prod.collapse[symmetric] assms])

lemma op_evolves [inv_intros]:
  assumes "distinct (keys (records b))"
  shows "store_evolves b (snd (release_cursor e i c b))"
    and "store_evolves b (snd (publish e i s b))"
    and "store_evolves b (snd (broker_fail e i b))"
    and "store_evolves b (snd (broker_cancel e i b))"
    and "store_evolves b (snd (get_request e i b))"
    and "store_evolves b (snd (open_source e i b))"
    and "store_evolves b (snd (list_requests e b))"
  by (auto simp: release_cursor_def publish_def broker_fail_def broker_cancel_def get_request_def
      open_source_def list_requests_def assms body_evolves intro!: with_cursor_cancelled_evolves
      locked_record_snd_evolves enter_records_evolves split: prod.splits sum.splits)

text \<open>
  \<open>submit\<close>: either it only refreshed expiry, or it also evicted a terminal record, or it also
  appended one new pending record, whose identifier was not in use.
\<close>

lemma new_request_id_fresh:
  assumes "new_request_id entropy used n = Some (i, k)"
  shows "i \<notin> set used \<and> n < k \<and> i = token_urlsafe (entropy (k - 1))"
proof -
  have "\<exists>i k. r = (i, k) \<and> i \<notin> set used \<and> n < k \<and> i = token_urlsafe (entropy (k - 1))"
    if "new_request_id entropy used n = Some r" for r
    by (rule new_request_id.raw_induct[where
          P = "\<lambda>entropy used n r. \<exists>i k. r = (i, k) \<and> i \<notin> set used \<and> n < k \<and>
            i = token_urlsafe (entropy (k - 1))", OF _ that])
      (fastforce split: if_splits)
  with assms show ?thesis by blast
qed

lemma make_room_cases [consumes 1, case_names room evicted full]:
  assumes "make_room b = (res, b')"
  obtains "res = Inr ()" "b' = b" "fits (Suc (length (records b))) (maximum_requests b)"
  | i r where "res = Inr ()" "b' = b\<lparr>records := AList.delete i (records b)\<rparr>"
    "find (\<lambda>(i, r). evictable r) (records b) = Some (i, r)"
    "(i, r) \<in> set (records b)" "evictable r"
  | "res = Inl RequestUnavailable" "b' = b" "\<forall>(i, r) \<in> set (records b). \<not> evictable r"
proof (cases "fits (Suc (length (records b))) (maximum_requests b)")
  case True
  with assms show ?thesis
    by (intro that(1)) (auto simp: make_room_def fits_def split: if_splits option.splits)
next
  case False
  then have full: "\<not> (case maximum_requests b of None \<Rightarrow> True | Some m \<Rightarrow> int (length (records b)) < m)"
    by (auto simp: fits_def split: option.splits)
  show ?thesis
  proof (cases "find (\<lambda>(i, r). evictable r) (records b)")
    case None
    with full assms show ?thesis
      by (intro that(3)) (auto simp: make_room_def find_None_iff)
  next
    case (Some p)
    moreover from Some have "p \<in> set (records b)" "case p of (i, r) \<Rightarrow> evictable r"
      by (auto simp: find_Some_iff intro: nth_mem)
    ultimately show ?thesis
      using full assms by (intro that(2)[of "fst p" "snd p"]) (auto simp: make_room_def split_beta)
  qed
qed

lemma make_room_inv:
  assumes "make_room b = (Inr u, b')" and "store_inv b"
  shows "store_inv b' \<and> fits (Suc (length (records b'))) (maximum_requests b') \<and>
    same_config b b' \<and> trace b' = trace b \<and> pending_count b' \<le> pending_count b \<and>
    set (records b') \<subseteq> set (records b)"
  using assms(1)
proof (cases rule: make_room_cases)
  case room
  then show ?thesis using assms(2) by (simp add: same_config_def)
next
  case (evicted i r)
  have d: "distinct (keys (records b))" using assms(2) by (simp add: store_inv_def)
  have len: "Suc (length (records b')) = length (records b)"
    using length_delete_member[OF d, of i] evicted(2,4) by force
  have cnt: "pending_count b' \<le> pending_count b"
    using count_delete_le[of "\<lambda>r. rec_status r = PENDING" i "records b"]
    by (simp add: evicted(2) pending_count_def)
  have sub: "set (records b') \<subseteq> set (records b)"
    using set_delete_subset[of i "records b"] by (simp add: evicted(2))
  show ?thesis
    using assms(2) len cnt sub distinct_keys_delete[OF d, of i]
    by (auto simp: evicted(2) store_inv_def same_config_def intro: fits_mono)
qed simp_all

lemma insert_pending_inv:
  assumes "insert_pending e ttl i b = (res, b')" and "store_inv b" and "i \<notin> set (keys (records b))"
    and "fits (Suc (length (records b))) (maximum_requests b)"
    and "fits (Suc (pending_count b)) (maximum_pending_requests b)"
  shows "store_inv b' \<and> same_config b b' \<and> trace b' = trace b"
proof (cases "fst (insert_pending e ttl i b)")
  case (Inl x)
  with assms(1,2) show ?thesis
    by (auto simp: insert_pending_def Let_def same_config_def store_inv_def pending_count_def
        split: prod.splits sum.splits)
next
  case (Inr v)
  with assms(1) obtain n d where b': "b' = b\<lparr>clock_reads := n, records := records b @
      [(i, \<lparr>rec_id = i, rec_status = PENDING, rec_expires_at = d, rec_source = None, rec_cursor = None\<rparr>)]\<rparr>"
    by (auto simp: insert_pending_def Let_def keys_update_fresh[OF assms(3)] split: prod.splits sum.splits)
  show ?thesis
    using assms(2-5) by (simp add: b' store_inv_def same_config_def pending_count_def wf_record_def)
qed

lemma submit_body_inv:
  assumes "submit_body e ttl b = Some (res, b')" and "store_inv b"
  shows "store_inv b' \<and> same_config b b' \<and> trace b' = trace b"
proof (cases "at_pending_capacity b")
  case True
  with assms show ?thesis by (simp add: submit_body_def same_config_def)
next
  case False
  obtain m b1 where mr: "make_room b = (m, b1)" by fastforce
  show ?thesis
  proof (cases m)
    case (Inl x)
    with mr have "b1 = b" by (auto elim: make_room_cases)
    with assms False mr Inl show ?thesis by (simp add: submit_body_def same_config_def)
  next
    case (Inr u)
    note room = make_room_inv[OF mr[unfolded Inr] assms(2)]
    obtain i k where nid: "new_request_id (entropy_at e) (keys (records b1)) (tokens_drawn b1) = Some (i, k)"
      and ins: "insert_pending e ttl i (b1\<lparr>tokens_drawn := k\<rparr>) = (res, b')"
      using assms(1) False mr Inr by (auto simp: submit_body_def split: option.splits)
    have "fits (Suc (pending_count b)) (maximum_pending_requests b)"
      using False by (auto simp: at_pending_capacity_def fits_def split: option.splits)
    then have "fits (Suc (pending_count b1)) (maximum_pending_requests b1)"
      using room by (auto simp: same_config_def intro: fits_mono)
    with insert_pending_inv[OF ins] room new_request_id_fresh[OF nid]
    show ?thesis by (auto simp: store_inv_def same_config_def pending_count_def)
  qed
qed

lemma enter_records_store_inv:
  assumes "enter_records e b = (res, b1)" and "store_inv b"
  shows "store_inv b1 \<and> same_config b b1 \<and> trace b1 = trace b @ [Lock_acquired]"
proof -
  obtain rs n where ex: "expire_all e (records b) (clock_reads b) = (res, rs, n)"
    and b1: "b1 = b\<lparr>records := rs, clock_reads := n, trace := trace b @ [Lock_acquired]\<rparr>"
    using assms(1) by (auto simp: enter_records_eq split: prod.splits)
  have "odict_rel rec_evolves (records b) (records b1)"
    using expire_all_evolves[OF ex] by (simp add: b1)
  moreover have "same_config b b1" by (simp add: b1 same_config_def)
  ultimately have "store_inv b1" using assms(2) by (rule evolved_store_inv)
  with \<open>same_config b b1\<close> show ?thesis by (simp add: b1)
qed

lemma exit_records_inv:
  assumes "store_inv b1" and "trace b1 = tr @ [Lock_acquired]" and "lock_run 0 tr = Some 0"
  shows "broker_inv (exit_records cs b1)"
  using assms
  by (simp add: exit_records_eq broker_inv_def store_inv_def pending_count_def lock_free_def
      lock_run_append)

lemma broker_submit_inv:
  assumes "broker_submit e ttl b = Some (res, b')" and "broker_inv b"
  shows "broker_inv b'"
proof (cases "ttl \<le> 0")
  case True
  with assms show ?thesis by (simp add: broker_submit_def)
next
  case False
  obtain m b1 where en: "enter_records e b = (m, b1)" by fastforce
  from assms(2) have b: "store_inv b" "lock_run 0 (trace b) = Some 0"
    by (simp_all add: broker_inv_def lock_free_def)
  note ent = enter_records_store_inv[OF en b(1)]
  show ?thesis
  proof (cases m)
    case (Inl x)
    with assms(1) False en have "b' = exit_records [] b1" by (auto simp: broker_submit_def)
    with exit_records_inv[of b1 "trace b" "[]"] ent b(2) show ?thesis by simp
  next
    case (Inr cs)
    with assms(1) False en obtain b2 where
      sb: "submit_body e ttl b1 = Some (res, b2)" and b': "b' = exit_records cs b2"
      by (auto simp: broker_submit_def)
    from submit_body_inv[OF sb] ent
    have "store_inv b2" "trace b2 = trace b @ [Lock_acquired]" by auto
    with exit_records_inv[of b2 "trace b" cs] b(2) b' show ?thesis by simp
  qed
qed

lemma broker_exec_inv:
  assumes "broker_exec e q b = Some b'" and "broker_inv b"
  shows "broker_inv b'"
proof (cases q)
  case (Submit ttl)
  with assms show ?thesis by (auto intro: broker_submit_inv)
qed (use assms op_evolves[OF broker_inv_distinct[OF assms(2)], of e]
       register_cursor_evolves[OF broker_inv_distinct[OF assms(2)], of e]
     in \<open>auto intro: store_evolves_inv[OF _ assms(2)]\<close>)

section \<open>Relations every client of the broker respects\<close>

text \<open>
  A client of the broker changes it only by the calls it makes.  So whatever relates the broker
  before and after each allowed call, and is reflexive and transitive, relates it before and after
  the client's own operations; the locale states that contract once, and each client proves its
  operations compositions of calls inside it.
\<close>

locale call_relation =
  fixes e :: env
    and R :: "('s, 'c) broker \<Rightarrow> ('s, 'c) broker \<Rightarrow> bool"
    and allowed :: "('s, 'c) broker_call \<Rightarrow> bool"
  assumes R_refl: "R b b"
    and R_trans: "R b b1 \<Longrightarrow> R b1 b2 \<Longrightarrow> R b b2"
    and R_exec: "broker_exec e q b = Some b' \<Longrightarrow> allowed q \<Longrightarrow> R b b'"
begin

lemma submit_R: "broker_submit e ttl b = Some (res, b') \<Longrightarrow> allowed (Submit ttl) \<Longrightarrow> R b b'"
  using R_exec[of "Submit ttl"] by simp

lemma call_R:
  "allowed (Register i c) \<Longrightarrow> R b (snd (register_cursor e i c b))"
  "allowed (Release i c) \<Longrightarrow> R b (snd (release_cursor e i c b))"
  "allowed (Publish i s) \<Longrightarrow> R b (snd (publish e i s b))"
  "allowed (Fail i) \<Longrightarrow> R b (snd (broker_fail e i b))"
  "allowed (Cancel i) \<Longrightarrow> R b (snd (broker_cancel e i b))"
  "allowed List_all \<Longrightarrow> R b (snd (list_requests e b))"
  "allowed (Get i) \<Longrightarrow> R b (snd (get_request e i b))"
  "allowed (Open i) \<Longrightarrow> R b (snd (open_source e i b))"
  by (rule R_exec; simp)+

lemma broker_run_R: "broker_run e qs b = Some b' \<Longrightarrow> list_all allowed qs \<Longrightarrow> R b b'"
proof (induction qs arbitrary: b)
  case Nil
  then show ?case by (simp add: R_refl)
next
  case (Cons q qs)
  then obtain b1 where "broker_exec e q b = Some b1" "broker_run e qs b1 = Some b'"
    by (auto split: option.splits)
  with Cons show ?case by (auto intro: R_trans R_exec)
qed

end

text \<open>
  The finest such relation: a client's operation is some sequence of calls.  With the invariant
  locale on the broker, \<open>brk.steps_inv\<close>, every client keeps the broker's invariant.
\<close>

interpretation calling: call_relation e "(broker_step e)\<^sup>*\<^sup>*" "\<lambda>q. True" for e
  proof unfold_locales
  show "(broker_step e)\<^sup>*\<^sup>* b b'" if "broker_exec e q b = Some b'" for q b b'
    using that by (intro r_into_rtranclp) (auto simp: broker_step_def)
qed auto

interpretation brk: invariant broker_initial "broker_step e" broker_inv for e
  by unfold_locales
    (auto simp: broker_initial_def broker_step_def intro: broker_init_inv broker_exec_inv)

lemma broker_run_inv: "broker_run e qs b = Some b' \<Longrightarrow> broker_inv b \<Longrightarrow> broker_inv b'"
  using calling.broker_run_R[of e qs b b'] by (auto simp: list_all_iff intro: brk.steps_inv)

lemma sample_after_inv: "broker_inv (sample_after qs)"
proof -
  have "broker_init (minutes 5) (Some 1) (Some 2) = Inr sample_broker"
    by (simp add: broker_init_def sample_broker_def minutes_def seconds_def)
  then have "broker_inv sample_broker" by (rule broker_init_inv)
  then show ?thesis
    by (auto simp: sample_after_def intro: broker_run_inv split: option.splits)
qed

end
