(* ===== verification/Broker_Spec.thy ===== *)
theory Broker_Spec
  imports Broker_Inv
begin

text \<open>
  What the broker promises, stated without its data structures: an abstract store of requests with
  their status, deadline and source, the events that create, complete, fail, cancel, expire and
  forget one, each possible only in the states it names, and the simulation of every call of the
  broker by the events that call may cause.  Also the fate of a single record under any call.
\<close>

section \<open>The abstract store\<close>

text \<open>
  A request as the outside sees it, and the events that may happen to it.  An event is possible
  only in the state it names; \<open>due\<close> says which deadlines have passed.
\<close>

record 's spec_request =
  sp_status :: request_status
  sp_deadline :: instant
  sp_source :: "'s option"

type_synonym 's spec_store = "string \<rightharpoonup> 's spec_request"

datatype 's spec_event =
    Ev_create string instant
  | Ev_complete string 's
  | Ev_fail string
  | Ev_cancel string
  | Ev_expire string
  | Ev_forget string

definition spec_update ::
  "string \<Rightarrow> ('s spec_request \<Rightarrow> bool) \<Rightarrow> ('s spec_request \<Rightarrow> 's spec_request option) \<Rightarrow>
   's spec_store \<Rightarrow> 's spec_store option"
where
  "spec_update i guard change m =
     (case m i of None \<Rightarrow> None | Some x \<Rightarrow> if guard x then Some (m(i := change x)) else None)"

fun spec_apply :: "(instant \<Rightarrow> bool) \<Rightarrow> 's spec_event \<Rightarrow> 's spec_store \<Rightarrow> 's spec_store option" where
  "spec_apply due (Ev_create i t) m =
     (if m i = None then Some (m(i \<mapsto> \<lparr>sp_status = PENDING, sp_deadline = t, sp_source = None\<rparr>)) else None)"
| "spec_apply due (Ev_complete i s) m =
     spec_update i (\<lambda>x. sp_status x = PENDING)
       (\<lambda>x. Some (x\<lparr>sp_status := COMPLETE, sp_source := Some s\<rparr>)) m"
| "spec_apply due (Ev_fail i) m =
     spec_update i (\<lambda>x. sp_status x = PENDING) (\<lambda>x. Some (x\<lparr>sp_status := FAILED\<rparr>)) m"
| "spec_apply due (Ev_cancel i) m =
     spec_update i (\<lambda>x. sp_status x = PENDING \<or> sp_status x = COMPLETE)
       (\<lambda>x. Some (x\<lparr>sp_status := CANCELLED, sp_source := None\<rparr>)) m"
| "spec_apply due (Ev_expire i) m =
     spec_update i (\<lambda>x. (sp_status x = PENDING \<or> sp_status x = COMPLETE) \<and> due (sp_deadline x))
       (\<lambda>x. Some (x\<lparr>sp_status := EXPIRED, sp_source := None\<rparr>)) m"
| "spec_apply due (Ev_forget i) m =
     spec_update i (\<lambda>x. sp_status x = FAILED \<or> sp_status x = CANCELLED \<or> sp_status x = EXPIRED)
       (\<lambda>x. None) m"

primrec spec_run :: "(instant \<Rightarrow> bool) \<Rightarrow> 's spec_event list \<Rightarrow> 's spec_store \<Rightarrow> 's spec_store option" where
  "spec_run due [] m = Some m"
| "spec_run due (ev # evs) m =
     (case spec_apply due ev m of None \<Rightarrow> None | Some m' \<Rightarrow> spec_run due evs m')"

lemma spec_run_append:
  "spec_run D (evs @ evs') m = (case spec_run D evs m of None \<Rightarrow> None | Some m' \<Rightarrow> spec_run D evs' m')"
  by (induction evs arbitrary: m) (auto split: option.splits)

lemma spec_apply_mono:
  "spec_apply D ev m = Some m' \<Longrightarrow> (\<And>d. D d \<Longrightarrow> D' d) \<Longrightarrow> spec_apply D' ev m = Some m'"
  by (cases ev) (auto simp: spec_update_def split: option.splits if_splits)

lemma spec_run_mono:
  "spec_run D evs m = Some m' \<Longrightarrow> (\<And>d. D d \<Longrightarrow> D' d) \<Longrightarrow> spec_run D' evs m = Some m'"
proof (induction evs arbitrary: m)
  case (Cons ev evs)
  then obtain m1 where "spec_apply D ev m = Some m1" "spec_run D evs m1 = Some m'"
    by (auto split: option.splits)
  with Cons spec_apply_mono[of D ev m m1 D'] show ?case by simp
qed simp

section \<open>The broker seen as that store\<close>

definition entry_of :: "('s, 'c) request_record \<Rightarrow> 's spec_request" where
  "entry_of r = \<lparr>sp_status = rec_status r, sp_deadline = rec_expires_at r, sp_source = rec_source r\<rparr>"

abbreviation entries :: "(string, ('s, 'c) request_record) odict \<Rightarrow> 's spec_store" where
  "entries rs \<equiv> \<lambda>i. map_option entry_of (map_of rs i)"

definition abs_requests :: "('s, 'c) broker \<Rightarrow> 's spec_store" where
  "abs_requests b = entries (records b)"

text \<open>A deadline is due between two states of the broker if the clock was read then at or after it.\<close>

definition due :: "env \<Rightarrow> ('s, 'c) broker \<Rightarrow> ('s, 'c) broker \<Rightarrow> instant \<Rightarrow> bool" where
  "due e b b' d \<longleftrightarrow>
     (\<exists>n. clock_reads b \<le> n \<and> n < clock_reads b' \<and> tz_aware (clock_at e n) \<and> d \<le> instant_of (clock_at e n))"

lemma due_mono:
  "due e b1 b2 d \<Longrightarrow> clock_reads b \<le> clock_reads b1 \<Longrightarrow> clock_reads b2 \<le> clock_reads b' \<Longrightarrow> due e b b' d"
  unfolding due_def by (meson le_trans less_le_trans)

text \<open>The events each call may cause; a submission has its own shape.\<close>

fun call_events :: "('s, 'c) broker_call \<Rightarrow> 's spec_event set" where
  "call_events (Publish i s) = {Ev_expire i, Ev_complete i s}"
| "call_events (Fail i) = {Ev_expire i, Ev_fail i}"
| "call_events (Cancel i) = {Ev_expire i, Ev_cancel i}"
| "call_events List_all = range Ev_expire"
| "call_events (Register i c) = {Ev_expire i}"
| "call_events (Release i c) = {Ev_expire i}"
| "call_events (Get i) = {Ev_expire i}"
| "call_events (Open i) = {Ev_expire i}"
| "call_events (Submit ttl) = {}"

text \<open>
  A submission lets overdue requests expire; forgets at most one ended request, and only in a full
  broker; and creates at most one, pending until the time-to-live after a clock read, which may
  then expire or fail when its task cannot be scheduled.
\<close>

definition full_broker :: "('s, 'c) broker \<Rightarrow> bool" where
  "full_broker b \<longleftrightarrow> (\<exists>m. maximum_requests b = Some m \<and> m \<le> int (length (records b)))"

definition new_deadline :: "env \<Rightarrow> timedelta \<Rightarrow> ('s, 'c) broker \<Rightarrow> ('s, 'c) broker \<Rightarrow> instant \<Rightarrow> bool" where
  "new_deadline e ttl b b' t \<longleftrightarrow>
     (\<exists>n. clock_reads b \<le> n \<and> n < clock_reads b' \<and>
        t = instant_of (clock_at e n) + min ttl (maximum_ttl b))"

definition submission_events ::
  "env \<Rightarrow> timedelta \<Rightarrow> ('s, 'c) broker \<Rightarrow> ('s, 'c) broker \<Rightarrow> 's spec_event list \<Rightarrow> bool" where
  "submission_events e ttl b b' evs \<longleftrightarrow>
     (\<exists>ids forgotten created later. evs = map Ev_expire ids @ forgotten @ created @ later \<and>
        (forgotten = [] \<or> full_broker b \<and> (\<exists>j. forgotten = [Ev_forget j])) \<and>
        (created = [] \<and> later = [] \<or>
         (\<exists>i t. created = [Ev_create i t] \<and> new_deadline e ttl b b' t \<and>
            set later \<subseteq> {Ev_expire i, Ev_fail i})))"

section \<open>Calls that are not submissions\<close>

lemma expire_entry:
  assumes "expire e r n = (m, r', n')"
  shows "n \<le> n' \<and> (r' = r \<or>
    (rec_status r = PENDING \<or> rec_status r = COMPLETE) \<and>
    entry_of r' = (entry_of r)\<lparr>sp_status := EXPIRED, sp_source := None\<rparr> \<and>
    n' = Suc n \<and> tz_aware (clock_at e n) \<and> rec_expires_at r \<le> instant_of (clock_at e n))"
  using assms by (auto simp: expire_def now_def entry_of_def split: if_splits)

definition overdue_at :: "env \<Rightarrow> nat \<Rightarrow> nat \<Rightarrow> instant \<Rightarrow> bool" where
  "overdue_at e n n' d \<longleftrightarrow>
     (\<exists>k. n \<le> k \<and> k < n' \<and> tz_aware (clock_at e k) \<and> d \<le> instant_of (clock_at e k))"

lemma due_overdue: "due e b b' d \<longleftrightarrow> overdue_at e (clock_reads b) (clock_reads b') d"
  by (simp add: due_def overdue_at_def)

lemma expire_event:
  assumes "expire e r n = (m, r', n')" and "x i = Some (entry_of r)"
  shows "\<exists>evs. set evs \<subseteq> {Ev_expire i} \<and> spec_run (overdue_at e n n') evs x = Some (x(i \<mapsto> entry_of r'))"
proof (cases "r' = r")
  case True
  with assms(2) have "spec_run (overdue_at e n n') [] x = Some (x(i \<mapsto> entry_of r'))" by auto
  then show ?thesis by (intro exI[of _ "[]"]) simp
next
  case False
  with expire_entry[OF assms(1)] assms(2)
  have "spec_run (overdue_at e n n') [Ev_expire i] x = Some (x(i \<mapsto> entry_of r'))"
    by (auto simp: spec_update_def overdue_at_def entry_of_def)
  then show ?thesis by (intro exI[of _ "[Ev_expire i]"]) simp
qed

lemma expire_all_events:
  "expire_all e rs n = (res, rs', n') \<Longrightarrow> distinct (keys rs) \<Longrightarrow>
   (\<And>i. i \<in> set (keys rs) \<Longrightarrow> x i = entries rs i) \<Longrightarrow>
   n \<le> n' \<and> keys rs' = keys rs \<and>
   (\<exists>ids. spec_run (overdue_at e n n') (map Ev_expire ids) x =
      Some (\<lambda>i. if i \<in> set (keys rs) then entries rs' i else x i))"
proof (induction rs arbitrary: n res rs' n' x)
  case Nil
  then show ?case by (auto intro: exI[of _ "[]"])
next
  case (Cons p rs)
  obtain j r where p: "p = (j, r)" by fastforce
  obtain m r1 n1 where ex: "expire e r n = (m, r1, n1)" by (cases "expire e r n") auto
  have fresh: "j \<notin> set (keys rs)" "distinct (keys rs)" using Cons.prems(2) by (simp_all add: p)
  have "x j = Some (entry_of r)" using Cons.prems(3)[of j] by (simp add: p)
  from expire_event[where x = x and i = j, OF ex this] obtain evs where
    evs: "set evs \<subseteq> {Ev_expire j}" "spec_run (overdue_at e n n1) evs x = Some (x(j \<mapsto> entry_of r1))" by blast
  from evs(1) have "\<exists>ids. evs = map Ev_expire ids"
    by (intro exI[of _ "map (\<lambda>_. j) evs"]) (induction evs; simp)
  then obtain ids1 where ids1: "evs = map Ev_expire ids1" ..
  have n1: "n \<le> n1" using expire_entry[OF ex] by simp
  let ?x = "x(j \<mapsto> entry_of r1)"
  have later: "overdue_at e n n'' d" if "overdue_at e n1 n'' d" for n'' d
    using that n1 by (auto simp: overdue_at_def intro: le_trans)
  show ?case
  proof (cases m)
    case (Inl y)
    with Cons.prems(1) ex have "rs' = (j, r1) # rs" "n' = n1" by (simp_all add: p)
    moreover have "?x = (\<lambda>i. if i \<in> set (keys (p # rs)) then entries ((j, r1) # rs) i else x i)"
      using Cons.prems(3) fresh by (auto simp: p fun_eq_iff)
    ultimately show ?thesis using evs ids1 n1 by (auto simp: p intro!: exI[of _ ids1])
  next
    case (Inr c)
    obtain m2 rs2 n2 where rest: "expire_all e rs n1 = (m2, rs2, n2)" by (cases "expire_all e rs n1") auto
    have "?x i = entries rs i" if "i \<in> set (keys rs)" for i
      using Cons.prems(3)[of i] that fresh by (auto simp: p)
    from Cons.IH[OF rest fresh(2) this] obtain ids2 where
      ids2: "n1 \<le> n2" "keys rs2 = keys rs" "spec_run (overdue_at e n1 n2) (map Ev_expire ids2) ?x =
        Some (\<lambda>i. if i \<in> set (keys rs) then entries rs2 i else ?x i)" by blast
    have out: "rs' = (j, r1) # rs2" "n' = n2"
      using Cons.prems(1) ex rest Inr by (auto simp: p split: sum.splits)
    have "spec_run (overdue_at e n n2) evs x = Some ?x"
      by (rule spec_run_mono[OF evs(2)]) (use ids2(1) in \<open>auto simp: overdue_at_def intro: less_le_trans\<close>)
    moreover have "spec_run (overdue_at e n n2) (map Ev_expire ids2) ?x =
        Some (\<lambda>i. if i \<in> set (keys rs) then entries rs2 i else ?x i)"
      by (rule spec_run_mono[OF ids2(3) later])
    ultimately have "spec_run (overdue_at e n n2) (map Ev_expire (ids1 @ ids2)) x =
        Some (\<lambda>i. if i \<in> set (keys rs) then entries rs2 i else ?x i)"
      by (simp add: ids1 spec_run_append)
    moreover have "(\<lambda>i. if i \<in> set (keys rs) then entries rs2 i else ?x i) =
        (\<lambda>i. if i \<in> set (keys (p # rs)) then entries rs' i else x i)"
      using fresh by (auto simp: p out fun_eq_iff)
    ultimately show ?thesis using ids2 n1 by (auto simp: p out intro!: exI[of _ "ids1 @ ids2"])
  qed
qed

text \<open>
  What a client's calls do to the broker, seen as the store: some of the permitted events, each
  possible when it happens.
\<close>

definition refines_by ::
  "env \<Rightarrow> 's spec_event set \<Rightarrow> ('s, 'c) broker \<Rightarrow> ('s, 'c) broker \<Rightarrow> bool" where
  "refines_by e A b b' \<longleftrightarrow>
     (broker_inv b \<longrightarrow> broker_inv b' \<and> clock_reads b \<le> clock_reads b' \<and>
        (\<exists>evs. set evs \<subseteq> A \<and> spec_run (due e b b') evs (abs_requests b) = Some (abs_requests b')))"

lemma refines_by_refl: "refines_by e A b b"
  by (auto simp: refines_by_def intro!: exI[of _ "[]"])

lemma spec_run_between:
  assumes "spec_run (due e b b1) evs m = Some m1" and "spec_run (due e b1 b') evs' m1 = Some m'"
    and "clock_reads b \<le> clock_reads b1" and "clock_reads b1 \<le> clock_reads b'"
  shows "spec_run (due e b b') (evs @ evs') m = Some m'"
proof -
  have "spec_run (due e b b') evs m = Some m1"
    by (rule spec_run_mono[OF assms(1)]) (erule due_mono; use assms(3,4) in simp)
  moreover have "spec_run (due e b b') evs' m1 = Some m'"
    by (rule spec_run_mono[OF assms(2)]) (erule due_mono; use assms(3,4) in simp)
  ultimately show ?thesis by (simp add: spec_run_append)
qed

lemma refines_by_trans:
  assumes "refines_by e A b b1" and "refines_by e A b1 b2"
  shows "refines_by e A b b2"
  unfolding refines_by_def
proof
  assume inv: "broker_inv b"
  from assms(1) inv obtain evs where b1: "broker_inv b1" "clock_reads b \<le> clock_reads b1"
    "set evs \<subseteq> A" "spec_run (due e b b1) evs (abs_requests b) = Some (abs_requests b1)"
    unfolding refines_by_def by blast
  from assms(2) b1(1) obtain evs' where b2: "broker_inv b2" "clock_reads b1 \<le> clock_reads b2"
    "set evs' \<subseteq> A" "spec_run (due e b1 b2) evs' (abs_requests b1) = Some (abs_requests b2)"
    unfolding refines_by_def by blast
  from spec_run_between[OF b1(4) b2(4) b1(2) b2(2)] b1 b2
  show "broker_inv b2 \<and> clock_reads b \<le> clock_reads b2 \<and>
    (\<exists>evs. set evs \<subseteq> A \<and> spec_run (due e b b2) evs (abs_requests b) = Some (abs_requests b2))"
    by (intro conjI exI[of _ "evs @ evs'"]) auto
qed

lemma refines_by_mono: "refines_by e A b b' \<Longrightarrow> A \<subseteq> A' \<Longrightarrow> refines_by e A' b b'"
  unfolding refines_by_def by blast

text \<open>The body of a locked record is an event when it turns one entry into another by it.\<close>

definition entry_event ::
  "'s spec_event set \<Rightarrow> string \<Rightarrow> ('s, 'c) request_record \<Rightarrow> ('s, 'c) request_record \<Rightarrow> bool" where
  "entry_event A i r r' \<longleftrightarrow>
     entry_of r' = entry_of r \<or>
     (\<exists>ev \<in> A. \<forall>D x. x i = Some (entry_of r) \<longrightarrow> spec_apply D ev x = Some (x(i \<mapsto> entry_of r')))"

lemma body_events:
  "entry_event A i r (snd (register_body c r))" "entry_event A i r (snd (release_body c r))"
  "entry_event {Ev_complete i s} i r (snd (publish_body s r))"
  "entry_event {Ev_fail i} i r (snd (fail_body r))" "entry_event {Ev_cancel i} i r (snd (cancel_body r))"
  "entry_event A i r (snd (open_body r))" "entry_event A i r r"
  by (auto simp: entry_event_def broker_bodies entry_of_def spec_update_def Let_def split: option.splits)
    (cases "rec_status r"; simp)+

lemma locked_record_events:
  assumes "locked_record e i body b = (res, b')" and "\<And>r. entry_event A i r (snd (body r))"
  shows "clock_reads b \<le> clock_reads b' \<and>
    (\<exists>evs. set evs \<subseteq> insert (Ev_expire i) A \<and>
       spec_run (due e b b') evs (abs_requests b) = Some (abs_requests b'))"
  using assms(1)
proof (cases rule: locked_record_cases)
  case unknown
  then show ?thesis by (auto simp: abs_requests_def intro!: exI[of _ "[]"])
next
  case (clock r x n)
  with expire_entry[OF clock(2)] show ?thesis
    by (auto simp: abs_requests_def intro!: exI[of _ "[]"])
next
  case (ran r c r1 n r2)
  let ?x = "abs_requests b"
  have x: "?x i = Some (entry_of r)" using ran(1) by (simp add: abs_requests_def)
  from expire_event[where x = ?x and i = i, OF ran(2) x] obtain evs where
    evs: "set evs \<subseteq> {Ev_expire i}"
      "spec_run (overdue_at e (clock_reads b) n) evs ?x = Some (?x(i \<mapsto> entry_of r1))" by blast
  have b': "clock_reads b' = n" "abs_requests b' = ?x(i \<mapsto> entry_of r2)"
    by (auto simp: ran(4) abs_requests_def AList.update_conv' fun_eq_iff)
  have due: "due e b b' = overdue_at e (clock_reads b) n"
    by (auto simp: due_overdue b'(1) fun_eq_iff)
  have le: "clock_reads b \<le> clock_reads b'" using expire_entry[OF ran(2)] b'(1) by simp
  from assms(2)[of r1] ran(3) consider "entry_of r2 = entry_of r1"
    | ev where "ev \<in> A" "\<And>D x. x i = Some (entry_of r1) \<Longrightarrow> spec_apply D ev x = Some (x(i \<mapsto> entry_of r2))"
    unfolding entry_event_def by auto
  then show ?thesis
  proof cases
    case 1
    with evs le show ?thesis by (auto simp: due b'(2) intro!: exI[of _ evs])
  next
    case (2 ev)
    have "spec_apply (overdue_at e (clock_reads b) n) ev (?x(i \<mapsto> entry_of r1)) = Some (?x(i \<mapsto> entry_of r2))"
      using 2(2)[of "?x(i \<mapsto> entry_of r1)"] by simp
    with evs le 2(1) show ?thesis
      by (auto simp: due b'(2) spec_run_append intro!: exI[of _ "evs @ [ev]"])
  qed
qed

lemma enter_records_events:
  assumes "enter_records e b = (res, b')" and "distinct (keys (records b))"
  shows "clock_reads b \<le> clock_reads b' \<and> keys (records b') = keys (records b) \<and> same_config b b' \<and>
    (\<exists>ids. spec_run (due e b b') (map Ev_expire ids) (abs_requests b) = Some (abs_requests b'))"
proof -
  obtain rs n where ex: "expire_all e (records b) (clock_reads b) = (res, rs, n)"
    and b': "b' = b\<lparr>records := rs, clock_reads := n, trace := trace b @ [Lock_acquired]\<rparr>"
    using assms(1) by (auto simp: enter_records_eq split: prod.splits)
  from expire_all_events[OF ex assms(2), of "abs_requests b"] obtain ids where
    ids: "clock_reads b \<le> n" "keys rs = keys (records b)"
      "spec_run (overdue_at e (clock_reads b) n) (map Ev_expire ids) (abs_requests b) =
        Some (\<lambda>i. if i \<in> set (keys (records b)) then entries rs i else abs_requests b i)"
    by (auto simp: abs_requests_def)
  have "(\<lambda>i. if i \<in> set (keys (records b)) then entries rs i else abs_requests b i) = abs_requests b'"
  proof
    fix i
    have "map_of (records b) i = None" "map_of rs i = None" if "i \<notin> set (keys (records b))"
      using that ids(2) by (metis map_of_eq_None_iff set_map)+
    then show "(if i \<in> set (keys (records b)) then entries rs i else abs_requests b i) = abs_requests b' i"
      by (simp add: abs_requests_def b')
  qed
  with ids(3) have "spec_run (due e b b') (map Ev_expire ids) (abs_requests b) = Some (abs_requests b')"
    by (simp add: due_overdue[abs_def] b')
  with ids show ?thesis by (auto simp: b' same_config_def)
qed

lemma with_cursor_cancelled_frame [simp]:
  "abs_requests (snd (with_cursor_cancelled out)) = abs_requests (snd out)"
  "clock_reads (snd (with_cursor_cancelled out)) = clock_reads (snd out)"
  by (auto simp: with_cursor_cancelled_def cancel_opt_def cancel_quietly_def log_event_def abs_requests_def
      split: prod.splits sum.splits option.splits)

lemma register_cursor_frame:
  "abs_requests (snd (register_cursor e i c b)) = abs_requests (snd (locked_record e i (register_body c) b))"
  "clock_reads (snd (register_cursor e i c b)) = clock_reads (snd (locked_record e i (register_body c) b))"
  by (auto simp: register_cursor_def cancel_quietly_def log_event_def abs_requests_def
      split: prod.splits sum.splits option.splits)

lemma exit_records_frame [simp]:
  "abs_requests (exit_records cs b) = abs_requests b" "clock_reads (exit_records cs b) = clock_reads b"
  by (simp_all add: exit_records_eq abs_requests_def)

lemma due_clock: "clock_reads b1 = clock_reads b' \<Longrightarrow> due e b b1 = due e b b'"
  by (auto simp: due_def fun_eq_iff)

lemma locked_exec_events:
  assumes "clock_reads b' = clock_reads (snd (locked_record e i body b))"
    and "abs_requests b' = abs_requests (snd (locked_record e i body b))"
    and "\<And>r. entry_event A i r (snd (body r))"
  shows "clock_reads b \<le> clock_reads b' \<and>
    (\<exists>evs. set evs \<subseteq> insert (Ev_expire i) A \<and>
       spec_run (due e b b') evs (abs_requests b) = Some (abs_requests b'))"
proof -
  obtain res b1 where lr: "locked_record e i body b = (res, b1)" by fastforce
  from locked_record_events[OF lr assms(3)] assms(1,2) due_clock[of b1 b' e b] lr show ?thesis by simp
qed

lemma call_exec_events:
  assumes "broker_exec e q b = Some b'" and "\<And>ttl. q \<noteq> Submit ttl" and "distinct (keys (records b))"
  shows "clock_reads b \<le> clock_reads b' \<and>
    (\<exists>evs. set evs \<subseteq> call_events q \<and> spec_run (due e b b') evs (abs_requests b) = Some (abs_requests b'))"
proof (cases q)
  case (Register i c)
  with assms(1) locked_exec_events[of b' e i "register_body c" b "{}"] show ?thesis
    by (auto simp: register_cursor_frame body_events)
next
  case (Release i c)
  with assms(1) locked_exec_events[of b' e i "release_body c" b "{}"] show ?thesis
    by (auto simp: release_cursor_def body_events)
next
  case (Publish i s)
  with assms(1) locked_exec_events[of b' e i "publish_body s" b "{Ev_complete i s}"] show ?thesis
    by (auto simp: publish_def body_events)
next
  case (Fail i)
  with assms(1) locked_exec_events[of b' e i fail_body b "{Ev_fail i}"] show ?thesis
    by (auto simp: broker_fail_def body_events)
next
  case (Cancel i)
  with assms(1) locked_exec_events[of b' e i cancel_body b "{Ev_cancel i}"] show ?thesis
    by (auto simp: broker_cancel_def body_events)
next
  case List_all
  obtain res b1 where en: "enter_records e b = (res, b1)" by fastforce
  from enter_records_events[OF en assms(3)] obtain ids where
    ids: "clock_reads b \<le> clock_reads b1"
      "spec_run (due e b b1) (map Ev_expire ids) (abs_requests b) = Some (abs_requests b1)" by blast
  have b': "clock_reads b1 = clock_reads b'" "abs_requests b' = abs_requests b1"
    using assms(1) List_all en by (auto simp: list_requests_def split: sum.splits)
  have "set (map Ev_expire ids) \<subseteq> call_events q" using List_all by auto
  with ids b' due_clock[OF b'(1), of e b] show ?thesis by (metis (no_types))
next
  case (Get i)
  with assms(1) locked_exec_events[of b' e i "\<lambda>r. (Inr (record_view r), r)" b "{}"] show ?thesis
    by (auto simp: get_request_def body_events)
next
  case (Open i)
  with assms(1) locked_exec_events[of b' e i open_body b "{}"] show ?thesis
    by (auto simp: open_source_def body_events)
qed (use assms(2) in blast)

interpretation refining: call_relation e "refines_by e A"
    "\<lambda>q. (\<forall>ttl. q \<noteq> Submit ttl) \<and> call_events q \<subseteq> A" for e A
proof unfold_locales
  show "refines_by e A b b" for b by (rule refines_by_refl)
  show "refines_by e A b b2" if "refines_by e A b b1" "refines_by e A b1 b2" for b b1 b2
    using that by (rule refines_by_trans)
  show "refines_by e A b b'"
    if "broker_exec e q b = Some b'" "(\<forall>ttl. q \<noteq> Submit ttl) \<and> call_events q \<subseteq> A" for q b b'
    unfolding refines_by_def
    using call_exec_events[OF that(1) _ broker_inv_distinct] that(2) broker_exec_inv[OF that(1)] by blast
qed

section \<open>Submissions\<close>

lemma make_room_events:
  assumes "make_room b = (res, b')" and "distinct (keys (records b))"
  shows "clock_reads b' = clock_reads b \<and> maximum_ttl b' = maximum_ttl b \<and>
    (\<exists>forgotten. (forgotten = [] \<or> full_broker b \<and> (\<exists>j. forgotten = [Ev_forget j])) \<and>
       (\<forall>D. spec_run D forgotten (abs_requests b) = Some (abs_requests b')))"
proof (cases "records b' = records b")
  case True
  with assms(1) show ?thesis
    by (cases rule: make_room_cases) (auto simp: abs_requests_def intro!: exI[of _ "[]"])
next
  case False
  with assms(1) obtain i r where ev: "b' = b\<lparr>records := AList.delete i (records b)\<rparr>"
    "(i, r) \<in> set (records b)" "evictable r" by (cases rule: make_room_cases) auto
  have "full_broker b"
    using False assms(1) by (auto simp: make_room_def full_broker_def split: option.splits if_splits)
  moreover have "map_of (records b) i = Some r" using ev(2) assms(2) by simp
  then have "spec_run D [Ev_forget i] (abs_requests b) = Some (abs_requests b')" for D
    using ev(3) by (auto simp: ev(1) abs_requests_def spec_update_def evictable_def entry_of_def
        delete_conv' fun_eq_iff)
  ultimately show ?thesis by (auto simp: ev(1) intro!: exI[of _ "[Ev_forget i]"])
qed

lemma insert_pending_events:
  assumes "insert_pending e ttl i b = (res, b')" and "map_of (records b) i = None"
  shows "clock_reads b' = Suc (clock_reads b) \<and>
    (abs_requests b' = abs_requests b \<and> \<not> is_ok res \<or>
     (\<exists>v. res = Inr v \<and> view_id v = i \<and>
        (\<forall>D. spec_apply D (Ev_create i (instant_of (clock_at e (clock_reads b)) + min ttl (maximum_ttl b)))
           (abs_requests b) = Some (abs_requests b'))))"
  using assms
  by (auto simp: insert_pending_def now_def Let_def abs_requests_def AList.update_conv' entry_of_def
      record_view_def fun_eq_iff dest: datetime_add_Inr split: prod.splits sum.splits if_splits)

lemma broker_submit_events:
  assumes "broker_submit e ttl b = Some (res, b')" and "broker_inv b"
  shows "clock_reads b \<le> clock_reads b' \<and>
    (\<exists>ids forgotten created.
       (forgotten = [] \<or> full_broker b \<and> (\<exists>j. forgotten = [Ev_forget j])) \<and>
       (created = [] \<and> \<not> is_ok res \<or>
        (\<exists>v t. res = Inr v \<and> created = [Ev_create (view_id v) t] \<and> new_deadline e ttl b b' t)) \<and>
       spec_run (due e b b') (map Ev_expire ids @ forgotten @ created) (abs_requests b) =
         Some (abs_requests b'))"
proof (cases "ttl \<le> 0")
  case True
  with assms(1) show ?thesis by (auto simp: broker_submit_def intro!: exI[of _ "[]"])
next
  case False
  obtain m b1 where en: "enter_records e b = (m, b1)" by fastforce
  from enter_records_events[OF en broker_inv_distinct[OF assms(2)]] obtain ids where
    b1: "clock_reads b \<le> clock_reads b1" "keys (records b1) = keys (records b)" "same_config b b1"
      "spec_run (due e b b1) (map Ev_expire ids) (abs_requests b) = Some (abs_requests b1)" by blast
  have d1: "distinct (keys (records b1))" using broker_inv_distinct[OF assms(2)] b1(2) by simp
  have full: "full_broker b" if "full_broker b1"
    using that b1(2,3) by (auto simp: full_broker_def same_config_def dest: arg_cong[where f = length])
  have expired: ?thesis if "abs_requests b' = abs_requests b1" "clock_reads b' = clock_reads b1" "\<not> is_ok res"
    using b1 that due_clock[OF that(2)[symmetric], of e b]
    by (intro conjI exI[of _ ids] exI[of _ "[]"]) simp_all
  show ?thesis
  proof (cases m)
    case (Inl x)
    with assms(1) False en show ?thesis by (intro expired) (auto simp: broker_submit_def)
  next
    case (Inr cs)
    with assms(1) False en obtain b5 where sb: "submit_body e ttl b1 = Some (res, b5)"
      and b': "b' = exit_records cs b5" by (auto simp: broker_submit_def)
    obtain u b2 where mr: "make_room b1 = (u, b2)" by fastforce
    from make_room_events[OF mr d1] obtain forgotten where
      b2: "clock_reads b2 = clock_reads b1" "maximum_ttl b2 = maximum_ttl b1"
        "forgotten = [] \<or> full_broker b1 \<and> (\<exists>j. forgotten = [Ev_forget j])"
        "\<And>D. spec_run D forgotten (abs_requests b1) = Some (abs_requests b2)" by blast
    show ?thesis
    proof (cases "at_pending_capacity b1 \<or> \<not> is_ok u")
      case True
      then have "b5 = b1" "\<not> is_ok res"
        using sb mr by (cases u; auto simp: submit_body_def make_room_def split: if_splits option.splits)+
      then show ?thesis by (intro expired) (simp_all add: b')
    next
      case False
      with sb mr obtain i k where
        id: "new_request_id (entropy_at e) (keys (records b2)) (tokens_drawn b2) = Some (i, k)"
        and ins: "insert_pending e ttl i (b2\<lparr>tokens_drawn := k\<rparr>) = (res, b5)"
        by (cases u) (auto simp: submit_body_def split: option.splits)
      have "i \<notin> set (keys (records b2))" using new_request_id_fresh[OF id] by blast
      then have "map_of (records (b2\<lparr>tokens_drawn := k\<rparr>)) i = None" by (simp add: map_of_eq_None_iff)
      note ins = insert_pending_events[OF ins this]
      have same: "abs_requests (b2\<lparr>tokens_drawn := k\<rparr>) = abs_requests b2" by (simp add: abs_requests_def)
      have clock: "clock_reads b' = Suc (clock_reads b1)" using ins by (simp add: b' b2(1))
      have run: "spec_run (due e b b') (map Ev_expire ids @ forgotten) (abs_requests b) = Some (abs_requests b2)"
      proof -
        have "spec_run (due e b b') (map Ev_expire ids) (abs_requests b) = Some (abs_requests b1)"
          by (rule spec_run_mono[OF b1(4)]) (erule due_mono; simp add: clock)
        with b2(4) show ?thesis by (simp add: spec_run_append)
      qed
      have forgotten: "forgotten = [] \<or> full_broker b \<and> (\<exists>j. forgotten = [Ev_forget j])" using b2(3) full by blast
      from ins consider "abs_requests b5 = abs_requests b2" "\<not> is_ok res"
        | v where "res = Inr v" "view_id v = i"
          "\<And>D. spec_apply D (Ev_create i (instant_of (clock_at e (clock_reads b1)) + min ttl (maximum_ttl b)))
             (abs_requests b2) = Some (abs_requests b5)"
        using b1(3) b2(1,2) same by (auto simp: same_config_def simp del: spec_apply.simps)
      then show ?thesis
      proof cases
        case 1
        with run forgotten clock b1(1) show ?thesis
          by (intro conjI exI[of _ ids] exI[of _ forgotten] exI[of _ "[]"]) (simp_all add: b')
      next
        case (2 v)
        have "new_deadline e ttl b b' (instant_of (clock_at e (clock_reads b1)) + min ttl (maximum_ttl b))"
          using b1(1) clock by (auto simp: new_deadline_def)
        with 2 run forgotten clock b1(1) show ?thesis
          by (intro conjI exI[of _ ids] exI[of _ forgotten]
              exI[of _ "[Ev_create i (instant_of (clock_at e (clock_reads b1)) + min ttl (maximum_ttl b))]"])
            (auto simp: b' spec_run_append[of _ "map Ev_expire ids @ forgotten", simplified] simp del: spec_apply.simps)
      qed
    qed
  qed
qed

section \<open>What submit does to the store\<close>

definition submit_store ::
  "(string, ('s, 'c) request_record) odict \<Rightarrow> (string, ('s, 'c) request_record) odict \<Rightarrow> bool"
where
  "submit_store rs rs' \<longleftrightarrow>
     (\<exists>rs1 rs2. odict_rel rec_evolves rs rs1 \<and>
        (rs2 = rs1 \<or>
         (\<exists>j r. (j, r) \<in> set rs1 \<and> terminal (rec_status r) \<and> rs2 = AList.delete j rs1)) \<and>
        (rs' = rs2 \<or>
         (\<exists>j r. j \<notin> set (keys rs2) \<and> rec_status r = PENDING \<and> rs' = rs2 @ [(j, r)])))"

lemma submit_store_evolved: "odict_rel rec_evolves rs rs' \<Longrightarrow> submit_store rs rs'"
  unfolding submit_store_def by blast

lemma insert_pending_records:
  assumes "insert_pending e ttl i b = (res, b')" and "i \<notin> set (keys (records b))"
  shows "records b' = records b \<or>
    (\<exists>r. rec_status r = PENDING \<and> records b' = records b @ [(i, r)])"
  using assms(1) by (auto simp: insert_pending_def Let_def keys_update_fresh[OF assms(2)]
      split: prod.splits sum.splits)

lemma submit_body_records:
  assumes "submit_body e ttl b = Some (res, b')"
  shows "\<exists>rs2. (rs2 = records b \<or> (\<exists>j r. (j, r) \<in> set (records b) \<and> terminal (rec_status r) \<and>
             rs2 = AList.delete j (records b))) \<and>
    (records b' = rs2 \<or> (\<exists>j r. j \<notin> set (keys rs2) \<and> rec_status r = PENDING \<and>
             records b' = rs2 @ [(j, r)]))"
proof (cases "at_pending_capacity b")
  case True
  with assms show ?thesis by (auto simp: submit_body_def)
next
  case False
  obtain m b1 where mr: "make_room b = (m, b1)" by fastforce
  from mr have rs2: "records b1 = records b \<or> (\<exists>j r. (j, r) \<in> set (records b) \<and>
      terminal (rec_status r) \<and> records b1 = AList.delete j (records b))"
    by (cases rule: make_room_cases) (auto simp: evictable_terminal)
  have "records b' = records b1 \<or> (\<exists>j r. j \<notin> set (keys (records b1)) \<and>
      rec_status r = PENDING \<and> records b' = records b1 @ [(j, r)])"
    using assms False mr
    by (auto simp: submit_body_def split: sum.splits option.splits
        dest!: new_request_id_fresh insert_pending_records)
  with rs2 show ?thesis by blast
qed

lemma broker_submit_records:
  assumes "broker_submit e ttl b = Some (res, b')"
  shows "submit_store (records b) (records b')"
proof (cases "ttl \<le> 0")
  case True
  with assms have "b' = b" by (simp add: broker_submit_def)
  moreover have "odict_rel rec_evolves (records b) (records b)" by (simp add: odict_rel_refl)
  ultimately show ?thesis by (simp add: submit_store_evolved)
next
  case False
  obtain m rs n where ex: "expire_all e (records b) (clock_reads b) = (m, rs, n)"
    using prod_cases3 by blast
  note ev = expire_all_evolves[OF ex]
  show ?thesis
  proof (cases m)
    case (Inl x)
    with assms False ex have "records b' = rs"
      by (auto simp: broker_submit_def enter_records_eq exit_records_eq)
    with ev show ?thesis by (simp add: submit_store_evolved)
  next
    case (Inr cs)
    with assms False ex obtain b2 where
      sb: "submit_body e ttl (b\<lparr>records := rs, clock_reads := n,
             trace := trace b @ [Lock_acquired]\<rparr>) = Some (res, b2)"
      and b': "records b' = records b2"
      by (auto simp: broker_submit_def enter_records_eq exit_records_eq)
    from submit_body_records[OF sb] ev show ?thesis
      by (auto simp: submit_store_def b')
  qed
qed

lemma broker_exec_store:
  assumes "broker_exec e q b = Some b'" and "distinct (keys (records b))"
  shows "(\<exists>ttl. q = Submit ttl) \<and> submit_store (records b) (records b') \<or>
    store_evolves b b'"
proof (cases q)
  case (Submit ttl)
  with assms(1) show ?thesis by (auto dest: broker_submit_records)
qed (use assms(1) op_evolves[OF assms(2), of e] register_cursor_evolves[OF assms(2), of e]
     in auto)

section \<open>Simulation\<close>

definition call_permits ::
  "env \<Rightarrow> ('s, 'c) broker_call \<Rightarrow> ('s, 'c) broker \<Rightarrow> ('s, 'c) broker \<Rightarrow> 's spec_event list \<Rightarrow> bool" where
  "call_permits e q b b' evs \<longleftrightarrow>
     (case q of Submit ttl \<Rightarrow> submission_events e ttl b b' evs | _ \<Rightarrow> set evs \<subseteq> call_events q)"

lemma broker_exec_simulated:
  assumes "broker_inv b" and "broker_exec e q b = Some b'"
  shows "\<exists>evs. call_permits e q b b' evs \<and>
    spec_run (due e b b') evs (abs_requests b) = Some (abs_requests b')"
proof (cases "\<exists>ttl. q = Submit ttl")
  case True
  then obtain ttl res where q: "q = Submit ttl" and sub: "broker_submit e ttl b = Some (res, b')"
    using assms(2) by auto
  from broker_submit_events[OF sub assms(1)] obtain ids forgotten created where
    "forgotten = [] \<or> full_broker b \<and> (\<exists>j. forgotten = [Ev_forget j])"
    "created = [] \<or> (\<exists>i t. created = [Ev_create i t] \<and> new_deadline e ttl b b' t)"
    and run: "spec_run (due e b b') (map Ev_expire ids @ forgotten @ created) (abs_requests b) =
      Some (abs_requests b')" by blast
  then have "submission_events e ttl b b' (map Ev_expire ids @ forgotten @ created)"
    unfolding submission_events_def
    by (intro exI[of _ ids] exI[of _ forgotten] exI[of _ created] exI[of _ "[]"]) auto
  with run show ?thesis unfolding call_permits_def q by auto
next
  case False
  with call_exec_events[OF assms(2) _ broker_inv_distinct[OF assms(1)]] obtain evs where
    "set evs \<subseteq> call_events q" "spec_run (due e b b') evs (abs_requests b) = Some (abs_requests b')" by blast
  with False show ?thesis by (intro exI[of _ evs]) (cases q; simp add: call_permits_def)
qed

interpretation brk_spec: simulation broker_initial "broker_step e" broker_inv "broker_exec e" abs_requests
    Map.empty "call_permits e" "\<lambda>b b'. spec_run (due e b b')" for e
proof unfold_locales
  show "abs_requests b = Map.empty" if "broker_initial b" for b :: "('a, 'b) broker"
    using that by (auto simp: broker_initial_def broker_init_def abs_requests_def split: if_splits)
qed (auto simp: broker_step_def intro: broker_exec_simulated)

section \<open>The fate of one record\<close>

text \<open>What a run of events can make of one request, when none of them creates or forgets.\<close>

definition live :: "request_status \<Rightarrow> bool" where
  "live s \<longleftrightarrow> s = PENDING \<or> s = COMPLETE"

definition fate ::
  "(instant \<Rightarrow> bool) \<Rightarrow> 's spec_event set \<Rightarrow> string \<Rightarrow> 's spec_request \<Rightarrow> 's spec_request \<Rightarrow> bool" where
  "fate D A i p p' \<longleftrightarrow> sp_deadline p' = sp_deadline p \<and>
     (p' = p \<or>
      live (sp_status p) \<and> D (sp_deadline p) \<and> sp_status p' = EXPIRED \<and> sp_source p' = None \<or>
      (\<exists>s. Ev_complete i s \<in> A \<and> sp_status p = PENDING \<and> sp_status p' = COMPLETE \<and> sp_source p' = Some s) \<or>
      Ev_fail i \<in> A \<and> sp_status p = PENDING \<and> sp_status p' = FAILED \<and> sp_source p' = sp_source p \<or>
      Ev_cancel i \<in> A \<and> live (sp_status p) \<and> sp_status p' = CANCELLED \<and> sp_source p' = None)"

lemma fate_trans: "fate D A i p p1 \<Longrightarrow> fate D A i p1 p' \<Longrightarrow> fate D A i p p'"
  unfolding fate_def live_def by auto

lemma spec_run_fate:
  "spec_run D evs x = Some x' \<Longrightarrow> set evs \<subseteq> A \<Longrightarrow> (\<And>j t. Ev_create j t \<notin> A) \<Longrightarrow> (\<And>j. Ev_forget j \<notin> A) \<Longrightarrow>
   x i = Some p \<Longrightarrow> \<exists>p'. x' i = Some p' \<and> fate D A i p p'"
proof (induction evs arbitrary: x p)
  case Nil
  then show ?case by (simp add: fate_def)
next
  case (Cons ev evs)
  then obtain x1 where x1: "spec_apply D ev x = Some x1" "spec_run D evs x1 = Some x'"
    by (auto split: option.splits)
  have "\<exists>p1. x1 i = Some p1 \<and> fate D A i p p1"
    using x1(1) Cons.prems(2-5)
    by (cases ev) (auto simp: spec_update_def fate_def live_def split: option.splits if_splits)
  then obtain p1 where p1: "x1 i = Some p1" "fate D A i p p1" by blast
  from Cons.IH[OF x1(2) _ Cons.prems(3,4) p1(1)] Cons.prems(2) p1(2) fate_trans[of D A i p p1]
  show ?case by auto
qed

text \<open>
  Property C22.  What each call may do to a stored request, and nothing else.  The request stays,
  under its identifier and deadline, as it was; or it was pending or complete, its deadline had
  passed at a clock reading of this very call, and it is expired without its source; or the call
  published, failed or cancelled this request, which was pending (or, to be cancelled, complete),
  and it is now complete with the published source, failed or cancelled without one.  Only a
  submission to a full broker removes a request, and only one that had ended or was overdue; at
  most a fresh pending request is then found under its identifier.
\<close>

theorem record_fate:
  assumes "broker_inv b" and "broker_exec e q b = Some b'" and "map_of (records b) i = Some r"
  shows "(\<exists>r'. map_of (records b') i = Some r' \<and> rec_id r' = i \<and> rec_expires_at r' = rec_expires_at r \<and>
      (rec_status r' = rec_status r \<and> rec_source r' = rec_source r \<or>
       rec_status r \<in> {PENDING, COMPLETE} \<and> due e b b' (rec_expires_at r) \<and>
         rec_status r' = EXPIRED \<and> rec_source r' = None \<or>
       (\<exists>s. q = Publish i s \<and> rec_status r = PENDING \<and> rec_status r' = COMPLETE \<and> rec_source r' = Some s) \<or>
       q = Fail i \<and> rec_status r = PENDING \<and> rec_status r' = FAILED \<and> rec_source r' = None \<or>
       q = Cancel i \<and> rec_status r \<in> {PENDING, COMPLETE} \<and> rec_status r' = CANCELLED \<and>
         rec_source r' = None)) \<or>
    (\<exists>ttl. q = Submit ttl \<and> full_broker b \<and>
       (rec_status r \<in> {FAILED, CANCELLED, EXPIRED} \<or>
        rec_status r \<in> {PENDING, COMPLETE} \<and> due e b b' (rec_expires_at r)) \<and>
       (case map_of (records b') i of
          None \<Rightarrow> True
        | Some r' \<Rightarrow> rec_status r' = PENDING \<and> rec_source r' = None))"
    (is "?stays \<or> ?gone")
proof -
  let ?D = "due e b b'" and ?x = "abs_requests b" and ?x' = "abs_requests b'"
  have x: "?x i = Some (entry_of r)" using assms(3) by (simp add: abs_requests_def)
  have wf: "rec_source r = None" if "rec_status r = PENDING"
    using broker_inv_record[OF assms(1,3)] that by (auto simp: wf_record_def)
  have stays: ?stays if p: "?x' i = Some p'" "fate ?D A i (entry_of r) p'"
    and A: "\<And>s. Ev_complete i s \<in> A \<Longrightarrow> q = Publish i s" "Ev_fail i \<in> A \<Longrightarrow> q = Fail i"
      "Ev_cancel i \<in> A \<Longrightarrow> q = Cancel i" for p' A
  proof -
    obtain r' where r': "map_of (records b') i = Some r'" "p' = entry_of r'"
      using p(1) by (auto simp: abs_requests_def)
    have "rec_id r' = i" using broker_inv_record[OF broker_exec_inv[OF assms(2,1)] r'(1)] by simp
    with r' p(2) A wf show ?thesis by (auto simp: fate_def entry_of_def live_def)
  qed
  obtain evs where evs: "call_permits e q b b' evs" "spec_run ?D evs ?x = Some ?x'"
    using broker_exec_simulated[OF assms(1,2)] by blast
  show ?thesis
  proof (cases "\<exists>ttl. q = Submit ttl")
    case False
    then have sub: "set evs \<subseteq> call_events q" using evs(1) by (cases q) (auto simp: call_permits_def)
    have "Ev_create j t \<notin> call_events q" "Ev_forget j \<notin> call_events q" for j t by (cases q; auto)+
    from spec_run_fate[OF evs(2) sub this x] obtain p' where
      "?x' i = Some p'" "fate ?D (call_events q) i (entry_of r) p'" by blast
    moreover have "Ev_complete i s \<in> call_events q \<Longrightarrow> q = Publish i s"
      "Ev_fail i \<in> call_events q \<Longrightarrow> q = Fail i" "Ev_cancel i \<in> call_events q \<Longrightarrow> q = Cancel i" for s
      by (cases q; auto)+
    ultimately have ?stays using stays[of _ "call_events q"] by blast
    then show ?thesis ..
  next
    case True
    then obtain ttl where q: "q = Submit ttl" by blast
    then obtain res where sub: "broker_submit e ttl b = Some (res, b')" using assms(2) by auto
    from broker_submit_events[OF sub assms(1)] obtain ids forgotten created where
      forg: "forgotten = [] \<or> full_broker b \<and> (\<exists>j. forgotten = [Ev_forget j])"
      and crea: "created = [] \<or> (\<exists>j t. created = [Ev_create j t])"
      and run: "spec_run ?D (map Ev_expire ids @ forgotten @ created) ?x = Some ?x'" by blast
    obtain x1 where x1: "spec_run ?D (map Ev_expire ids) ?x = Some x1"
      "spec_run ?D (forgotten @ created) x1 = Some ?x'"
      using run by (auto simp: spec_run_append split: option.splits)
    have "\<exists>p1. x1 i = Some p1 \<and> fate ?D (range Ev_expire) i (entry_of r) p1"
      by (rule spec_run_fate[OF x1(1)]) (auto simp: x)
    then obtain p1 where p1: "x1 i = Some p1" "fate ?D (range Ev_expire) i (entry_of r) p1" by blast
    obtain x2 where x2: "spec_run ?D forgotten x1 = Some x2" "spec_run ?D created x2 = Some ?x'"
      using x1(2) by (auto simp: spec_run_append split: option.splits)
    have created: "?x' = x2 \<or>
      (\<exists>j t. x2 j = None \<and> ?x' = x2(j \<mapsto> \<lparr>sp_status = PENDING, sp_deadline = t, sp_source = None\<rparr>))"
    proof (cases "created = []")
      case False
      with crea obtain j t where "created = [Ev_create j t]" by blast
      with x2(2) have "x2 j = None"
        "?x' = x2(j \<mapsto> \<lparr>sp_status = PENDING, sp_deadline = t, sp_source = None\<rparr>)"
        by (simp_all split: if_splits)
      then show ?thesis by blast
    qed (use x2(2) in simp)
    show ?thesis
    proof (cases "forgotten = [Ev_forget i]")
      case True
      then have "x2 i = None" "sp_status p1 \<in> {FAILED, CANCELLED, EXPIRED}"
        using x2(1) p1(1) by (auto simp: spec_update_def split: if_splits)
      moreover from created \<open>x2 i = None\<close> have
        "?x' i = None \<or> (\<exists>t. ?x' i = Some \<lparr>sp_status = PENDING, sp_deadline = t, sp_source = None\<rparr>)"
        by (cases "?x' = x2") auto
      ultimately have ?gone
        using p1(2) forg True q by (auto simp: fate_def entry_of_def live_def abs_requests_def)
      then show ?thesis ..
    next
      case False
      then have "x2 i = Some p1"
        using x2(1) p1(1) forg by (auto simp: spec_update_def split: option.splits if_splits)
      with created have "?x' i = Some p1" by auto
      from stays[OF this p1(2)] show ?thesis by auto
    qed
  qed
qed

text \<open>A broker with room for one request, filled by a pending one that is overdue at the next reading.\<close>

definition late_env :: env where
  "late_env = steady_env\<lparr>clock_at := \<lambda>n. \<lparr>instant_of = seconds (60 * int n), tz_aware = True\<rparr>\<rparr>"

definition crowded_broker :: "(nat, nat) broker" where
  "crowded_broker = sample_broker\<lparr>maximum_requests := Some 1, tokens_drawn := 1, clock_reads := 1,
     records := [(sample_id, \<lparr>rec_id = sample_id, rec_status = PENDING, rec_expires_at = seconds 60,
       rec_source = None, rec_cursor = None\<rparr>)]\<rparr>"

theorem record_fate_witness:
  "\<exists>b'. broker_exec late_env (Submit (seconds 60)) crowded_broker = Some b' \<and>
     map_of (records crowded_broker) sample_id \<noteq> None \<and> map_of (records b') sample_id = None \<and>
     full_broker crowded_broker \<and> due late_env crowded_broker b' (seconds 60)"
proof -
  let ?r = "\<lparr>rec_id = sample_id, rec_status = PENDING, rec_expires_at = seconds 60, rec_source = None,
    rec_cursor = None\<rparr> :: (nat, nat) request_record"
  have inv: "broker_inv crowded_broker"
    by (simp add: broker_inv_def store_inv_def crowded_broker_def sample_broker_def wf_record_def
        lock_free_def fits_def pending_count_def minutes_def seconds_def)
  have r: "map_of (records crowded_broker) sample_id = Some ?r" by (simp add: crowded_broker_def)
  have "map_option (\<lambda>b'. map_of (records b') sample_id = None)
      (broker_exec late_env (Submit (seconds 60)) crowded_broker) = Some True" by code_simp
  then obtain b' where b': "broker_exec late_env (Submit (seconds 60)) crowded_broker = Some b'"
    "map_of (records b') sample_id = None" by auto
  from record_fate[OF inv b'(1) r] b'(2) have "full_broker crowded_broker" "due late_env crowded_broker b' (seconds 60)"
    by auto
  with b' r show ?thesis by auto
qed

end
