(* ===== verification/Broker_Props.thy ===== *)
theory Broker_Props
  imports Broker_Spec
begin

text \<open>
  Properties of the broker's operations: the invariant of every history, what each operation
  returns, termination of the identifier loop, and the accounting of driver cursors (no cursor is
  cancelled more often than it was offered, none is dropped without being cancelled or released).
\<close>

section \<open>Every history\<close>

lemma broker_exec_config: "broker_exec e q b = Some b' \<Longrightarrow> broker_inv b \<Longrightarrow> same_config b b'"
proof (cases q)
  case (Submit ttl)
  assume ex: "broker_exec e q b = Some b'" and inv: "broker_inv b"
  then obtain res where sub: "broker_submit e ttl b = Some (res, b')"
    by (auto simp: Submit)
  obtain m b1 where en: "enter_records e b = (m, b1)" by fastforce
  have ent: "store_inv b1 \<and> same_config b b1"
    using enter_records_store_inv[OF en] inv by (simp add: broker_inv_def)
  have exits: "same_config b2 (exit_records cs b2)" for b2 :: "('a, 'b) broker" and cs
    by (simp add: exit_records_eq same_config_def)
  from sub en ent show ?thesis
    by (auto simp: broker_submit_def same_config_def split: if_splits sum.splits
        dest!: submit_body_inv simp: exit_records_eq)
qed (use op_evolves[OF broker_inv_distinct, of b e] register_cursor_evolves[OF broker_inv_distinct, of b e]
     in \<open>auto simp: store_evolves_def\<close>)

lemma same_config_refl: "same_config b b"
  by (simp add: same_config_def)

lemma same_config_trans: "same_config b b1 \<Longrightarrow> same_config b1 b2 \<Longrightarrow> same_config b b2"
  by (simp add: same_config_def)

interpretation settings: call_relation e
    "\<lambda>b b'. broker_inv b \<longrightarrow> broker_inv b' \<and> same_config b b'" "\<lambda>q. True" for e
  by unfold_locales
    (auto intro: broker_exec_inv broker_exec_config same_config_refl same_config_trans)

text \<open>
  Property C1.  After any sequence of calls on a newly built broker: identifiers are distinct and
  each record carries its own; a record holds a result source exactly while complete and a driver
  cursor only while pending; the configured bounds on pending requests and on records hold; the
  lock is free, was never released without being held, and no driver cursor was ever cancelled
  while the lock was held.
\<close>

theorem broker_history_invariant:
  assumes "broker_init ttl pending capacity = Inr b0" and "broker_run e qs b0 = Some b"
  shows "distinct (keys (records b)) \<and>
    (\<forall>(i, r) \<in> set (records b).
       rec_id r = i \<and> (rec_source r \<noteq> None \<longleftrightarrow> rec_status r = COMPLETE) \<and>
       (rec_cursor r \<noteq> None \<longrightarrow> rec_status r = PENDING)) \<and>
    fits (pending_count b) pending \<and> fits (length (records b)) capacity \<and>
    lock_run 0 (trace b) = Some 0"
proof -
  have inv0: "broker_inv b0" by (rule broker_init_inv[OF assms(1)])
  then have "broker_inv b" by (rule broker_run_inv[OF assms(2)])
  moreover have "maximum_pending_requests b = pending \<and> maximum_requests b = capacity"
    using settings.broker_run_R[OF assms(2)] inv0 assms(1)
    by (auto simp: list_all_iff same_config_def broker_init_def split: if_splits option.splits)
  ultimately show ?thesis
    by (auto simp: broker_inv_def store_inv_def wf_record_def lock_free_def)
qed

theorem broker_history_invariant_witness:
  "\<exists>b0 b :: (nat, nat) broker. broker_init (minutes 5) (Some 1) (Some 2) = Inr b0 \<and>
     broker_run steady_env [Submit (seconds 60), Register sample_id 7, Fail sample_id] b0 = Some b \<and>
     map (rec_status \<circ> snd) (records b) = [FAILED] \<and>
     lock_run 0 (trace b) = Some 0 \<and> fits (pending_count b) (Some 1)"
proof -
  let ?qs = "[Submit (seconds 60), Register sample_id 7, Fail sample_id]"
  have i: "broker_init (minutes 5) (Some 1) (Some 2) = Inr sample_broker"
    by (simp add: broker_init_def sample_broker_def minutes_def seconds_def)
  have "map_option (\<lambda>b. map (rec_status \<circ> snd) (records b)) (broker_run steady_env ?qs sample_broker)
      = Some [FAILED]" by code_simp
  then obtain b where b: "broker_run steady_env ?qs sample_broker = Some b"
    "map (rec_status \<circ> snd) (records b) = [FAILED]" by (auto simp del: broker_run.simps)
  from broker_history_invariant[OF i b(1)] i b show ?thesis
    by (auto simp del: broker_run.simps)
qed

section \<open>Results of the operations\<close>

text \<open>
  \<open>open_source\<close> hands out a source exactly when the request is complete, the source
  is the published one and the clock, read at this very call, is before the deadline.  Its only
  other outcomes are the detail-free \<open>RequestUnavailable\<close> and, exactly for a live record read
  under a clock without time zone, \<open>ValueError\<close>.
\<close>

theorem open_source_result:
  "(fst (open_source e i b) = Inr s \<longleftrightarrow>
     (\<exists>r. map_of (records b) i = Some r \<and> rec_status r = COMPLETE \<and> rec_source r = Some s \<and>
        tz_aware (clock_at e (clock_reads b)) \<and>
        instant_of (clock_at e (clock_reads b)) < rec_expires_at r)) \<and>
   (fst (open_source e i b) = Inl ValueError \<longleftrightarrow>
     (\<exists>r. map_of (records b) i = Some r \<and> rec_status r \<in> {PENDING, COMPLETE} \<and>
        \<not> tz_aware (clock_at e (clock_reads b)))) \<and>
   fst (open_source e i b) \<in> {Inl RequestUnavailable, Inl ValueError} \<union> range Inr"
  by (auto simp: open_source_def locked_record_def Let_def log_event_def expire_def now_def
      open_body_def split: option.splits if_splits)

lemma submit_new_record:
  assumes "broker_submit e ttl b = Some (Inr v, b')" and "broker_inv b"
  shows "0 < ttl \<and> view_status v = PENDING \<and> (\<exists>k. view_id v = token_urlsafe (entropy_at e k)) \<and>
    view_expires_at v \<le> last_instant \<and>
    view_expires_at v = instant_of (clock_at e (clock_reads b' - 1)) + min ttl (maximum_ttl b) \<and>
    (\<exists>rs r. records b' = rs @ [(view_id v, r)] \<and> view_id v \<notin> set (keys rs) \<and>
       record_view r = v \<and> rec_source r = None \<and> rec_cursor r = None)"
proof -
  from assms(1) have ttl: "0 < ttl" by (auto simp: broker_submit_def split: if_splits)
  obtain m b1 where en: "enter_records e b = (m, b1)" by fastforce
  obtain cs b2 where m: "m = Inr cs" and sb: "submit_body e ttl b1 = Some (Inr v, b2)"
    and b': "b' = exit_records cs b2"
    using assms(1) ttl en by (auto simp: broker_submit_def split: sum.splits if_splits)
  have b1: "store_inv b1" "maximum_ttl b1 = maximum_ttl b"
    using enter_records_store_inv[OF en] assms(2) by (auto simp: broker_inv_def same_config_def)
  obtain u b3 where mr: "make_room b1 = (Inr u, b3)"
    using sb by (auto simp: submit_body_def split: if_splits prod.splits sum.splits)
  then obtain i k where nid: "new_request_id (entropy_at e) (keys (records b3)) (tokens_drawn b3) = Some (i, k)"
    and ins: "insert_pending e ttl i (b3\<lparr>tokens_drawn := k\<rparr>) = (Inr v, b2)"
    using sb by (auto simp: submit_body_def split: if_splits option.splits)
  note fresh = new_request_id_fresh[OF nid]
  have b3: "maximum_ttl b3 = maximum_ttl b"
    using make_room_inv[OF mr b1(1)] b1(2) by (simp add: same_config_def)
  obtain t where t: "now e (clock_reads b3) = (Inr t, Suc (clock_reads b3))"
    "t = instant_of (clock_at e (clock_reads b3))"
    using ins by (auto simp: insert_pending_def now_def split: if_splits)
  from ins t fresh ttl show ?thesis
    by (auto simp: insert_pending_def Let_def record_view_def b' exit_records_eq b3 keys_update_fresh
        dest!: datetime_add_Inr split: sum.splits)
qed

text \<open>
  Property C39.  An accepted submission returns a pending view whose identifier passes the receipt
  pattern and was not in use, whose deadline is the last clock reading plus the requested or the
  maximal lifetime, whichever is shorter, and a \<open>datetime\<close>, and whose record is the newest of the
  store and has neither source nor cursor.
\<close>

theorem submit_accepted:
  assumes "broker_submit e ttl b = Some (Inr v, b')" and "broker_inv b"
    and "\<And>n. length (entropy_at e n) = 18"
  shows "0 < ttl \<and> view_status v = PENDING \<and> request_id_pattern (view_id v) \<and>
    view_expires_at v \<le> last_instant \<and>
    view_expires_at v = instant_of (clock_at e (clock_reads b' - 1)) + min ttl (maximum_ttl b) \<and>
    (\<exists>rs r. records b' = rs @ [(view_id v, r)] \<and> view_id v \<notin> set (keys rs) \<and>
       record_view r = v \<and> rec_source r = None \<and> rec_cursor r = None)"
  using submit_new_record[OF assms(1,2)] token_urlsafe_shape[OF assms(3)] by auto

theorem submit_accepted_witness:
  "\<exists>v b'. broker_submit steady_env (seconds 60) sample_broker = Some (Inr v, b') \<and>
     view_id v = sample_id \<and> request_id_pattern (view_id v) \<and> view_status v = PENDING \<and>
     view_expires_at v = seconds 60"
proof -
  have len: "length (entropy_at steady_env n) = 18" for n by (simp add: steady_env_def)
  have inv: "broker_inv sample_broker" using sample_after_inv[of "[]"] by (simp add: sample_after_def)
  have "map_option (\<lambda>p. case fst p of Inl x \<Rightarrow> None | Inr v \<Rightarrow> Some (view_id v, view_expires_at v))
     (broker_submit steady_env (seconds 60) sample_broker) = Some (Some (sample_id, seconds 60))"
    by code_simp
  then obtain p where p: "broker_submit steady_env (seconds 60) sample_broker = Some p"
    "(case fst p of Inl x \<Rightarrow> None | Inr v \<Rightarrow> Some (view_id v, view_expires_at v)) =
     Some (sample_id, seconds 60)" by blast
  then obtain v b' where v: "broker_submit steady_env (seconds 60) sample_broker = Some (Inr v, b')"
    "view_id v = sample_id" "view_expires_at v = seconds 60"
    by (cases p; cases "fst p") auto
  from submit_accepted[OF v(1) inv len] v show ?thesis by auto
qed

text \<open>
  The listing shows every stored request exactly once, the most recent first.
\<close>

theorem list_requests_newest_first:
  assumes "broker_inv b" and "list_requests e b = (Inr vs, b')"
  shows "map view_id vs = rev (keys (records b)) \<and> distinct (map view_id vs) \<and>
    set vs = record_view ` set (vals (records b'))"
proof -
  obtain cs rs n where ex: "expire_all e (records b) (clock_reads b) = (Inr cs, rs, n)"
    and vs: "vs = map record_view (rev (vals rs))" and b': "records b' = rs"
    using assms(2)
    by (auto simp: list_requests_def enter_records_eq exit_records_eq split: prod.splits sum.splits)
  note ev = expire_all_evolves[OF ex]
  have "\<forall>(i, r) \<in> set rs. rec_id r = i \<and> wf_record r"
    by (rule evolved_wf[OF ev]) (use assms(1) in \<open>simp add: broker_inv_def store_inv_def\<close>)
  then have "map (rec_id \<circ> snd) rs = map fst rs" by (auto simp: split_beta)
  moreover have "keys rs = keys (records b)" by (rule odict_rel_keys[OF ev])
  ultimately have ids: "map view_id vs = rev (keys (records b))"
    by (simp add: vs record_view_def comp_def flip: rev_map)
  then show ?thesis
    using broker_inv_distinct[OF assms(1)] by (simp add: vs b')
qed

theorem list_requests_newest_first_witness:
  "\<exists>vs b'. list_requests steady_env
      (sample_after [Submit (seconds 60), Fail sample_id, Submit (seconds 60)]) = (Inr vs, b') \<and>
     map view_id vs = [''AAAAAAAAAAAAAAAAAAAAAAAB'', sample_id] \<and> distinct (map view_id vs)"
proof -
  let ?b = "sample_after [Submit (seconds 60), Fail sample_id, Submit (seconds 60)]"
  have "is_ok (fst (list_requests steady_env ?b))" by code_simp
  then obtain vs b' where l: "list_requests steady_env ?b = (Inr vs, b')"
    by (cases "list_requests steady_env ?b"; cases "fst (list_requests steady_env ?b)") auto
  have "rev (keys (records ?b)) = [''AAAAAAAAAAAAAAAAAAAAAAAB'', sample_id]" by code_simp
  with list_requests_newest_first[OF sample_after_inv l] l show ?thesis by auto
qed

end
