(* ===== verification/Broker_Cursors.thy ===== *)
theory Broker_Cursors
  imports Broker_Props
begin

text \<open>
  Accounting of driver cursors over a history of calls, registration of a cursor, and termination
  of the identifier loop.
\<close>

section \<open>Where the cursors are\<close>

definition opt_mset :: "'c option \<Rightarrow> 'c multiset" where
  "opt_mset c = (case c of None \<Rightarrow> {#} | Some c' \<Rightarrow> {#c'#})"

lemma opt_mset_simps [simp]: "opt_mset None = {#}" "opt_mset (Some c) = {#c#}"
  by (simp_all add: opt_mset_def)

fun cancel_calls :: "'c broker_event list \<Rightarrow> 'c list" where
  "cancel_calls [] = []"
| "cancel_calls (Driver_cancel c # evs) = c # cancel_calls evs"
| "cancel_calls (ev # evs) = cancel_calls evs"

lemma cancel_calls_append [simp]: "cancel_calls (xs @ ys) = cancel_calls xs @ cancel_calls ys"
  by (induction xs rule: cancel_calls.induct) auto

lemma cancel_calls_map [simp]: "cancel_calls (map Driver_cancel cs) = cs"
  by (induction cs) auto

text \<open>The cursors attached to records, and those whose driver was told to cancel.\<close>

definition attached_in :: "(string, ('s, 'c) request_record) odict \<Rightarrow> 'c multiset" where
  "attached_in rs = sum_list (map (opt_mset \<circ> rec_cursor) (vals rs))"

definition cursor_ledger :: "('s, 'c) broker \<Rightarrow> 'c multiset" where
  "cursor_ledger b = attached_in (records b) + mset (cancel_calls (trace b))"

lemma attached_in_simps [simp]:
  "attached_in [] = {#}"
  "attached_in ((i, r) # rs) = opt_mset (rec_cursor r) + attached_in rs"
  "attached_in (rs @ rs') = attached_in rs + attached_in rs'"
  by (simp_all add: attached_in_def)

lemma attached_in_update:
  "distinct (keys rs) \<Longrightarrow> map_of rs i = Some r \<Longrightarrow>
   attached_in (AList.update i r' rs) + opt_mset (rec_cursor r) =
   attached_in rs + opt_mset (rec_cursor r')"
  by (induction rs) (auto split: if_splits simp: ac_simps dest: map_of_in_keys)

lemma attached_in_delete:
  "attached_in (AList.delete i rs) \<subseteq># attached_in rs"
  by (induction rs) (auto intro: subset_mset.order_trans[OF _ mset_subset_eq_add_right])

lemma attached_in_delete_none:
  "(\<And>r. (i, r) \<in> set rs \<Longrightarrow> rec_cursor r = None) \<Longrightarrow> attached_in (AList.delete i rs) = attached_in rs"
  by (induction rs) auto

section \<open>What each step does to the ledger\<close>

lemma expire_ledger:
  "expire e r n = (Inr c, r', n') \<Longrightarrow> opt_mset (rec_cursor r') + opt_mset c = opt_mset (rec_cursor r)"
  by (auto simp: expire_def now_def split: if_splits)

lemma expire_error: "expire e r n = (Inl x, r', n') \<Longrightarrow> r' = r \<and> \<not> tz_aware (clock_at e n)"
  by (auto simp: expire_def now_def split: if_splits)

lemma expire_all_ledger:
  "expire_all e rs n = (m, rs', n') \<Longrightarrow>
   case m of Inl x \<Rightarrow> attached_in rs' \<subseteq># attached_in rs
   | Inr cs \<Rightarrow> attached_in rs' + mset cs = attached_in rs"
proof (induction rs arbitrary: n m rs' n')
  case Nil
  then show ?case by auto
next
  case (Cons p rs)
  obtain i r where p: "p = (i, r)" by (cases p)
  obtain m1 r1 n1 where ex: "expire e r n = (m1, r1, n1)" using prod_cases3 by blast
  show ?case
  proof (cases m1)
    case (Inl x)
    with Cons.prems ex expire_error[of e r n x r1 n1] show ?thesis by (auto simp: p)
  next
    case (Inr c)
    obtain m2 rs2 n2 where ea: "expire_all e rs n1 = (m2, rs2, n2)" using prod_cases3 by blast
    note led = expire_ledger[OF ex[unfolded Inr]] and IH = Cons.IH[OF ea]
    show ?thesis
    proof (cases m2)
      case (Inl x)
      have "opt_mset (rec_cursor r1) \<subseteq># opt_mset (rec_cursor r)"
        by (simp flip: led)
      with IH Cons.prems ex Inr ea Inl show ?thesis
        by (auto simp: p intro: subset_mset.add_mono)
    next
      case (Inr cs)
      with IH Cons.prems ex \<open>m1 = Inr c\<close> ea led show ?thesis
        by (auto simp: p ac_simps simp flip: led split: option.splits)
    qed
  qed
qed

lemma expire_all_aware:
  assumes "\<And>n. tz_aware (clock_at e n)"
  shows "expire_all e rs n = (m, rs', n') \<Longrightarrow> is_ok m"
proof (induction rs arbitrary: n m rs' n')
  case Nil
  then show ?case by auto
next
  case (Cons p rs)
  then show ?case
    using expire_error assms by (cases p) (fastforce split: prod.splits sum.splits)
qed

text \<open>
  A call through \<open>_locked_record\<close> changes the ledger only by what its body does to the one
  record; where the body does not run nothing changes.
\<close>

lemma locked_record_ledger:
  assumes "locked_record e i body b = (res, b')" and "distinct (keys (records b))"
  shows "cursor_ledger b' = cursor_ledger b \<and> (\<exists>x. res = Inl x) \<or>
    (\<exists>r1 r2. body r1 = (res, r2) \<and> map_of (records b') i = Some r2 \<and>
       cursor_ledger b' + opt_mset (rec_cursor r1) = cursor_ledger b + opt_mset (rec_cursor r2))"
  using assms(1)
proof (cases rule: locked_record_cases)
  case (ran r c r1 n r2)
  have "cursor_ledger b' + opt_mset (rec_cursor r1) = cursor_ledger b + opt_mset (rec_cursor r2)"
    using attached_in_update[OF assms(2) ran(1), of r2] expire_ledger[OF ran(2)]
    by (cases c) (auto simp: ran(4) cursor_ledger_def ac_simps,
      metis add_mset_add_single union_assoc union_commute)+
  moreover have "map_of (records b') i = Some r2" by (simp add: ran(4) update_Some_unfold)
  ultimately show ?thesis using ran(3) by blast
qed (simp_all add: cursor_ledger_def)

text \<open>The cursors a call offers to the broker, and those it may take back from it.\<close>

fun offers :: "('s, 'c) broker_call \<Rightarrow> 'c multiset" where
  "offers (Register i c) = {#c#}"
| "offers _ = {#}"

fun takes_back :: "('s, 'c) broker_call \<Rightarrow> bool" where
  "takes_back (Release i c) = True"
| "takes_back (Publish i s) = True"
| "takes_back _ = False"

lemma with_cursor_cancelled_ledger:
  "cursor_ledger (snd (with_cursor_cancelled (out, b))) =
   cursor_ledger b + (case out of Inl x \<Rightarrow> {#} | Inr (c, v) \<Rightarrow> opt_mset c)"
  by (auto simp: with_cursor_cancelled_def cancel_opt_def cancel_quietly_def log_event_def
      cursor_ledger_def split: sum.splits option.splits prod.splits)

lemma end_body_ledger:
  assumes "out = locked_record e i body b" and "distinct (keys (records b))"
    and "\<And>r. case body r of (Inl x, r') \<Rightarrow> rec_cursor r' = rec_cursor r
              | (Inr (c, v), r') \<Rightarrow> opt_mset (rec_cursor r') + opt_mset c = opt_mset (rec_cursor r)"
  shows "cursor_ledger (snd (with_cursor_cancelled out)) = cursor_ledger b"
proof -
  obtain res b' where out: "out = (res, b')" by fastforce
  from locked_record_ledger[OF _ assms(2), of e i body res b'] assms(1) out
  consider "cursor_ledger b' = cursor_ledger b" "\<exists>x. res = Inl x"
    | r1 r2 where "body r1 = (res, r2)"
      "cursor_ledger b' + opt_mset (rec_cursor r1) = cursor_ledger b + opt_mset (rec_cursor r2)"
    by auto
  then show ?thesis
  proof cases
    case 1
    then show ?thesis by (auto simp: out with_cursor_cancelled_ledger)
  next
    case 2
    show ?thesis
    proof (cases res)
      case (Inl x)
      with assms(3)[of r1] 2 show ?thesis by (simp add: out with_cursor_cancelled_ledger)
    next
      case (Inr cv)
      obtain c v where cv: "cv = (c, v)" by (cases cv)
      have "opt_mset (rec_cursor r1) = opt_mset (rec_cursor r2) + opt_mset c"
        using assms(3)[of r1] 2(1) by (simp add: Inr cv)
      with 2(2) have "cursor_ledger b' + opt_mset c = cursor_ledger b" by (simp add: ac_simps)
      then show ?thesis by (simp add: out with_cursor_cancelled_ledger Inr cv)
    qed
  qed
qed

lemma plain_body_ledger:
  assumes "locked_record e i body b = (res, b')" and "distinct (keys (records b))"
    and "\<And>r. opt_mset (rec_cursor (snd (body r))) \<subseteq># opt_mset (rec_cursor r)"
  shows "cursor_ledger b' \<subseteq># cursor_ledger b"
  using locked_record_ledger[OF assms(1,2)]
proof (elim disjE exE conjE)
  fix r1 r2
  assume r: "body r1 = (res, r2)"
    "cursor_ledger b' + opt_mset (rec_cursor r1) = cursor_ledger b + opt_mset (rec_cursor r2)"
  have "opt_mset (rec_cursor r2) \<subseteq># opt_mset (rec_cursor r1)" using assms(3)[of r1] r(1) by simp
  then obtain d where "opt_mset (rec_cursor r1) = opt_mset (rec_cursor r2) + d"
    by (auto simp: subset_mset.le_iff_add)
  with r(2) have "cursor_ledger b' + d = cursor_ledger b" by (simp add: ac_simps)
  then show ?thesis by (auto simp: subset_mset.le_iff_add intro: sym)
qed simp

lemma same_body_ledger:
  assumes "locked_record e i body b = (res, b')" and "distinct (keys (records b))"
    and "\<And>r. rec_cursor (snd (body r)) = rec_cursor r"
  shows "cursor_ledger b' = cursor_ledger b"
  using locked_record_ledger[OF assms(1,2)] assms(3) by (metis add_right_cancel snd_conv)

lemma reader_ledger:
  assumes "distinct (keys (records b))"
  shows "cursor_ledger (snd (get_request e i b)) = cursor_ledger b"
    and "cursor_ledger (snd (open_source e i b)) = cursor_ledger b"
  unfolding get_request_def open_source_def
  by (rule same_body_ledger[OF prod.collapse[symmetric] assms];
      simp add: open_body_def split: option.splits)+

lemma cancel_quietly_ledger [simp]:
  "cursor_ledger (cancel_quietly c b) = cursor_ledger b + {#c#}"
  by (simp add: cursor_ledger_def cancel_quietly_def log_event_def)

lemma register_cursor_ledger:
  fixes b :: "('s, 'c) broker"
  assumes "distinct (keys (records b))"
  shows "cursor_ledger (snd (register_cursor e i c b)) \<subseteq># cursor_ledger b + {#c#}"
    and "fst (register_cursor e i c b) \<noteq> Inl ValueError \<Longrightarrow>
      cursor_ledger (snd (register_cursor e i c b)) = cursor_ledger b + {#c#}"
proof -
  obtain res b' where lr: "locked_record e i (register_body c) b = (res, b')" by fastforce
  from locked_record_ledger[OF lr assms]
  consider (same) x where "cursor_ledger b' = cursor_ledger b" "res = Inl x"
    | (ran) r1 r2 :: "('s, 'c) request_record" where "register_body c r1 = (res, r2)"
      "cursor_ledger b' + opt_mset (rec_cursor r1) = cursor_ledger b + opt_mset (rec_cursor r2)"
    by blast
  then have "cursor_ledger (snd (register_cursor e i c b)) = cursor_ledger b + {#c#} \<or>
    cursor_ledger (snd (register_cursor e i c b)) = cursor_ledger b \<and>
    (\<exists>x. fst (register_cursor e i c b) = Inl x \<and> x \<noteq> RequestUnavailable \<and>
       fst (locked_record e i (register_body c) b) = Inl x)"
  proof cases
    case same
    then show ?thesis by (auto simp: register_cursor_def lr)
  next
    case ran
    then show ?thesis
      by (auto simp: register_cursor_def lr register_body_def Let_def split: if_splits)
  qed
  moreover have "x = ValueError \<or> x = RequestUnavailable"
    if "fst (locked_record e i (register_body c) b) = Inl x" for x
    using that by (auto simp: locked_record_def Let_def log_event_def expire_def now_def
        register_body_def split: option.splits if_splits)
  ultimately show "cursor_ledger (snd (register_cursor e i c b)) \<subseteq># cursor_ledger b + {#c#}"
    and "fst (register_cursor e i c b) \<noteq> Inl ValueError \<Longrightarrow>
      cursor_ledger (snd (register_cursor e i c b)) = cursor_ledger b + {#c#}"
    by auto
qed

section \<open>Submission and listing\<close>

lemma enter_exit_ledger:
  assumes "enter_records e b = (m, b1)" and "attached_in (records b2) \<subseteq># attached_in (records b1)"
    and "trace b2 = trace b1"
  shows "cursor_ledger (exit_records (case m of Inl x \<Rightarrow> [] | Inr cs \<Rightarrow> cs) b2) \<subseteq># cursor_ledger b"
    and "is_ok m \<Longrightarrow> attached_in (records b2) = attached_in (records b1) \<Longrightarrow>
      cursor_ledger (exit_records (case m of Inl x \<Rightarrow> [] | Inr cs \<Rightarrow> cs) b2) = cursor_ledger b"
proof -
  obtain rs n where ex: "expire_all e (records b) (clock_reads b) = (m, rs, n)"
    and b1: "records b1 = rs" "trace b1 = trace b @ [Lock_acquired]"
    using assms(1) by (auto simp: enter_records_eq split: prod.splits)
  let ?cs = "case m of Inl x \<Rightarrow> [] | Inr cs \<Rightarrow> cs"
  have led: "cursor_ledger (exit_records ?cs b2) =
      attached_in (records b2) + mset ?cs + mset (cancel_calls (trace b))"
    by (simp add: cursor_ledger_def exit_records_eq assms(3) b1(2))
  have le: "attached_in rs + mset ?cs \<subseteq># attached_in (records b)"
    using expire_all_ledger[OF ex] by (cases m) auto
  have "attached_in (records b2) + mset ?cs \<subseteq># attached_in (records b)"
    using assms(2) le by (auto simp: b1(1) intro: subset_mset.order_trans subset_mset.add_right_mono)
  then show "cursor_ledger (exit_records ?cs b2) \<subseteq># cursor_ledger b"
    by (simp only: led) (simp add: cursor_ledger_def)
  show "cursor_ledger (exit_records ?cs b2) = cursor_ledger b"
    if "is_ok m" and "attached_in (records b2) = attached_in (records b1)"
    unfolding led using expire_all_ledger[OF ex] that
    by (cases m) (auto simp: cursor_ledger_def b1(1))
qed

lemma submit_body_attached:
  assumes "submit_body e ttl b = Some (res, b')" and "store_inv b"
  shows "attached_in (records b') = attached_in (records b)"
proof (cases "at_pending_capacity b")
  case True
  with assms show ?thesis by (simp add: submit_body_def)
next
  case False
  obtain m b1 where mr: "make_room b = (m, b1)" by fastforce
  have b1: "attached_in (records b1) = attached_in (records b)"
    using mr
  proof (cases rule: make_room_cases)
    case (evicted i r)
    have "rec_cursor r' = None" if "(i, r') \<in> set (records b)" for r'
    proof -
      have "r' = r"
        using that evicted(4) assms(2) eq_key_imp_eq_value[of "records b" i r' r]
        by (simp add: store_inv_def)
      moreover have "wf_record r" using evicted(4) assms(2) by (auto simp: store_inv_def)
      ultimately show ?thesis using evicted(5) by (auto simp: wf_record_def evictable_def)
    qed
    then show ?thesis by (simp add: evicted(2) attached_in_delete_none)
  qed simp_all
  show ?thesis
  proof (cases m)
    case (Inl x)
    with assms(1) False mr b1 show ?thesis by (simp add: submit_body_def)
  next
    case (Inr u)
    with assms(1) False mr obtain i k where
      nid: "new_request_id (entropy_at e) (keys (records b1)) (tokens_drawn b1) = Some (i, k)"
      and ins: "insert_pending e ttl i (b1\<lparr>tokens_drawn := k\<rparr>) = (res, b')"
      by (auto simp: submit_body_def split: option.splits)
    have "i \<notin> set (keys (records b1))" using new_request_id_fresh[OF nid] by blast
    with ins have "attached_in (records b') = attached_in (records b1)"
      by (auto simp: insert_pending_def Let_def keys_update_fresh split: prod.splits sum.splits)
    with b1 show ?thesis by simp
  qed
qed

lemma broker_submit_ledger:
  assumes "broker_submit e ttl b = Some (res, b')" and "broker_inv b"
  shows "cursor_ledger b' \<subseteq># cursor_ledger b"
    and "(\<And>n. tz_aware (clock_at e n)) \<Longrightarrow> cursor_ledger b' = cursor_ledger b"
proof -
  have "cursor_ledger b' \<subseteq># cursor_ledger b \<and>
    ((\<forall>n. tz_aware (clock_at e n)) \<longrightarrow> cursor_ledger b' = cursor_ledger b)"
  proof (cases "ttl \<le> 0")
    case True
    with assms show ?thesis by (simp add: broker_submit_def)
  next
    case False
    obtain m b1 where en: "enter_records e b = (m, b1)" by fastforce
    have aware: "is_ok m" if "\<forall>n. tz_aware (clock_at e n)"
      using en expire_all_aware[of e] that by (auto simp: enter_records_eq split: prod.splits)
    show ?thesis
    proof (cases m)
      case (Inl x)
      with assms(1) False en have "b' = exit_records [] b1" by (simp add: broker_submit_def)
      with enter_exit_ledger(1)[OF en, of b1] Inl aware show ?thesis by auto
    next
      case (Inr cs)
      with assms(1) False en obtain b2 where sb: "submit_body e ttl b1 = Some (res, b2)"
        and b': "b' = exit_records cs b2" by (auto simp: broker_submit_def)
      have inv: "store_inv b1"
        using enter_records_store_inv[OF en] assms(2) by (simp add: broker_inv_def)
      have "trace b2 = trace b1" using submit_body_inv[OF sb inv] by simp
      with submit_body_attached[OF sb inv] enter_exit_ledger[OF en, of b2] show ?thesis
        by (simp add: Inr b')
    qed
  qed
  then show "cursor_ledger b' \<subseteq># cursor_ledger b"
    and "(\<And>n. tz_aware (clock_at e n)) \<Longrightarrow> cursor_ledger b' = cursor_ledger b" by auto
qed

lemma list_requests_ledger:
  assumes "list_requests e b = (res, b')"
  shows "cursor_ledger b' \<subseteq># cursor_ledger b"
    and "(\<And>n. tz_aware (clock_at e n)) \<Longrightarrow> cursor_ledger b' = cursor_ledger b"
proof -
  obtain m b1 where en: "enter_records e b = (m, b1)" by fastforce
  have b': "b' = exit_records (case m of Inl x \<Rightarrow> [] | Inr cs \<Rightarrow> cs) b1"
    using assms en by (auto simp: list_requests_def split: sum.splits)
  then show "cursor_ledger b' \<subseteq># cursor_ledger b"
    using enter_exit_ledger(1)[OF en, of b1] by simp
  assume "\<And>n. tz_aware (clock_at e n)"
  then have "is_ok m"
    using en expire_all_aware[of e] by (auto simp: enter_records_eq split: prod.splits)
  then show "cursor_ledger b' = cursor_ledger b"
    using enter_exit_ledger(2)[OF en, of b1] by (simp add: b')
qed

section \<open>Any call\<close>

lemma ending_bodies:
  "case fail_body r of (Inl x, r') \<Rightarrow> rec_cursor r' = rec_cursor r
   | (Inr (c, v), r') \<Rightarrow> opt_mset (rec_cursor r') + opt_mset c = opt_mset (rec_cursor r)"
  "case cancel_body r of (Inl x, r') \<Rightarrow> rec_cursor r' = rec_cursor r
   | (Inr (c, v), r') \<Rightarrow> opt_mset (rec_cursor r') + opt_mset c = opt_mset (rec_cursor r)"
  by (auto simp: fail_body_def cancel_body_def Let_def)

lemma broker_exec_ledger:
  assumes "broker_exec e q b = Some b'" and "broker_inv b"
  shows "cursor_ledger b' \<subseteq># cursor_ledger b + offers q"
proof -
  note dist = broker_inv_distinct[OF assms(2)]
  show ?thesis
  proof (cases q)
    case (Submit ttl)
    with assms show ?thesis by (auto intro: broker_submit_ledger(1))
  next
    case (Register i c)
    with assms register_cursor_ledger(1)[OF dist] show ?thesis by auto
  next
    case (Release i c)
    have "opt_mset (rec_cursor (snd (release_body c r))) \<subseteq># opt_mset (rec_cursor r)" for r
      by (simp add: release_body_def)
    with plain_body_ledger[OF prod.collapse[symmetric] dist] assms(1) show ?thesis
      by (auto simp: Release release_cursor_def)
  next
    case (Publish i s)
    have "opt_mset (rec_cursor (snd (publish_body s r))) \<subseteq># opt_mset (rec_cursor r)" for r
      by (simp add: publish_body_def Let_def)
    with plain_body_ledger[OF prod.collapse[symmetric] dist] assms(1) show ?thesis
      by (auto simp: Publish publish_def)
  next
    case (Fail i)
    with assms(1) end_body_ledger[OF refl dist ending_bodies(1)] show ?thesis
      by (auto simp: broker_fail_def)
  next
    case (Cancel i)
    with assms(1) end_body_ledger[OF refl dist ending_bodies(2)] show ?thesis
      by (auto simp: broker_cancel_def)
  next
    case List_all
    with assms(1) list_requests_ledger(1)[OF prod.collapse[symmetric]] show ?thesis by auto
  next
    case (Get i)
    with assms(1) reader_ledger(1)[OF dist] show ?thesis by auto
  next
    case (Open i)
    with assms(1) reader_ledger(2)[OF dist] show ?thesis by auto
  qed
qed

lemma broker_exec_ledger_eq:
  assumes "broker_exec e q b = Some b'" and "broker_inv b" and "\<And>n. tz_aware (clock_at e n)"
    and "\<not> takes_back q"
  shows "cursor_ledger b' = cursor_ledger b + offers q"
proof -
  note dist = broker_inv_distinct[OF assms(2)]
  show ?thesis
  proof (cases q)
    case (Submit ttl)
    with assms show ?thesis by (auto intro: broker_submit_ledger(2))
  next
    case (Register i c)
    have "fst (register_cursor e i c b) \<noteq> Inl ValueError"
      using assms(3)
      by (auto simp: register_cursor_def locked_record_def Let_def log_event_def expire_def now_def
          register_body_def split: option.splits)
    with assms(1) register_cursor_ledger(2)[OF dist] show ?thesis by (auto simp: Register)
  next
    case (Fail i)
    with assms(1) end_body_ledger[OF refl dist ending_bodies(1)] show ?thesis
      by (auto simp: broker_fail_def)
  next
    case (Cancel i)
    with assms(1) end_body_ledger[OF refl dist ending_bodies(2)] show ?thesis
      by (auto simp: broker_cancel_def)
  next
    case List_all
    with assms(1,3) list_requests_ledger(2)[OF prod.collapse[symmetric], of e b] show ?thesis by auto
  next
    case (Get i)
    with assms(1) reader_ledger(1)[OF dist] show ?thesis by auto
  next
    case (Open i)
    with assms(1) reader_ledger(2)[OF dist] show ?thesis by auto
  qed (use assms(4) in simp_all)
qed

lemma broker_run_ledger:
  "broker_run e qs b = Some b' \<Longrightarrow> broker_inv b \<Longrightarrow>
   cursor_ledger b' \<subseteq># cursor_ledger b + sum_list (map offers qs)"
proof (induction qs arbitrary: b)
  case Nil
  then show ?case by simp
next
  case (Cons q qs)
  then obtain b1 where b1: "broker_exec e q b = Some b1" "broker_run e qs b1 = Some b'"
    by (auto split: option.splits)
  have "cursor_ledger b' \<subseteq># cursor_ledger b1 + sum_list (map offers qs)"
    by (rule Cons.IH[OF b1(2) broker_exec_inv[OF b1(1) Cons.prems(2)]])
  also have "\<dots> \<subseteq># (cursor_ledger b + offers q) + sum_list (map offers qs)"
    by (rule subset_mset.add_right_mono[OF broker_exec_ledger[OF b1(1) Cons.prems(2)]])
  finally show ?case by (simp add: ac_simps)
qed

text \<open>
  Over any history of a newly built broker, a driver cursor is told to cancel at most
  as often as it was offered by \<open>register_cursor\<close>: a cursor offered once is cancelled at most once,
  however cancellation, failure, expiry and late registration interleave.
\<close>

theorem cursor_cancelled_at_most_once_per_offer:
  assumes "broker_init ttl pending capacity = Inr b0" and "broker_run e qs b0 = Some b"
  shows "mset (cancel_calls (trace b)) \<subseteq># sum_list (map offers qs)"
proof -
  have "cursor_ledger b0 = {#}"
    using assms(1) by (auto simp: broker_init_def cursor_ledger_def split: if_splits option.splits)
  with broker_run_ledger[OF assms(2) broker_init_inv[OF assms(1)]]
  have "cursor_ledger b \<subseteq># sum_list (map offers qs)" by simp
  then show ?thesis
    unfolding cursor_ledger_def by (rule subset_mset.order_trans[OF mset_subset_eq_add_right])
qed

theorem cursor_cancelled_at_most_once_per_offer_witness:
  "\<exists>b :: (nat, nat) broker.
     broker_run steady_env [Submit (seconds 60), Register sample_id 7, Cancel sample_id,
       Register sample_id 8, Fail sample_id] sample_broker = Some b \<and>
     cancel_calls (trace b) = [7, 8] \<and> mset (cancel_calls (trace b)) \<subseteq># {#7, 8#}"
proof -
  let ?qs = "[Submit (seconds 60), Register sample_id 7, Cancel sample_id,
       Register sample_id 8, Fail sample_id] :: (nat, nat) broker_call list"
  have i: "broker_init (minutes 5) (Some 1) (Some 2) = Inr sample_broker"
    by (simp add: broker_init_def sample_broker_def minutes_def seconds_def)
  have "map_option (\<lambda>b. cancel_calls (trace b)) (broker_run steady_env ?qs sample_broker) = Some [7, 8]"
    by code_simp
  then obtain b where b: "broker_run steady_env ?qs sample_broker = Some b"
    "cancel_calls (trace b) = [7, 8]" by blast
  from cursor_cancelled_at_most_once_per_offer[OF i b(1)] b show ?thesis by auto
qed

text \<open>
  Property C23.  Under a time-zone-aware clock no cursor is lost: any call but \<open>release_cursor\<close> and
  \<open>publish\<close> (which give the cursor back to its owner) leaves every cursor it knew or was offered
  either attached to a record or told to cancel, and none both or twice.
\<close>

theorem cursor_never_dropped:
  assumes "broker_inv b" and "broker_exec e q b = Some b'" and "\<And>n. tz_aware (clock_at e n)"
    and "\<not> takes_back q"
  shows "attached_in (records b') + mset (cancel_calls (trace b')) =
    attached_in (records b) + mset (cancel_calls (trace b)) + offers q"
  using broker_exec_ledger_eq[OF assms(2,1,3,4)] by (simp add: cursor_ledger_def)

theorem cursor_never_dropped_witness:
  "\<exists>b'. broker_inv (sample_after [Submit (seconds 60), Register sample_id 7]) \<and>
     attached_in (records (sample_after [Submit (seconds 60), Register sample_id 7])) = {#7#} \<and>
     broker_exec steady_env (Cancel sample_id)
       (sample_after [Submit (seconds 60), Register sample_id 7]) = Some b' \<and>
     attached_in (records b') + mset (cancel_calls (trace b')) = {#7#} \<and>
     cancel_calls (trace b') = [7]"
proof -
  let ?b = "sample_after [Submit (seconds 60), Register sample_id 7]"
  let ?b' = "snd (broker_cancel steady_env sample_id ?b)"
  have ex: "broker_exec steady_env (Cancel sample_id) ?b = Some ?b'" by simp
  have "map (rec_cursor \<circ> snd) (records ?b) = [Some 7]" by code_simp
  then have att: "attached_in (records ?b) = {#7#}" by (auto simp: map_eq_Cons_conv)
  have none: "cancel_calls (trace ?b) = []" by code_simp
  have calls: "cancel_calls (trace ?b') = [7]" by code_simp
  have "tz_aware (clock_at steady_env n)" for n by (simp add: steady_env_def)
  from cursor_never_dropped[OF sample_after_inv ex this] att none calls ex sample_after_inv
  show ?thesis by simp
qed

definition register_outcome ::
  "string \<Rightarrow> 'c \<Rightarrow> ('s, 'c) broker \<Rightarrow> request_view result \<times> ('s, 'c) broker \<Rightarrow> bool" where
  "register_outcome i c b out =
     (case fst out of
        Inr v \<Rightarrow> (\<exists>r. map_of (records (snd out)) i = Some r \<and> v = record_view r \<and>
            rec_status r = PENDING \<and> rec_cursor r = Some c) \<and>
          (\<exists>r0. map_of (records b) i = Some r0 \<and> rec_cursor r0 = None) \<and>
          cancel_calls (trace (snd out)) = cancel_calls (trace b)
      | Inl x \<Rightarrow> x = RequestUnavailable \<and> last (trace (snd out)) = Driver_cancel c \<or> x = ValueError)"

text \<open>
  Registering a cursor either attaches it, alone, to work that is still pending, or
  reports \<open>RequestUnavailable\<close> having told the driver to cancel it last of all; the only other
  outcome is the \<open>ValueError\<close> of a clock without time zone.
\<close>

theorem register_attaches_or_cancels:
  "register_outcome i c b (register_cursor e i c b)"
proof -
  obtain res b' where lr: "locked_record e i (register_body c) b = (res, b')" by fastforce
  from lr show ?thesis
  proof (cases rule: locked_record_cases)
    case unknown
    then show ?thesis
      by (auto simp: register_outcome_def register_cursor_def lr cancel_quietly_def log_event_def)
  next
    case (clock r x n)
    then have "x = ValueError" by (auto simp: expire_def now_def split: if_splits)
    then show ?thesis using clock by (simp add: register_outcome_def register_cursor_def lr)
  next
    case (ran r c0 r1 n r2)
    show ?thesis
    proof (cases "rec_status r1 = PENDING \<and> rec_cursor r1 = None")
      case True
      then have same: "c0 = None" "r1 = r"
        using ran(2) by (auto simp: expire_def now_def split: if_splits)
      with True ran show ?thesis
        by (auto simp: register_outcome_def register_cursor_def lr register_body_def Let_def
            update_Some_unfold)
    next
      case False
      with ran(3) have "res = Inr None" by (auto simp: register_body_def)
      then show ?thesis
        by (simp add: register_outcome_def register_cursor_def lr cancel_quietly_def log_event_def)
    qed
  qed
qed

section \<open>The identifier loop ends\<close>

lemma new_request_id_skips:
  assumes "token_urlsafe (entropy (n + d)) \<notin> set used"
  shows "\<exists>i k. new_request_id entropy used n = Some (i, k) \<and> k \<le> Suc (n + d)"
  using assms
proof (induction d arbitrary: n)
  case 0
  then show ?case by (subst new_request_id.simps) simp
next
  case (Suc d)
  show ?case
  proof (cases "token_urlsafe (entropy n) \<in> set used")
    case True
    from Suc.IH[of "Suc n"] Suc.prems True show ?thesis
      by (subst new_request_id.simps) simp
  next
    case False
    then show ?thesis by (subst new_request_id.simps) simp
  qed
qed

lemma new_request_id_returns:
  assumes "inj_on (\<lambda>k. token_urlsafe (entropy k)) {n..n + length used}"
  shows "\<exists>i k. new_request_id entropy used n = Some (i, k) \<and> k \<le> Suc (n + length used)"
proof -
  let ?T = "(\<lambda>k. token_urlsafe (entropy k)) ` {n..n + length used}"
  have "card ?T = Suc (length used)" using card_image[OF assms] by simp
  moreover have "card (set used) \<le> length used" by (rule card_length)
  ultimately have "\<not> ?T \<subseteq> set used" using card_mono[of "set used" ?T] by auto
  then have "\<exists>k \<in> {n..n + length used}. token_urlsafe (entropy k) \<notin> set used" by blast
  then obtain k where k: "n \<le> k" "k \<le> n + length used" "token_urlsafe (entropy k) \<notin> set used"
    by auto
  with new_request_id_skips[of entropy n "k - n" used] show ?thesis by fastforce
qed

text \<open>
  Property C40.  A submission returns: the loop that draws identifiers ends after at most one draw
  more than there are records, provided the entropy source does not repeat a block of 18 bytes
  within that many draws.
\<close>

theorem submit_terminates:
  assumes "\<And>n. length (entropy_at e n) = 18"
    and "inj_on (entropy_at e) {tokens_drawn b..tokens_drawn b + length (records b)}"
    and "broker_inv b"
  shows "broker_submit e ttl b \<noteq> None"
proof -
  obtain m b1 where en: "enter_records e b = (m, b1)" by fastforce
  have b1: "tokens_drawn b1 = tokens_drawn b" "length (records b1) = length (records b)"
    using en by (auto simp: enter_records_eq split: prod.splits
        dest!: expire_all_evolves odict_rel_length)
  have inj: "inj_on (\<lambda>k. token_urlsafe (entropy_at e k)) {tokens_drawn b..tokens_drawn b + length (records b)}"
    using assms(2) token_urlsafe_inj[OF assms(1) assms(1)] by (simp add: inj_on_def)
  have "submit_body e ttl b1 \<noteq> None"
  proof (cases "make_room b1")
    case (Pair m2 b2)
    then have b2: "tokens_drawn b2 = tokens_drawn b" "length (records b2) \<le> length (records b)"
      using b1 length_filter_le[of _ "records b1"]
      by (cases rule: make_room_cases; simp add: AList.delete_eq)+
    have "new_request_id (entropy_at e) (keys (records b2)) (tokens_drawn b2) \<noteq> None"
    proof -
      have "inj_on (\<lambda>k. token_urlsafe (entropy_at e k))
          {tokens_drawn b2..tokens_drawn b2 + length (keys (records b2))}"
        by (rule inj_on_subset[OF inj]) (use b2 in auto)
      from new_request_id_returns[OF this] show ?thesis by auto
    qed
    with Pair show ?thesis by (auto simp: submit_body_def split: sum.splits option.splits)
  qed
  with en show ?thesis by (auto simp: broker_submit_def split: sum.splits)
qed

theorem submit_terminates_witness:
  "broker_inv (sample_after [Submit (seconds 60), Fail sample_id]) \<and>
   length (records (sample_after [Submit (seconds 60), Fail sample_id])) = 1 \<and>
   broker_submit steady_env (seconds 9) (sample_after [Submit (seconds 60), Fail sample_id]) \<noteq> None"
proof -
  let ?b = "sample_after [Submit (seconds 60), Fail sample_id]"
  have t: "tokens_drawn ?b = 1" and l: "length (records ?b) = 1" by code_simp+
  have len: "length (entropy_at steady_env n) = 18" for n by (simp add: steady_env_def)
  have "{tokens_drawn ?b..tokens_drawn ?b + length (records ?b)} = {1, 2}"
    unfolding t l by auto
  then have inj: "inj_on (entropy_at steady_env)
      {tokens_drawn ?b..tokens_drawn ?b + length (records ?b)}"
    by (simp add: steady_env_def)
  from submit_terminates[OF len inj sample_after_inv] l sample_after_inv show ?thesis by simp
qed

end
