(* ===== verification/Arrow_Stream.thy ===== *)
theory Arrow_Stream
  imports Tokens
begin

text \<open>
  Arrow admission and IPC serialisation (\<open>src/snowglobe/arrow_stream.py\<close>).  PyArrow is not part
  of the program: an Arrow object is the record of what the source reads of it, two schemas are
  equal when these records are (\<open>'m\<close> stands for names and metadata, \<open>'x\<close> for a batch's values),
  and the IPC writer is an argument that says which chunks each of its calls writes to the sink.
\<close>

section \<open>Arrow objects\<close>

record data_type =
  is_null :: bool
  is_boolean :: bool
  is_binary :: bool
  is_large_binary :: bool
  is_string :: bool
  is_large_string :: bool
  is_fixed_size_binary :: bool
  is_integer :: bool
  is_floating :: bool
  is_decimal :: bool
  is_date :: bool
  is_time :: bool
  is_timestamp :: bool
  is_duration :: bool
  byte_width :: nat
  bit_width :: nat

text \<open>\<open>col_offsets\<close> is \<open>column.buffers()[1]\<close>, the offsets buffer of a variable-width column.\<close>

record column =
  col_type :: data_type
  col_length :: nat
  col_offset :: nat
  col_offsets :: "byte list option"

record 'm schema =
  schema_types :: "data_type list"
  schema_rest :: 'm

record ('m, 'x) batch =
  batch_schema :: "'m schema"
  num_rows :: nat
  nbytes :: nat
  columns :: "column list"
  batch_values :: 'x

text \<open>What an iterator of batches yields: a record batch or some other object.\<close>

datatype ('m, 'x) py_object = Record_batch "('m, 'x) batch" | Other_object nat

section \<open>Limits\<close>

record limits =
  maximum_rows :: int
  maximum_columns :: int
  maximum_cell_bytes :: int
  maximum_arrow_bytes :: int
  maximum_decoded_bytes :: int

definition new_limits :: "int \<Rightarrow> int \<Rightarrow> int \<Rightarrow> int \<Rightarrow> int \<Rightarrow> limits result" where
  "new_limits rows cols cell arrow decoded =
     (if min (min (min (min rows cols) cell) arrow) decoded \<le> 0 then Inl ValueError
      else Inr \<lparr>maximum_rows = rows, maximum_columns = cols, maximum_cell_bytes = cell,
                maximum_arrow_bytes = arrow, maximum_decoded_bytes = decoded\<rparr>)"

section \<open>The chunk sink\<close>

record chunk_sink =
  sink_chunks :: "byte list list"
  sink_position :: nat
  sink_closed :: bool

definition new_sink :: chunk_sink where
  "new_sink = \<lparr>sink_chunks = [], sink_position = 0, sink_closed = False\<rparr>"

definition sink_write :: "byte list \<Rightarrow> chunk_sink \<Rightarrow> nat \<times> chunk_sink" where
  "sink_write chunk s =
     (length chunk,
      s\<lparr>sink_chunks := sink_chunks s @ [chunk], sink_position := sink_position s + length chunk\<rparr>)"

definition sink_tell :: "chunk_sink \<Rightarrow> nat" where "sink_tell s = sink_position s"

definition sink_writable :: "chunk_sink \<Rightarrow> bool" where "sink_writable s = True"

definition sink_close :: "chunk_sink \<Rightarrow> chunk_sink" where
  "sink_close s = s\<lparr>sink_closed := True\<rparr>"

definition sink_drain :: "chunk_sink \<Rightarrow> byte list \<times> chunk_sink" where
  "sink_drain s = (concat (sink_chunks s), s\<lparr>sink_chunks := []\<rparr>)"

text \<open>The writer calls \<open>write\<close> once per chunk.\<close>

definition sink_write_all :: "byte list list \<Rightarrow> chunk_sink \<Rightarrow> chunk_sink" where
  "sink_write_all chunks s = fold (\<lambda>c s'. snd (sink_write c s')) chunks s"

section \<open>Cell sizes\<close>

text \<open>\<open>None\<close> is a variable width; an unsupported type is refused.\<close>

definition cell_width :: "data_type \<Rightarrow> nat option result" where
  "cell_width t =
     (if is_null t then Inr (Some 0)
      else if is_boolean t then Inr (Some 1)
      else if is_binary t \<or> is_large_binary t \<or> is_string t \<or> is_large_string t then Inr None
      else if is_fixed_size_binary t then Inr (Some (byte_width t))
      else if is_integer t \<or> is_floating t \<or> is_decimal t \<or> is_date t \<or> is_time t \<or>
              is_timestamp t \<or> is_duration t then Inr (Some ((bit_width t + 7) div 8))
      else Inl ArrowAdmissionError)"

text \<open>\<open>struct.unpack_from("<i" / "<q", buffer, position)\<close>: two's complement, little endian.\<close>

fun le_value :: "byte list \<Rightarrow> nat" where
  "le_value [] = 0"
| "le_value (b # bs) = unat b + 256 * le_value bs"

definition signed_value :: "nat \<Rightarrow> nat \<Rightarrow> int" where
  "signed_value width n =
     (if n < 2 ^ (8 * width - 1) then int n else int n - 2 ^ (8 * width))"

definition unpack_from :: "nat \<Rightarrow> byte list \<Rightarrow> nat \<Rightarrow> int result" where
  "unpack_from width buf pos =
     (if pos + width \<le> length buf
      then Inr (signed_value width (le_value (take width (drop pos buf))))
      else Inl StructError)"

text \<open>The loop of \<open>_maximum_variable_cell_bytes\<close> over \<open>range(index, index + count)\<close>.\<close>

fun widest_cell :: "nat \<Rightarrow> byte list \<Rightarrow> nat \<Rightarrow> nat \<Rightarrow> int \<Rightarrow> int result" where
  "widest_cell width buf index 0 widest = Inr widest"
| "widest_cell width buf index (Suc left) widest =
     then_do (unpack_from width buf (index * width)) (\<lambda>start.
     then_do (unpack_from width buf ((index + 1) * width)) (\<lambda>end'.
       if end' < start then Inl ArrowAdmissionError
       else widest_cell width buf (index + 1) left (max widest (end' - start))))"

definition offset_width :: "data_type \<Rightarrow> nat" where
  "offset_width t = (if is_large_binary t \<or> is_large_string t then 8 else 4)"

definition maximum_variable_cell_bytes :: "column \<Rightarrow> int result" where
  "maximum_variable_cell_bytes c =
     (if col_length c = 0 then Inr 0
      else (case col_offsets c of
              None \<Rightarrow> Inl ArrowAdmissionError
            | Some buf \<Rightarrow>
                widest_cell (offset_width (col_type c)) buf (col_offset c) (col_length c) 0))"

definition column_cell_bytes :: "column \<Rightarrow> int result" where
  "column_cell_bytes c =
     then_do (cell_width (col_type c)) (\<lambda>w.
       case w of Some n \<Rightarrow> Inr (int n) | None \<Rightarrow> maximum_variable_cell_bytes c)"

fun widest_column :: "column list \<Rightarrow> int \<Rightarrow> int result" where
  "widest_column [] widest = Inr widest"
| "widest_column (c # cs) widest =
     then_do (column_cell_bytes c) (\<lambda>n. widest_column cs (max widest n))"

definition batch_cell_bytes :: "('m, 'x) batch \<Rightarrow> int result" where
  "batch_cell_bytes b = widest_column (columns b) 0"

definition validate_schema :: "'m schema \<Rightarrow> limits \<Rightarrow> unit result" where
  "validate_schema s l =
     (if maximum_columns l < int (length (schema_types s)) then Inl ArrowAdmissionError
      else then_do (map_result cell_width (schema_types s)) (\<lambda>ws. Inr ()))"

section \<open>The IPC writer\<close>

text \<open>
  \<open>pa.ipc.new_stream\<close> and the methods of the writer it returns: the chunks a call writes to the
  sink, and whether it returns.  A call may depend on the batches written before it,
  \<open>close\<close> also on how often it was called before.
\<close>

record ('m, 'x) ipc_writer =
  ipc_new :: "'m schema \<Rightarrow> byte list list \<times> unit result"
  ipc_write :: "'m schema \<Rightarrow> ('m, 'x) batch list \<Rightarrow> ('m, 'x) batch \<Rightarrow> byte list list \<times> unit result"
  ipc_close :: "'m schema \<Rightarrow> ('m, 'x) batch list \<Rightarrow> nat \<Rightarrow> byte list list \<times> unit result"

section \<open>Incremental admission\<close>

text \<open>\<open>ad_written\<close> is the writer's history and \<open>ad_closes\<close> how often its \<open>close\<close> was called.\<close>

record ('m, 'x) admission_state =
  ad_schema :: "'m schema"
  ad_limits :: limits
  ad_sink :: chunk_sink
  ad_written :: "('m, 'x) batch list"
  ad_rows :: nat
  ad_decoded_bytes :: nat
  ad_arrow_bytes :: nat
  ad_closed :: bool
  ad_closes :: nat

definition new_admission ::
  "('m, 'x) ipc_writer \<Rightarrow> 'm schema \<Rightarrow> limits \<Rightarrow> ('m, 'x) admission_state result" where
  "new_admission w s l =
     then_do (validate_schema s l) (\<lambda>_.
       case ipc_new w s of
         (chunks, Inl x) \<Rightarrow> Inl x
       | (chunks, Inr _) \<Rightarrow>
           Inr \<lparr>ad_schema = s, ad_limits = l, ad_sink = sink_write_all chunks new_sink,
                ad_written = [], ad_rows = 0, ad_decoded_bytes = 0, ad_arrow_bytes = 0,
                ad_closed = False, ad_closes = 0\<rparr>)"

definition drain_within_limit ::
  "('m, 'x) admission_state \<Rightarrow> byte list result \<times> ('m, 'x) admission_state" where
  "drain_within_limit st =
     (case sink_drain (ad_sink st) of
        (chunk, sink') \<Rightarrow>
          (let st' = st\<lparr>ad_sink := sink', ad_arrow_bytes := ad_arrow_bytes st + length chunk\<rparr> in
           (if maximum_arrow_bytes (ad_limits st) < int (ad_arrow_bytes st')
            then Inl ArrowAdmissionError else Inr chunk, st')))"

definition writer_write ::
  "('m, 'x) ipc_writer \<Rightarrow> ('m, 'x) batch \<Rightarrow> ('m, 'x) admission_state \<Rightarrow>
   unit result \<times> ('m, 'x) admission_state"
where
  "writer_write w b st =
     (case ipc_write w (ad_schema st) (ad_written st) b of
        (chunks, res) \<Rightarrow>
          (res, st\<lparr>ad_sink := sink_write_all chunks (ad_sink st), ad_written := ad_written st @ [b]\<rparr>))"

definition writer_close ::
  "('m, 'x) ipc_writer \<Rightarrow> ('m, 'x) admission_state \<Rightarrow> unit result \<times> ('m, 'x) admission_state"
where
  "writer_close w st =
     (case ipc_close w (ad_schema st) (ad_written st) (ad_closes st) of
        (chunks, res) \<Rightarrow>
          (res, st\<lparr>ad_sink := sink_write_all chunks (ad_sink st), ad_closes := Suc (ad_closes st)\<rparr>))"

text \<open>
  The two counters are advanced before they are compared, and the cells are measured only when
  both are within bounds.
\<close>

definition admit ::
  "('m, 'x) ipc_writer \<Rightarrow> ('m, 'x) py_object \<Rightarrow> ('m, 'x) admission_state \<Rightarrow>
   byte list result \<times> ('m, 'x) admission_state"
where
  "admit w obj st =
     (if ad_closed st then (Inl ArrowAdmissionError, st)
      else (case obj of
              Other_object _ \<Rightarrow> (Inl ArrowAdmissionError, st)
            | Record_batch b \<Rightarrow>
                if batch_schema b \<noteq> ad_schema st then (Inl ArrowAdmissionError, st)
                else (let st1 = st\<lparr>ad_rows := ad_rows st + num_rows b,
                                  ad_decoded_bytes := ad_decoded_bytes st + nbytes b\<rparr>;
                          l = ad_limits st in
                  if maximum_rows l < int (ad_rows st1) \<or>
                     maximum_decoded_bytes l < int (ad_decoded_bytes st1)
                  then (Inl ArrowAdmissionError, st1)
                  else (case batch_cell_bytes b of
                          Inl x \<Rightarrow> (Inl x, st1)
                        | Inr n \<Rightarrow>
                            if maximum_cell_bytes l < n then (Inl ArrowAdmissionError, st1)
                            else (case writer_write w b st1 of
                                    (Inl x, st2) \<Rightarrow> (Inl x, st2)
                                  | (Inr _, st2) \<Rightarrow> drain_within_limit st2)))))"

definition finish ::
  "('m, 'x) ipc_writer \<Rightarrow> ('m, 'x) admission_state \<Rightarrow>
   byte list result \<times> ('m, 'x) admission_state"
where
  "finish w st =
     (if ad_closed st then (Inl ArrowAdmissionError, st)
      else (case writer_close w st of
              (Inl x, st1) \<Rightarrow> (Inl x, st1)
            | (Inr _, st1) \<Rightarrow> drain_within_limit (st1\<lparr>ad_closed := True\<rparr>)))"

definition admission_close ::
  "('m, 'x) ipc_writer \<Rightarrow> ('m, 'x) admission_state \<Rightarrow> unit result \<times> ('m, 'x) admission_state"
where
  "admission_close w st =
     (if ad_closed st then (Inr (), st) else writer_close w (st\<lparr>ad_closed := True\<rparr>))"

section \<open>Admitting a whole result\<close>

record ('m, 'x) batch_source =
  source_schema :: "'m schema"
  source_batches :: "('m, 'x) batch list"

text \<open>
  The iterator of batches is what each \<open>next\<close> answers: an object, or an exception that ends it;
  the end of the list is \<open>StopIteration\<close>.  The loop returns the batches admitted so far.
\<close>

fun admit_all ::
  "('m, 'x) ipc_writer \<Rightarrow> ('m, 'x) py_object result list \<Rightarrow> ('m, 'x) admission_state \<Rightarrow>
   ('m, 'x) batch list result \<times> ('m, 'x) admission_state"
where
  "admit_all w [] st = (Inr [], st)"
| "admit_all w (Inl x # items) st = (Inl x, st)"
| "admit_all w (Inr obj # items) st =
     (case admit w obj st of
        (Inl x, st1) \<Rightarrow> (Inl x, st1)
      | (Inr _, st1) \<Rightarrow>
          (case admit_all w items st1 of
             (Inl x, st2) \<Rightarrow> (Inl x, st2)
           | (Inr bs, st2) \<Rightarrow>
               (Inr (case obj of Record_batch b \<Rightarrow> b # bs | Other_object _ \<Rightarrow> bs), st2)))"

text \<open>
  The \<open>try\<close> body and its \<open>finally\<close>: an exception of \<open>close\<close> there replaces the one being raised.
  The final admission state is returned too, so that what was done to the writer is visible.
\<close>

definition admit_record_batches ::
  "('m, 'x) ipc_writer \<Rightarrow> 'm schema \<Rightarrow> ('m, 'x) py_object result list \<Rightarrow> limits \<Rightarrow>
   ('m, 'x) batch_source result \<times> ('m, 'x) admission_state option"
where
  "admit_record_batches w s items l =
     (case new_admission w s l of
        Inl x \<Rightarrow> (Inl x, None)
      | Inr st \<Rightarrow>
          (let body = (case admit_all w items st of
                         (Inl x, st1) \<Rightarrow> (Inl x, st1)
                       | (Inr bs, st1) \<Rightarrow>
                           (case finish w st1 of
                              (Inl x, st2) \<Rightarrow> (Inl x, st2)
                            | (Inr _, st2) \<Rightarrow> (Inr bs, st2))) in
           case body of
             (Inr bs, st2) \<Rightarrow> (Inr \<lparr>source_schema = s, source_batches = bs\<rparr>, Some st2)
           | (Inl x, st2) \<Rightarrow>
               (case admission_close w st2 of
                  (Inl y, st3) \<Rightarrow> (Inl y, Some st3)
                | (Inr _, st3) \<Rightarrow> (Inl x, Some st3))))"

section \<open>Replay as IPC chunks\<close>

text \<open>\<open>InMemoryArrowBatchSource.open\<close> yields the retained batches.\<close>

definition open_batches :: "('m, 'x) batch_source \<Rightarrow> ('m, 'x) py_object result list" where
  "open_batches src = map (\<lambda>b. Inr (Record_batch b)) (source_batches src)"

text \<open>
  The generator \<open>ipc_chunks\<close> over an opened source: the chunks it yields, in order, and how it
  ends.  \<open>written\<close> counts before the comparison; an empty chunk is not yielded.
\<close>

definition emit :: "byte list \<Rightarrow> byte list list \<times> unit result \<Rightarrow> byte list list \<times> unit result" where
  "emit chunk out = (if chunk = [] then out else (chunk # fst out, snd out))"

text \<open>The \<open>finally\<close> when the body raised \<open>x\<close>: the writer is closed, and its own error wins.\<close>

definition abandon_writer ::
  "('m, 'x) ipc_writer \<Rightarrow> 'm schema \<Rightarrow> ('m, 'x) batch list \<Rightarrow> nat \<Rightarrow> py_exn \<Rightarrow>
   byte list list \<times> unit result"
where
  "abandon_writer w s hist closes x =
     ([], case snd (ipc_close w s hist closes) of Inl y \<Rightarrow> Inl y | Inr _ \<Rightarrow> Inl x)"

fun ipc_loop ::
  "('m, 'x) ipc_writer \<Rightarrow> 'm schema \<Rightarrow> int \<Rightarrow> ('m, 'x) py_object result list \<Rightarrow>
   ('m, 'x) batch list \<Rightarrow> chunk_sink \<Rightarrow> nat \<Rightarrow> byte list list \<times> unit result"
where
  "ipc_loop w s bound [] hist sink written =
     (case ipc_close w s hist 0 of
        (chunks, Inl x) \<Rightarrow> abandon_writer w s hist 1 x
      | (chunks, Inr _) \<Rightarrow>
          (let chunk = fst (sink_drain (sink_write_all chunks sink)) in
           if bound < int (written + length chunk) then ([], Inl ArrowAdmissionError)
           else emit chunk ([], Inr ())))"
| "ipc_loop w s bound (Inl x # items) hist sink written = abandon_writer w s hist 0 x"
| "ipc_loop w s bound (Inr (Other_object n) # items) hist sink written =
     abandon_writer w s hist 0 ArrowAdmissionError"
| "ipc_loop w s bound (Inr (Record_batch b) # items) hist sink written =
     (if batch_schema b \<noteq> s then abandon_writer w s hist 0 ArrowAdmissionError
      else (case ipc_write w s hist b of
              (chunks, Inl x) \<Rightarrow> abandon_writer w s (hist @ [b]) 0 x
            | (chunks, Inr _) \<Rightarrow>
                (case sink_drain (sink_write_all chunks sink) of
                   (chunk, sink') \<Rightarrow>
                     if bound < int (written + length chunk)
                     then abandon_writer w s (hist @ [b]) 0 ArrowAdmissionError
                     else emit chunk
                       (ipc_loop w s bound items (hist @ [b]) sink' (written + length chunk)))))"

definition ipc_chunks ::
  "('m, 'x) ipc_writer \<Rightarrow> 'm schema \<Rightarrow> ('m, 'x) py_object result list \<Rightarrow> int \<Rightarrow>
   byte list list \<times> unit result"
where
  "ipc_chunks w s items bound =
     (if bound \<le> 0 then ([], Inl ArrowAdmissionError)
      else (case ipc_new w s of
              (chunks, Inl x) \<Rightarrow> ([], Inl x)
            | (chunks, Inr _) \<Rightarrow>
                ipc_loop w s bound items [] (sink_write_all chunks new_sink) 0))"

end
