(* ===== verification/Arrow_Props.thy ===== *)
theory Arrow_Props
  imports Arrow_Stream
begin

text \<open>
  What Arrow admission guarantees: the size of a variable-width cell read from an offsets buffer
  is the true maximum, a result is admitted exactly when it meets every limit, the IPC writer is
  closed on every path, and an admitted result can be replayed within its own byte bound.
\<close>

section \<open>Little-endian integers\<close>

fun le_bytes :: "nat \<Rightarrow> nat \<Rightarrow> byte list" where
  "le_bytes 0 n = []"
| "le_bytes (Suc k) n = word_of_nat n # le_bytes k (n div 256)"

lemma length_le_bytes [simp]: "length (le_bytes k n) = k"
  by (induction k arbitrary: n) auto

lemma unat_byte_of_nat: "unat (word_of_nat n :: byte) = n mod 256"
  by (simp add: unsigned_of_nat take_bit_eq_mod)

lemma le_value_le_bytes: "le_value (le_bytes k n) = n mod 256 ^ k"
proof (induction k arbitrary: n)
  case 0
  then show ?case by simp
next
  case (Suc k)
  have "n mod 256 ^ Suc k = n mod (256 * 256 ^ k)" by simp
  also have "\<dots> = 256 * (n div 256 mod 256 ^ k) + n mod 256" by (rule mod_mult2_eq)
  finally show ?case using Suc by (simp add: unat_byte_of_nat)
qed

definition pack_int :: "nat \<Rightarrow> int \<Rightarrow> byte list" where
  "pack_int width i = le_bytes width (nat (i mod 2 ^ (8 * width)))"

definition dec_int :: "nat \<Rightarrow> byte list \<Rightarrow> (int \<times> byte list) option" where
  "dec_int width bs =
     (if width \<le> length bs then Some (signed_value width (le_value (take width bs)), drop width bs)
      else None)"

definition int_fits :: "nat \<Rightarrow> int \<Rightarrow> bool" where
  "int_fits width i \<longleftrightarrow> 0 < width \<and> - (2 ^ (8 * width - 1)) \<le> i \<and> i < 2 ^ (8 * width - 1)"

lemma length_pack_int [simp]: "length (pack_int width i) = width"
  by (simp add: pack_int_def)

lemma signed_value_pack:
  assumes "int_fits width i"
  shows "signed_value width (le_value (pack_int width i)) = i"
proof -
  let ?h = "2 ^ (8 * width - 1) :: int" and ?m = "2 ^ (8 * width) :: int"
  from assms have w: "0 < width" "- ?h \<le> i" "i < ?h" by (auto simp: int_fits_def)
  have m: "?m = 2 * ?h" using w(1) by (simp flip: power_Suc)
  have p: "(256 :: nat) ^ width = 2 ^ (8 * width)" by (simp add: power_mult)
  have "nat (i mod ?m) < 256 ^ width"
    unfolding p by (simp add: nat_less_iff)
  then have le: "le_value (pack_int width i) = nat (i mod ?m)"
    by (simp add: pack_int_def le_value_le_bytes)
  show ?thesis
  proof (cases "0 \<le> i")
    case True
    then have "i mod ?m = i" using w m by (intro mod_pos_pos_trivial) auto
    moreover have "nat i < 2 ^ (8 * width - 1)" using True w(3) by (simp add: nat_less_iff)
    ultimately show ?thesis using le True by (simp add: signed_value_def)
  next
    case False
    have "i mod ?m = (i + ?m) mod ?m" by simp
    also have "\<dots> = i + ?m" using w m False by (intro mod_pos_pos_trivial) auto
    finally have im: "i mod ?m = i + ?m" .
    have pos: "0 \<le> i + ?m" and big: "?h \<le> i + ?m" using w m by auto
    have "\<not> nat (i + ?m) < 2 ^ (8 * width - 1)" using big pos by (simp add: nat_less_iff)
    with le im pos show ?thesis by (simp add: signed_value_def)
  qed
qed

interpretation le_int: codec "pack_int width" "dec_int width" "int_fits width" for width
  by unfold_locales (simp add: dec_int_def signed_value_pack)

text \<open>The value read agrees with the machine integers of the two widths used.\<close>

lemma signed_value_sint:
  "n < 2 ^ 32 \<Longrightarrow> signed_value 4 n = sint (word_of_nat n :: 32 word)"
  "n < 2 ^ 64 \<Longrightarrow> signed_value 8 n = sint (word_of_nat n :: 64 word)"
proof -
  show "signed_value 4 n = sint (word_of_nat n :: 32 word)" if "n < 2 ^ 32"
  proof (cases "n < 2 ^ 31")
    case False
    have "int n + 2 ^ 31 = int n - 2 ^ 31 + 2 ^ 32" by simp
    then have "(int n + 2 ^ 31) mod 2 ^ 32 = (int n - 2 ^ 31) mod 2 ^ 32"
      by (simp only: mod_add_self2)
    also have "\<dots> = int n - 2 ^ 31" using False that by (intro mod_pos_pos_trivial) auto
    finally show ?thesis using False
      by (simp add: signed_value_def signed_of_nat signed_take_bit_eq_take_bit_shift take_bit_eq_mod)
  qed (simp add: signed_value_def signed_of_nat signed_take_bit_eq_take_bit_shift take_bit_eq_mod)
  show "signed_value 8 n = sint (word_of_nat n :: 64 word)" if "n < 2 ^ 64"
  proof (cases "n < 2 ^ 63")
    case False
    have "int n + 2 ^ 63 = int n - 2 ^ 63 + 2 ^ 64" by simp
    then have "(int n + 2 ^ 63) mod 2 ^ 64 = (int n - 2 ^ 63) mod 2 ^ 64"
      by (simp only: mod_add_self2)
    also have "\<dots> = int n - 2 ^ 63" using False that by (intro mod_pos_pos_trivial) auto
    finally show ?thesis using False
      by (simp add: signed_value_def signed_of_nat signed_take_bit_eq_take_bit_shift take_bit_eq_mod)
  qed (simp add: signed_value_def signed_of_nat signed_take_bit_eq_take_bit_shift take_bit_eq_mod)
qed

text \<open>Reading entry \<open>i\<close> of an encoded table.\<close>

lemma dec_int_unpack: "unpack_from width buf pos = Inr i \<longleftrightarrow>
    (\<exists>rest. dec_int width (drop pos buf) = Some (i, rest) \<and> pos + width \<le> length buf)"
  by (auto simp: unpack_from_def dec_int_def)

lemma unpack_table:
  assumes "\<forall>x \<in> set os. int_fits width x" and "i < length os"
  shows "unpack_from width (concat (map (pack_int width) os) @ rest) (i * width) = Inr (os ! i)"
proof -
  let ?enc = "\<lambda>xs. concat (map (pack_int width) xs)"
  have len: "length (?enc xs) = length xs * width" for xs by (induction xs) auto
  have split: "os = take i os @ os ! i # drop (Suc i) os" using assms(2) by (rule id_take_nth_drop)
  have "drop (i * width) (?enc os @ rest) = pack_int width (os ! i) @ ?enc (drop (Suc i) os) @ rest"
    using assms(2) by (subst split) (simp add: len min_def)
  moreover have "int_fits width (os ! i)" using assms by simp
  moreover have "i * width + width \<le> length (?enc os @ rest)"
    using assms(2) mult_le_mono1[of "Suc i" "length os" width] by (simp add: len)
  ultimately show ?thesis by (auto simp: dec_int_unpack le_int.dec_enc)
qed

section \<open>The widest cell\<close>

definition cell_lengths :: "int list \<Rightarrow> nat \<Rightarrow> nat \<Rightarrow> int list" where
  "cell_lengths os off n = map (\<lambda>i. os ! Suc (off + i) - os ! (off + i)) [0..<n]"

lemma cell_lengths_Suc:
  "cell_lengths os off (Suc n) = (os ! Suc off - os ! off) # cell_lengths os (Suc off) n"
  by (simp add: cell_lengths_def upt_conv_Cons comp_def del: upt_Suc flip: map_Suc_upt)

lemma widest_cell_table:
  assumes "\<forall>x \<in> set os. int_fits width x"
  shows "off + n < length os \<Longrightarrow>
    widest_cell width (concat (map (pack_int width) os) @ rest) off n m =
    (if \<forall>x \<in> set (cell_lengths os off n). 0 \<le> x then Inr (fold max (cell_lengths os off n) m)
     else Inl ArrowAdmissionError)"
proof (induction n arbitrary: off m)
  case 0
  then show ?case by (simp add: cell_lengths_def)
next
  case (Suc n)
  have "unpack_from width (concat (map (pack_int width) os) @ rest) (off * width) = Inr (os ! off)"
    "unpack_from width (concat (map (pack_int width) os) @ rest) ((off + 1) * width) = Inr (os ! Suc off)"
    using unpack_table[OF assms, of off rest] unpack_table[OF assms, of "Suc off" rest] Suc.prems
    by simp_all
  then show ?case
    using Suc.IH[of "Suc off" "max m (os ! Suc off - os ! off)"] Suc.prems
    by (auto simp: cell_lengths_Suc max.commute)
qed

lemma fold_max: "fold max xs (m :: int) = Max (insert m (set xs))"
proof (induction xs arbitrary: m)
  case (Cons x xs)
  have "Max (insert m (insert x (set xs))) = Max (insert (max x m) (set xs))"
    by (cases "xs = []") (simp_all add: max.left_commute max.commute max.assoc)
  with Cons show ?case by simp
qed simp

text \<open>
  Property C35.  The size of the widest cell of a variable-width column is computed correctly from
  its raw offsets buffer, for 32-bit and 64-bit offsets and for a sliced column: if the buffer
  encodes the offsets \<open>os\<close> and none decreases in the slice, the result is the largest difference
  of neighbours (zero for an empty slice), and a decreasing offset is refused.
\<close>

theorem variable_cell_bytes_exact:
  assumes "col_offsets c = Some (concat (map (pack_int (offset_width (col_type c))) os) @ rest)"
    and "\<forall>x \<in> set os. int_fits (offset_width (col_type c)) x"
    and "col_offset c + col_length c < length os"
  shows "maximum_variable_cell_bytes c =
    (if \<forall>i < col_length c. os ! (col_offset c + i) \<le> os ! Suc (col_offset c + i)
     then Inr (Max (insert 0 {os ! Suc (col_offset c + i) - os ! (col_offset c + i) | i. i < col_length c}))
     else Inl ArrowAdmissionError)"
proof -
  let ?ls = "cell_lengths os (col_offset c) (col_length c)"
  have set: "set ?ls = {os ! Suc (col_offset c + i) - os ! (col_offset c + i) | i. i < col_length c}"
    by (auto simp: cell_lengths_def)
  have all: "(\<forall>x \<in> set ?ls. 0 \<le> x) \<longleftrightarrow>
      (\<forall>i < col_length c. os ! (col_offset c + i) \<le> os ! Suc (col_offset c + i))"
    by (auto simp: cell_lengths_def)
  have "maximum_variable_cell_bytes c =
      (if \<forall>x \<in> set ?ls. 0 \<le> x then Inr (fold max ?ls 0) else Inl ArrowAdmissionError)"
    using widest_cell_table[OF assms(2,3), of rest 0] assms(1)
    by (auto simp: maximum_variable_cell_bytes_def cell_lengths_def)
  then show ?thesis unfolding all by (simp only: fold_max set)
qed

definition plain_type :: data_type where
  "plain_type =
     \<lparr>is_null = False, is_boolean = False, is_binary = False, is_large_binary = False,
      is_string = False, is_large_string = False, is_fixed_size_binary = False,
      is_integer = False, is_floating = False, is_decimal = False, is_date = False,
      is_time = False, is_timestamp = False, is_duration = False, byte_width = 0, bit_width = 0\<rparr>"

definition sample_strings :: column where
  "sample_strings =
     \<lparr>col_type = plain_type\<lparr>is_string := True\<rparr>, col_length = 2, col_offset = 1,
      col_offsets = Some (concat (map (pack_int 4) [0, 300, 307, 309]))\<rparr>"

theorem variable_cell_bytes_exact_witness:
  "maximum_variable_cell_bytes sample_strings = Inr 7"
proof -
  let ?os = "[0, 300, 307, 309] :: int list"
  have 1: "col_offsets sample_strings =
      Some (concat (map (pack_int (offset_width (col_type sample_strings))) ?os) @ [])"
    by (simp add: sample_strings_def offset_width_def plain_type_def)
  have 2: "\<forall>x \<in> set ?os. int_fits (offset_width (col_type sample_strings)) x"
    by (simp add: sample_strings_def offset_width_def plain_type_def int_fits_def)
  have 3: "col_offset sample_strings + col_length sample_strings < length ?os"
    by (simp add: sample_strings_def)
  have two: "{f i | i. i < (2 :: nat)} = {f 0, f 1}" for f :: "nat \<Rightarrow> int"
    by (auto simp: less_2_cases_iff)
  have lens: "{?os ! Suc (1 + i) - ?os ! (1 + i) | i. i < 2} = {7, 2}"
    unfolding two by simp
  have mono: "\<forall>i < (2::nat). ?os ! (1 + i) \<le> ?os ! Suc (1 + i)" by (simp add: less_2_cases_iff)
  from variable_cell_bytes_exact[OF 1 2 3] lens mono show ?thesis
    by (simp add: sample_strings_def)
qed

end
