(* ===== verification/Mvp_Limits.thy ===== *)
theory Mvp_Limits
  imports Arrow_Stream
begin

text \<open>The fixed resource budgets (\<open>src/snowglobe/mvp_limits.py\<close>).\<close>

definition MVP_MAXIMUM_TTL :: timedelta where "MVP_MAXIMUM_TTL = minutes 5"

definition MVP_MAXIMUM_PENDING_REQUESTS :: int where "MVP_MAXIMUM_PENDING_REQUESTS = 1"

definition MVP_MAXIMUM_REQUESTS :: int where "MVP_MAXIMUM_REQUESTS = 100"

definition MVP_LOGIN_TIMEOUT_SECONDS :: int where "MVP_LOGIN_TIMEOUT_SECONDS = 30"

definition MVP_NETWORK_TIMEOUT_SECONDS :: int where "MVP_NETWORK_TIMEOUT_SECONDS = 60"

definition MVP_SOCKET_TIMEOUT_SECONDS :: int where "MVP_SOCKET_TIMEOUT_SECONDS = 15"

definition MVP_STATEMENT_TIMEOUT_SECONDS :: int where "MVP_STATEMENT_TIMEOUT_SECONDS = 60"

definition MVP_QUEUED_TIMEOUT_SECONDS :: int where "MVP_QUEUED_TIMEOUT_SECONDS = 15"

definition MVP_MAXIMUM_VIEWPORT_ROWS :: int where "MVP_MAXIMUM_VIEWPORT_ROWS = 50"

definition MVP_MAXIMUM_VIEWPORT_BYTES :: int where "MVP_MAXIMUM_VIEWPORT_BYTES = 256 * 1024"

definition MVP_ARROW_LIMITS :: limits where
  "MVP_ARROW_LIMITS =
     \<lparr>maximum_rows = MVP_MAXIMUM_VIEWPORT_ROWS, maximum_columns = 32,
      maximum_cell_bytes = 16 * 1024, maximum_arrow_bytes = MVP_MAXIMUM_VIEWPORT_BYTES,
      maximum_decoded_bytes = MVP_MAXIMUM_VIEWPORT_BYTES\<rparr>"

text \<open>The constructor accepts them.\<close>

lemma MVP_ARROW_LIMITS_built:
  "new_limits MVP_MAXIMUM_VIEWPORT_ROWS 32 (16 * 1024) MVP_MAXIMUM_VIEWPORT_BYTES
     MVP_MAXIMUM_VIEWPORT_BYTES = Inr MVP_ARROW_LIMITS"
  by (simp add: new_limits_def MVP_ARROW_LIMITS_def MVP_MAXIMUM_VIEWPORT_ROWS_def
      MVP_MAXIMUM_VIEWPORT_BYTES_def)

end
