(* ===== verification/Arrow_Admission.thy ===== *)
theory Arrow_Admission
  imports Arrow_Props Mvp_Limits
begin

text \<open>
  Admission of a whole result against its declarative specification, the closing of the IPC
  writer, and the replay of an admitted result.
\<close>

section \<open>The serialised stream\<close>

text \<open>What the writer has written to the sink after the batches \<open>bs\<close>, and after its close.\<close>

fun writes :: "('m, 'x) ipc_writer \<Rightarrow> 'm schema \<Rightarrow> ('m, 'x) batch list \<Rightarrow> ('m, 'x) batch list \<Rightarrow> byte list" where
  "writes w s hist [] = []"
| "writes w s hist (b # bs) = concat (fst (ipc_write w s hist b)) @ writes w s (hist @ [b]) bs"

definition stream_prefix :: "('m, 'x) ipc_writer \<Rightarrow> 'm schema \<Rightarrow> ('m, 'x) batch list \<Rightarrow> byte list" where
  "stream_prefix w s bs = concat (fst (ipc_new w s)) @ writes w s [] bs"

definition ipc_stream :: "('m, 'x) ipc_writer \<Rightarrow> 'm schema \<Rightarrow> ('m, 'x) batch list \<Rightarrow> byte list" where
  "ipc_stream w s bs = stream_prefix w s bs @ concat (fst (ipc_close w s bs 0))"

lemma writes_snoc:
  "writes w s hist (bs @ [b]) = writes w s hist bs @ concat (fst (ipc_write w s (hist @ bs) b))"
  by (induction bs arbitrary: hist) simp_all

lemma stream_prefix_snoc:
  "stream_prefix w s (bs @ [b]) = stream_prefix w s bs @ concat (fst (ipc_write w s bs b))"
  by (simp add: stream_prefix_def writes_snoc)

text \<open>The writer accepts the batches one after the other, and its close.\<close>

fun writer_accepts :: "('m, 'x) ipc_writer \<Rightarrow> 'm schema \<Rightarrow> ('m, 'x) batch list \<Rightarrow> ('m, 'x) batch list \<Rightarrow> bool" where
  "writer_accepts w s hist [] \<longleftrightarrow> True"
| "writer_accepts w s hist (b # bs) \<longleftrightarrow>
     snd (ipc_write w s hist b) = Inr () \<and> writer_accepts w s (hist @ [b]) bs"

section \<open>The specification\<close>

definition total_rows :: "('m, 'x) batch list \<Rightarrow> nat" where
  "total_rows bs = sum_list (map num_rows bs)"

definition total_decoded :: "('m, 'x) batch list \<Rightarrow> nat" where
  "total_decoded bs = sum_list (map nbytes bs)"

definition cells_within :: "limits \<Rightarrow> ('m, 'x) batch \<Rightarrow> bool" where
  "cells_within l b \<longleftrightarrow>
     (case batch_cell_bytes b of Inl x \<Rightarrow> False | Inr n \<Rightarrow> n \<le> maximum_cell_bytes l)"

definition supported_schema :: "'m schema \<Rightarrow> limits \<Rightarrow> bool" where
  "supported_schema s l \<longleftrightarrow>
     int (length (schema_types s)) \<le> maximum_columns l \<and>
     (\<forall>t \<in> set (schema_types s). is_ok (cell_width t))"

definition admissible ::
  "('m, 'x) ipc_writer \<Rightarrow> 'm schema \<Rightarrow> limits \<Rightarrow> ('m, 'x) batch list \<Rightarrow> bool" where
  "admissible w s l bs \<longleftrightarrow>
     supported_schema s l \<and>
     (\<forall>b \<in> set bs. batch_schema b = s \<and> cells_within l b) \<and>
     int (total_rows bs) \<le> maximum_rows l \<and>
     int (total_decoded bs) \<le> maximum_decoded_bytes l \<and>
     int (length (ipc_stream w s bs)) \<le> maximum_arrow_bytes l \<and>
     snd (ipc_new w s) = Inr () \<and> writer_accepts w s [] bs \<and> snd (ipc_close w s bs 0) = Inr ()"

definition positive_limits :: "limits \<Rightarrow> bool" where
  "positive_limits l \<longleftrightarrow>
     0 < maximum_rows l \<and> 0 < maximum_columns l \<and> 0 < maximum_cell_bytes l \<and>
     0 < maximum_arrow_bytes l \<and> 0 < maximum_decoded_bytes l"

lemma new_limits_positive: "new_limits rows cols cell arrow decoded = Inr l \<Longrightarrow> positive_limits l"
  by (auto simp: new_limits_def positive_limits_def split: if_splits)

section \<open>The state between two batches\<close>

definition admitted_state ::
  "('m, 'x) ipc_writer \<Rightarrow> 'm schema \<Rightarrow> limits \<Rightarrow> ('m, 'x) batch list \<Rightarrow> ('m, 'x) admission_state \<Rightarrow> bool"
where
  "admitted_state w s l hist st \<longleftrightarrow>
     ad_schema st = s \<and> ad_limits st = l \<and> ad_written st = hist \<and>
     ad_rows st = total_rows hist \<and> ad_decoded_bytes st = total_decoded hist \<and>
     ad_arrow_bytes st + length (concat (sink_chunks (ad_sink st))) = length (stream_prefix w s hist) \<and>
     \<not> ad_closed st \<and> ad_closes st = 0"

lemma sink_write_all_chunks:
  "sink_chunks (sink_write_all chunks sink) = sink_chunks sink @ chunks"
  by (induction chunks arbitrary: sink) (simp_all add: sink_write_all_def sink_write_def)

lemma sink_write_all_position:
  "sink_position (sink_write_all chunks sink) = sink_position sink + length (concat chunks)"
  by (induction chunks arbitrary: sink) (simp_all add: sink_write_all_def sink_write_def)

lemma validate_schema_ok: "validate_schema s l = Inr () \<longleftrightarrow> supported_schema s l"
proof -
  have "(\<exists>ws. map_result cell_width ts = Inr ws) \<longleftrightarrow> (\<forall>t \<in> set ts. is_ok (cell_width t))" for ts
  proof (induction ts)
    case (Cons t ts)
    then show ?case by (cases "cell_width t") (auto simp: then_do_Inr_iff)
  qed simp
  then show ?thesis
    by (auto simp: validate_schema_def supported_schema_def then_do_Inr_iff)
qed

lemma new_admission_Inr:
  "(\<exists>st. new_admission w s l = Inr st) \<longleftrightarrow> supported_schema s l \<and> snd (ipc_new w s) = Inr ()"
  "new_admission w s l = Inr st \<Longrightarrow> admitted_state w s l [] st"
  by (auto simp: new_admission_def then_do_Inr_iff validate_schema_ok admitted_state_def
      total_rows_def total_decoded_def stream_prefix_def sink_write_all_chunks new_sink_def
      split: prod.splits sum.splits)

definition batch_fits ::
  "('m, 'x) ipc_writer \<Rightarrow> 'm schema \<Rightarrow> limits \<Rightarrow> ('m, 'x) batch list \<Rightarrow> ('m, 'x) batch \<Rightarrow> bool" where
  "batch_fits w s l hist b \<longleftrightarrow>
     batch_schema b = s \<and> cells_within l b \<and>
     int (total_rows (hist @ [b])) \<le> maximum_rows l \<and>
     int (total_decoded (hist @ [b])) \<le> maximum_decoded_bytes l \<and>
     snd (ipc_write w s hist b) = Inr () \<and>
     int (length (stream_prefix w s (hist @ [b]))) \<le> maximum_arrow_bytes l"

lemma total_snoc [simp]:
  "total_rows (hist @ [b]) = total_rows hist + num_rows b"
  "total_decoded (hist @ [b]) = total_decoded hist + nbytes b"
  by (simp_all add: total_rows_def total_decoded_def)

text \<open>One batch: admitted exactly when it fits after the batches before it.\<close>

lemma admit_batch:
  assumes "admitted_state w s l hist st"
  shows "is_ok (fst (admit w (Record_batch b) st)) \<longleftrightarrow> batch_fits w s l hist b"
    and "batch_fits w s l hist b \<Longrightarrow> admitted_state w s l (hist @ [b]) (snd (admit w (Record_batch b) st))"
proof -
  note st = assms[unfolded admitted_state_def]
  show "is_ok (fst (admit w (Record_batch b) st)) \<longleftrightarrow> batch_fits w s l hist b"
    using st
    by (auto simp: admit_def batch_fits_def cells_within_def writer_write_def drain_within_limit_def
        sink_drain_def Let_def sink_write_all_chunks stream_prefix_snoc
        split: sum.splits prod.splits)
  show "batch_fits w s l hist b \<Longrightarrow> admitted_state w s l (hist @ [b]) (snd (admit w (Record_batch b) st))"
    using st
    by (auto simp: admit_def batch_fits_def cells_within_def writer_write_def drain_within_limit_def
        sink_drain_def Let_def sink_write_all_chunks stream_prefix_snoc admitted_state_def
        split: sum.splits prod.splits)
qed

fun all_fit ::
  "('m, 'x) ipc_writer \<Rightarrow> 'm schema \<Rightarrow> limits \<Rightarrow> ('m, 'x) batch list \<Rightarrow> ('m, 'x) batch list \<Rightarrow> bool" where
  "all_fit w s l hist [] \<longleftrightarrow> True"
| "all_fit w s l hist (b # bs) \<longleftrightarrow> batch_fits w s l hist b \<and> all_fit w s l (hist @ [b]) bs"

abbreviation as_items :: "('m, 'x) batch list \<Rightarrow> ('m, 'x) py_object result list" where
  "as_items bs \<equiv> map (\<lambda>b. Inr (Record_batch b)) bs"

lemma admit_all_ok:
  "admitted_state w s l hist st \<Longrightarrow> all_fit w s l hist bs \<Longrightarrow>
   \<exists>st'. admit_all w (as_items bs) st = (Inr bs, st') \<and> admitted_state w s l (hist @ bs) st'"
proof (induction bs arbitrary: hist st)
  case Nil
  then show ?case by simp
next
  case (Cons b bs)
  obtain res st1 where adm: "admit w (Record_batch b) st = (res, st1)" by fastforce
  from Cons.prems admit_batch[OF Cons.prems(1), of b] adm
  have "is_ok res" "admitted_state w s l (hist @ [b]) st1" by auto
  with Cons.IH[of "hist @ [b]" st1] Cons.prems(2) adm show ?case
    by (cases res) (auto split: prod.splits)
qed

lemma admit_all_Inr:
  "admitted_state w s l hist st \<Longrightarrow> admit_all w items st = (Inr bs, st') \<Longrightarrow>
   items = as_items bs \<and> all_fit w s l hist bs"
proof (induction items arbitrary: hist st bs)
  case Nil
  then show ?case by simp
next
  case (Cons item items)
  from Cons.prems(2) obtain obj where obj: "item = Inr obj" by (cases item) auto
  obtain res st1 where adm: "admit w obj st = (res, st1)" by fastforce
  with Cons.prems(2) obj obtain chunk where res: "res = Inr chunk" by (cases res) auto
  with adm obtain b where b: "obj = Record_batch b" by (cases obj) (auto simp: admit_def split: if_splits)
  obtain m st2 where rest: "admit_all w items st1 = (m, st2)" by fastforce
  with Cons.prems(2) obj adm res b obtain bs' where bs': "m = Inr bs'" "bs = b # bs'"
    by (cases m) auto
  have "batch_fits w s l hist b" "admitted_state w s l (hist @ [b]) st1"
    using admit_batch[OF Cons.prems(1), of b] adm res b by auto
  with Cons.IH[of "hist @ [b]" st1 bs'] rest bs' obj b Cons.prems(2) adm res show ?case by auto
qed

text \<open>Totals only grow, so the bounds at every batch are the bounds at the end.\<close>

lemma total_append:
  "total_rows (xs @ ys) = total_rows xs + total_rows ys"
  "total_decoded (xs @ ys) = total_decoded xs + total_decoded ys"
  by (simp_all add: total_rows_def total_decoded_def)

lemma stream_prefix_mono: "length (stream_prefix w s hist) \<le> length (stream_prefix w s (hist @ bs))"
proof (induction bs rule: rev_induct)
  case (snoc b bs)
  then show ?case using stream_prefix_snoc[of w s "hist @ bs" b] by simp
qed simp

lemma all_fit_iff:
  "all_fit w s l hist bs \<longleftrightarrow>
     (\<forall>b \<in> set bs. batch_schema b = s \<and> cells_within l b) \<and> writer_accepts w s hist bs \<and>
     (bs \<noteq> [] \<longrightarrow>
        int (total_rows (hist @ bs)) \<le> maximum_rows l \<and>
        int (total_decoded (hist @ bs)) \<le> maximum_decoded_bytes l \<and>
        int (length (stream_prefix w s (hist @ bs))) \<le> maximum_arrow_bytes l)"
proof (induction bs arbitrary: hist)
  case Nil
  then show ?case by simp
next
  case (Cons b bs)
  show ?case
    using stream_prefix_mono[of w s "hist @ [b]" bs] total_append(1)[of "hist @ [b]" bs]
      total_append(2)[of "hist @ [b]" bs]
    by (auto simp: Cons.IH batch_fits_def)
qed

lemma finish_ok:
  assumes "admitted_state w s l hist st"
  shows "is_ok (fst (finish w st)) \<longleftrightarrow>
    snd (ipc_close w s hist 0) = Inr () \<and> int (length (ipc_stream w s hist)) \<le> maximum_arrow_bytes l"
  using assms
  by (auto simp: admitted_state_def finish_def writer_close_def drain_within_limit_def sink_drain_def
      Let_def sink_write_all_chunks ipc_stream_def split: prod.splits sum.splits)

lemma is_ok_iff: "is_ok r \<longleftrightarrow> (\<exists>x. r = Inr x)"
  by (cases r) auto

lemma admission_Inr:
  "fst (admit_record_batches w s items l) = Inr src \<longleftrightarrow>
   (\<exists>st bs st1. new_admission w s l = Inr st \<and> admit_all w items st = (Inr bs, st1) \<and>
      is_ok (fst (finish w st1)) \<and> src = \<lparr>source_schema = s, source_batches = bs\<rparr>)"
proof (cases "new_admission w s l")
  case (Inl x)
  then show ?thesis by (simp add: admit_record_batches_def)
next
  case (Inr st)
  obtain m st1 where m: "admit_all w items st = (m, st1)" by fastforce
  obtain f st2 where f: "finish w st1 = (f, st2)" by fastforce
  show ?thesis
    using Inr m f
    by (cases m; cases f)
      (auto simp: admit_record_batches_def Let_def split: prod.splits sum.splits)
qed

section \<open>Properties\<close>

lemma admission_exact_iff:
  assumes "new_limits rows cols cell arrow decoded = Inr l"
  shows "fst (admit_record_batches w s items l) = Inr src \<longleftrightarrow>
    source_schema src = s \<and> items = as_items (source_batches src) \<and>
    admissible w s l (source_batches src)"
proof -
  have pos: "positive_limits l" by (rule new_limits_positive[OF assms])
  have spec: "supported_schema s l \<and> snd (ipc_new w s) = Inr () \<and> all_fit w s l [] bs \<and>
      snd (ipc_close w s bs 0) = Inr () \<and> int (length (ipc_stream w s bs)) \<le> maximum_arrow_bytes l
      \<longleftrightarrow> admissible w s l bs" for bs
    using pos by (cases "bs = []")
      (auto simp: admissible_def all_fit_iff positive_limits_def total_rows_def total_decoded_def
        ipc_stream_def)
  show ?thesis
  proof
    assume "fst (admit_record_batches w s items l) = Inr src"
    then obtain st bs st1 where adm: "new_admission w s l = Inr st"
      "admit_all w items st = (Inr bs, st1)" "is_ok (fst (finish w st1))"
      "src = \<lparr>source_schema = s, source_batches = bs\<rparr>" unfolding admission_Inr by blast
    note st = new_admission_Inr(2)[OF adm(1)]
    from admit_all_Inr[OF st adm(2)] have items: "items = as_items bs" "all_fit w s l [] bs" by auto
    then have "admitted_state w s l bs st1" using admit_all_ok[OF st items(2)] adm(2) by simp
    with finish_ok[of w s l bs st1] adm(3) spec[of bs] items new_admission_Inr(1)[of w s l] adm(1)
    show "source_schema src = s \<and> items = as_items (source_batches src) \<and>
        admissible w s l (source_batches src)" by (auto simp: adm(4))
  next
    assume r: "source_schema src = s \<and> items = as_items (source_batches src) \<and>
        admissible w s l (source_batches src)"
    let ?bs = "source_batches src"
    from r spec[of ?bs] have fit: "all_fit w s l [] ?bs" "snd (ipc_close w s ?bs 0) = Inr ()"
      "int (length (ipc_stream w s ?bs)) \<le> maximum_arrow_bytes l"
      and new: "\<exists>st. new_admission w s l = Inr st" unfolding new_admission_Inr(1) by auto
    from new obtain st where st: "new_admission w s l = Inr st" by blast
    from admit_all_ok[OF new_admission_Inr(2)[OF st] fit(1)] obtain st1 where
      st1: "admit_all w (as_items ?bs) st = (Inr ?bs, st1)" "admitted_state w s l ?bs st1" by auto
    from finish_ok[OF st1(2)] fit have "is_ok (fst (finish w st1))" by simp
    with st st1(1) r show "fst (admit_record_batches w s items l) = Inr src"
      unfolding admission_Inr by (intro exI[of _ st] exI[of _ ?bs] exI[of _ st1]) auto
  qed
qed

text \<open>
  Property C10.  Incremental admission accepts exactly the results that meet every limit.  With
  limits that passed their own check, a result is admitted if and only if the iterator yields only
  record batches and ends normally, the schema is supported and not too wide, every batch has the
  schema and no cell too large, the total rows, decoded bytes and serialised bytes are within
  their bounds, and the writer accepts everything; the source then holds exactly those batches.
\<close>

theorem admission_exact:
  assumes "new_limits rows cols cell arrow decoded = Inr l"
  shows "fst (admit_record_batches w s items l) = Inr src \<longleftrightarrow>
    source_schema src = s \<and> items = as_items (source_batches src) \<and>
    admissible w s l (source_batches src)"
  by (rule admission_exact_iff[OF assms])

definition sample_writer :: "(nat, nat) ipc_writer" where
  "sample_writer =
     \<lparr>ipc_new = (\<lambda>s. ([[255, 255]], Inr ())),
      ipc_write = (\<lambda>s hist b. ([replicate (nbytes b) 7, []], Inr ())),
      ipc_close = (\<lambda>s hist closes. ([[0]], Inr ()))\<rparr>"

definition sample_schema :: "nat schema" where
  "sample_schema = \<lparr>schema_types = [plain_type\<lparr>is_integer := True, bit_width := 64\<rparr>], schema_rest = 0\<rparr>"

definition sample_batch :: "(nat, nat) batch" where
  "sample_batch =
     \<lparr>batch_schema = sample_schema, num_rows = 3, nbytes = 24,
      columns = [\<lparr>col_type = plain_type\<lparr>is_integer := True, bit_width := 64\<rparr>, col_length = 3,
                  col_offset = 0, col_offsets = None\<rparr>],
      batch_values = 0\<rparr>"

lemma sample_admissible: "admissible sample_writer sample_schema MVP_ARROW_LIMITS [sample_batch, sample_batch]"
  by (simp add: admissible_def supported_schema_def cells_within_def total_rows_def total_decoded_def
      sample_writer_def sample_schema_def sample_batch_def MVP_ARROW_LIMITS_def
      MVP_MAXIMUM_VIEWPORT_ROWS_def MVP_MAXIMUM_VIEWPORT_BYTES_def ipc_stream_def stream_prefix_def
      batch_cell_bytes_def column_cell_bytes_def cell_width_def plain_type_def)

theorem admission_exact_witness:
  "fst (admit_record_batches sample_writer sample_schema
      [Inr (Record_batch sample_batch), Inr (Record_batch sample_batch)] MVP_ARROW_LIMITS) =
   Inr \<lparr>source_schema = sample_schema, source_batches = [sample_batch, sample_batch]\<rparr>"
  using admission_exact[OF MVP_ARROW_LIMITS_built, of sample_writer sample_schema
      "[Inr (Record_batch sample_batch), Inr (Record_batch sample_batch)]"
      "\<lparr>source_schema = sample_schema, source_batches = [sample_batch, sample_batch]\<rparr>"]
    sample_admissible
  by simp

section \<open>The writer is always closed\<close>

definition same_writer_state :: "('m, 'x) admission_state \<Rightarrow> ('m, 'x) admission_state \<Rightarrow> bool" where
  "same_writer_state st st' \<longleftrightarrow>
     ad_closed st' = ad_closed st \<and> ad_closes st' = ad_closes st \<and> ad_schema st' = ad_schema st"

lemma same_writer_state_trans:
  "same_writer_state st st1 \<Longrightarrow> same_writer_state st1 st2 \<Longrightarrow> same_writer_state st st2"
  by (simp add: same_writer_state_def)

lemma drain_same: "same_writer_state st (snd (drain_within_limit st))"
  by (simp add: same_writer_state_def drain_within_limit_def sink_drain_def Let_def)

lemma writer_write_same: "same_writer_state st (snd (writer_write w b st))"
  by (simp add: same_writer_state_def writer_write_def split: prod.split)

lemma admit_same: "same_writer_state st (snd (admit w obj st))"
proof -
  have refl: "same_writer_state st st" by (simp add: same_writer_state_def)
  have count: "same_writer_state st (st\<lparr>ad_rows := r, ad_decoded_bytes := d\<rparr>)" for r d
    by (simp add: same_writer_state_def)
  have written: "same_writer_state st (snd (case writer_write w b st1 of
      (Inl x, st2) \<Rightarrow> (Inl x, st2) | (Inr _, st2) \<Rightarrow> drain_within_limit st2))"
    if "same_writer_state st st1" for b st1
    using that writer_write_same[of st1 w b]
    by (cases "writer_write w b st1"; cases "fst (writer_write w b st1)")
      (auto intro: same_writer_state_trans[OF _ drain_same] same_writer_state_trans)
  show ?thesis
    by (auto simp: admit_def Let_def refl count written split: py_object.split sum.split)
qed

lemma admit_all_same: "admit_all w items st = (res, st') \<Longrightarrow> same_writer_state st st'"
proof (induction w items st arbitrary: res st' rule: admit_all.induct)
  case (1 w st)
  then show ?case by (simp add: same_writer_state_def)
next
  case (2 w x items st)
  then show ?case by (simp add: same_writer_state_def)
next
  case (3 w obj items st)
  obtain m st1 where adm: "admit w obj st = (m, st1)" by fastforce
  with admit_same[of st w obj] have st1: "same_writer_state st st1" by simp
  with 3 adm show ?case
    by (cases m) (auto split: prod.splits sum.splits intro: same_writer_state_trans)
qed

lemma finish_closes:
  assumes "finish w st = (res, st')" and "\<not> ad_closed st" and "ad_closes st = 0"
  shows "ad_closes st' = 1 \<and> (is_ok res \<longrightarrow> ad_closed st') \<and> ad_schema st' = ad_schema st \<and>
    ad_written st' = ad_written st \<and>
    (ad_closed st' \<or> \<not> is_ok (snd (ipc_close w (ad_schema st) (ad_written st) 0)))"
proof -
  obtain chunks r where c: "ipc_close w (ad_schema st) (ad_written st) 0 = (chunks, r)" by fastforce
  with assms show ?thesis
    by (cases r) (auto simp: finish_def writer_close_def drain_within_limit_def sink_drain_def Let_def)
qed

lemma admission_close_closes:
  assumes "admission_close w st = (res, st')"
  shows "ad_closed st' \<and> ad_schema st' = ad_schema st \<and> ad_written st' = ad_written st \<and>
    ad_closes st' = (if ad_closed st then ad_closes st else Suc (ad_closes st))"
  using assms by (auto simp: admission_close_def writer_close_def split: if_splits prod.splits)

text \<open>
  Property C34.  The IPC writer is never leaked: once it has been created, every way in which
  admission can end, normally or with any exception, has called its \<open>close\<close>, exactly once when
  admission succeeds and at most twice otherwise (when the first \<open>close\<close> itself raised).
\<close>

theorem writer_closed_on_every_path:
  "case admit_record_batches w s items l of
     (res, None) \<Rightarrow> \<not> is_ok res \<and> \<not> is_ok (new_admission w s l)
   | (res, Some st) \<Rightarrow> ad_closed st \<and>
       (if is_ok res then ad_closes st = 1
        else ad_closes st = 1 \<or> ad_closes st = 2 \<and> \<not> is_ok (snd (ipc_close w s (ad_written st) 0)))"
proof (cases "new_admission w s l")
  case (Inl x)
  then show ?thesis by (simp add: admit_record_batches_def)
next
  case (Inr st)
  then have st: "\<not> ad_closed st" "ad_closes st = 0" "ad_schema st = s"
    using new_admission_Inr(2)[OF Inr] by (auto simp: admitted_state_def)
  obtain m st1 where m: "admit_all w items st = (m, st1)" by fastforce
  with admit_all_same[OF m] st have st1: "\<not> ad_closed st1" "ad_closes st1 = 0" "ad_schema st1 = s"
    by (auto simp: same_writer_state_def)
  obtain f st2 where f: "finish w st1 = (f, st2)" by fastforce
  note fin = finish_closes[OF f st1(1,2)]
  obtain c1 st3 where c1: "admission_close w st1 = (c1, st3)" by fastforce
  obtain c2 st4 where c2: "admission_close w st2 = (c2, st4)" by fastforce
  show ?thesis
    using Inr m f c1 c2 st1 fin admission_close_closes[OF c1] admission_close_closes[OF c2]
    by (cases m; cases f; cases c1; cases c2) (auto simp: admit_record_batches_def)
qed

section \<open>Replay\<close>

text \<open>
  The generator over accepted batches: its chunks are the part of the stream not yet written,
  none is empty, and it ends normally.
\<close>

lemma ipc_loop_ok:
  assumes "\<forall>b \<in> set bs. batch_schema b = s" and "writer_accepts w s hist bs"
    and "snd (ipc_close w s (hist @ bs) 0) = Inr ()"
    and "stream_prefix w s hist = pre @ concat (sink_chunks sink)" and "length pre = written"
    and "int (length (ipc_stream w s (hist @ bs))) \<le> bound"
  shows "\<exists>chunks. ipc_loop w s bound (as_items bs) hist sink written = (chunks, Inr ()) \<and>
    pre @ concat chunks = ipc_stream w s (hist @ bs) \<and> [] \<notin> set chunks"
  using assms
proof (induction bs arbitrary: hist pre sink written)
  case Nil
  obtain cs where cs: "ipc_close w s hist 0 = (cs, Inr ())"
    using Nil.prems(3) by (cases "ipc_close w s hist 0") auto
  have "ipc_stream w s hist = pre @ concat (sink_chunks sink) @ concat cs"
    using Nil.prems(4) cs by (simp add: ipc_stream_def)
  with Nil.prems(5,6) cs show ?case
    by (auto simp: Let_def sink_drain_def sink_write_all_chunks emit_def)
next
  case (Cons b bs)
  obtain cs where cs: "ipc_write w s hist b = (cs, Inr ())"
    using Cons.prems(2) by (cases "ipc_write w s hist b") auto
  obtain chunk sink' where drain: "sink_drain (sink_write_all cs sink) = (chunk, sink')" by fastforce
  then have chunk: "chunk = concat (sink_chunks sink) @ concat cs" "sink_chunks sink' = []"
    by (auto simp: sink_drain_def sink_write_all_chunks)
  have pre: "stream_prefix w s (hist @ [b]) = (pre @ chunk) @ concat (sink_chunks sink')"
    using Cons.prems(4) cs chunk by (simp add: stream_prefix_snoc)
  have len: "int (length (pre @ chunk)) \<le> bound"
    using stream_prefix_mono[of w s "hist @ [b]" bs] Cons.prems(6) pre chunk(2)
    by (simp add: ipc_stream_def)
  have "\<exists>chunks. ipc_loop w s bound (as_items bs) (hist @ [b]) sink' (written + length chunk) = (chunks, Inr ()) \<and>
    (pre @ chunk) @ concat chunks = ipc_stream w s ((hist @ [b]) @ bs) \<and> [] \<notin> set chunks"
    by (rule Cons.IH) (use Cons.prems pre in auto)
  then obtain chunks where rest: "ipc_loop w s bound (as_items bs) (hist @ [b]) sink' (written + length chunk) = (chunks, Inr ())"
    "pre @ chunk @ concat chunks = ipc_stream w s (hist @ b # bs)" "[] \<notin> set chunks" by auto
  have "ipc_loop w s bound (as_items (b # bs)) hist sink written = emit chunk (chunks, Inr ())"
    using cs drain rest(1) len Cons.prems(1,5) by simp
  with rest(2,3) show ?case by (auto simp: emit_def)
qed

lemma admissible_replays:
  assumes adm: "admissible w s l (source_batches src)" and pos: "0 < maximum_arrow_bytes l"
  obtains chunks where "ipc_chunks w s (open_batches src) (maximum_arrow_bytes l) = (chunks, Inr ())"
    "concat chunks = ipc_stream w s (source_batches src)" "[] \<notin> set chunks"
    "int (length (concat chunks)) \<le> maximum_arrow_bytes l"
proof -
  obtain cs where cs: "ipc_new w s = (cs, Inr ())"
    using adm by (cases "ipc_new w s") (auto simp: admissible_def)
  have "\<exists>chunks. ipc_loop w s (maximum_arrow_bytes l) (as_items (source_batches src)) []
      (sink_write_all cs new_sink) 0 = (chunks, Inr ()) \<and>
    [] @ concat chunks = ipc_stream w s ([] @ source_batches src) \<and> [] \<notin> set chunks"
    by (rule ipc_loop_ok)
      (use adm cs in \<open>auto simp: admissible_def stream_prefix_def sink_write_all_chunks new_sink_def\<close>)
  with adm cs pos that show ?thesis by (auto simp: ipc_chunks_def open_batches_def admissible_def)
qed

text \<open>
  Property C25.  An admitted result can be replayed: serialising the source again under the same
  byte bound never fails, yields only non-empty chunks, and their concatenation is the complete
  IPC stream of its batches, which is within the bound.
\<close>

theorem admitted_source_replays:
  assumes "new_limits rows cols cell arrow decoded = Inr l"
    and "fst (admit_record_batches w s items l) = Inr src"
  shows "\<exists>chunks. ipc_chunks w s (open_batches src) (maximum_arrow_bytes l) = (chunks, Inr ()) \<and>
    concat chunks = ipc_stream w s (source_batches src) \<and> [] \<notin> set chunks \<and>
    int (length (concat chunks)) \<le> maximum_arrow_bytes l"
proof -
  have adm: "admissible w s l (source_batches src)"
    using admission_exact_iff[OF assms(1)] assms(2) by blast
  have pos: "0 < maximum_arrow_bytes l"
    using new_limits_positive[OF assms(1)] by (simp add: positive_limits_def)
  from admissible_replays[OF adm pos] show ?thesis by blast
qed

theorem admitted_source_replays_witness:
  "\<exists>chunks. ipc_chunks sample_writer sample_schema
      (open_batches \<lparr>source_schema = sample_schema, source_batches = [sample_batch, sample_batch]\<rparr>)
      (maximum_arrow_bytes MVP_ARROW_LIMITS) = (chunks, Inr ()) \<and> length (concat chunks) = 51"
proof -
  let ?src = "\<lparr>source_schema = sample_schema, source_batches = [sample_batch, sample_batch]\<rparr>"
  have "fst (admit_record_batches sample_writer sample_schema (open_batches ?src) MVP_ARROW_LIMITS) = Inr ?src"
    unfolding admission_exact_iff[OF MVP_ARROW_LIMITS_built] using sample_admissible
    by (simp add: open_batches_def)
  from admitted_source_replays[OF MVP_ARROW_LIMITS_built this] obtain chunks where
    "ipc_chunks sample_writer sample_schema (open_batches ?src) (maximum_arrow_bytes MVP_ARROW_LIMITS) = (chunks, Inr ())"
    "concat chunks = ipc_stream sample_writer sample_schema (source_batches ?src)" by blast
  moreover have "length (ipc_stream sample_writer sample_schema (source_batches ?src)) = 51"
    by (simp add: ipc_stream_def stream_prefix_def sample_writer_def sample_batch_def)
  ultimately show ?thesis by metis
qed

lemma abandon_chunks [simp]: "fst (abandon_writer w s hist closes x) = []"
  by (simp add: abandon_writer_def)

lemma emit_bounded:
  assumes "int written + length chunk + length (concat (fst out)) \<le> bound" and "[] \<notin> set (fst out)"
  shows "int written + length (concat (fst (emit chunk out))) \<le> bound \<and> [] \<notin> set (fst (emit chunk out))"
  using assms by (auto simp: emit_def)

lemma ipc_loop_bounded:
  "int written \<le> bound \<Longrightarrow>
   int written + length (concat (fst (ipc_loop w s bound items hist sink written))) \<le> bound \<and>
   [] \<notin> set (fst (ipc_loop w s bound items hist sink written))"
proof (induction items arbitrary: hist sink written)
  case Nil
  obtain cs r where cl: "ipc_close w s hist 0 = (cs, r)" by fastforce
  define chunk where "chunk = fst (sink_drain (sink_write_all cs sink))"
  show ?case
    using Nil cl emit_bounded[of written chunk "([], Inr ())" bound]
    by (cases r) (auto simp: Let_def chunk_def)
next
  case (Cons item items)
  show ?case
  proof (cases "\<exists>b. item = Inr (Record_batch b) \<and> batch_schema b = s \<and> snd (ipc_write w s hist b) = Inr ()")
    case False
    then show ?thesis
    proof (cases item)
      case (Inr obj)
      with False Cons.prems show ?thesis by (cases obj) (auto split: prod.splits sum.splits)
    qed (use Cons.prems in simp)
  next
    case True
    then obtain b cs where b: "item = Inr (Record_batch b)" "batch_schema b = s"
      "ipc_write w s hist b = (cs, Inr ())" by (metis prod.collapse)
    obtain chunk sink' where drain: "sink_drain (sink_write_all cs sink) = (chunk, sink')" by fastforce
    show ?thesis
    proof (cases "bound < int (written + length chunk)")
      case True
      with b drain Cons.prems show ?thesis by simp
    next
      case False
      let ?out = "ipc_loop w s bound items (hist @ [b]) sink' (written + length chunk)"
      have "ipc_loop w s bound (item # items) hist sink written = emit chunk ?out"
        using b drain False by simp
      with emit_bounded[of written chunk ?out bound] Cons.IH[of "written + length chunk" "hist @ [b]" sink'] False
      show ?thesis by simp
    qed
  qed
qed

text \<open>A generator that ends normally has yielded the complete stream.\<close>

lemma ipc_loop_complete:
  assumes "ipc_loop w s bound (as_items bs) hist sink written = (chunks, Inr ())"
    and "stream_prefix w s hist = pre @ concat (sink_chunks sink)"
  shows "pre @ concat chunks = ipc_stream w s (hist @ bs)"
  using assms
proof (induction bs arbitrary: hist pre sink written chunks)
  case Nil
  obtain cs r where cl: "ipc_close w s hist 0 = (cs, r)" by fastforce
  with Nil show ?case
    by (cases r) (auto simp: Let_def sink_drain_def sink_write_all_chunks emit_def ipc_stream_def
        abandon_writer_def split: if_splits sum.splits)
next
  case (Cons b bs)
  obtain cs r where wr: "ipc_write w s hist b = (cs, r)" by fastforce
  obtain chunk sink' where drain: "sink_drain (sink_write_all cs sink) = (chunk, sink')" by fastforce
  let ?out = "ipc_loop w s bound (as_items bs) (hist @ [b]) sink' (written + length chunk)"
  have abandoned: "abandon_writer w s h k x \<noteq> (chunks, Inr ())" for h k x
    by (simp add: abandon_writer_def split: sum.split)
  have out: "emit chunk ?out = (chunks, Inr ())" and r: "r = Inr ()"
    using Cons.prems(1) wr drain abandoned by (cases r; auto split: if_splits)+
  obtain chunks' where rest: "?out = (chunks', Inr ())" "concat chunks = chunk @ concat chunks'"
    using out by (cases ?out) (auto simp: emit_def split: if_splits)
  have "stream_prefix w s (hist @ [b]) = (pre @ chunk) @ concat (sink_chunks sink')"
    using Cons.prems(2) wr drain by (auto simp: stream_prefix_snoc sink_drain_def sink_write_all_chunks)
  from Cons.IH[OF rest(1) this] rest(2) show ?case by simp
qed

lemma ipc_chunks_complete:
  assumes "ipc_chunks w s (open_batches src) bound = (chunks, Inr ())"
  shows "concat chunks = ipc_stream w s (source_batches src)"
proof -
  obtain cs where cs: "ipc_new w s = (cs, Inr ())" "ipc_loop w s bound (as_items (source_batches src)) []
      (sink_write_all cs new_sink) 0 = (chunks, Inr ())"
    using assms by (cases "ipc_new w s")
      (auto simp: ipc_chunks_def open_batches_def split: if_splits sum.splits)
  have "stream_prefix w s [] = [] @ concat (sink_chunks (sink_write_all cs new_sink))"
    using cs(1) by (simp add: stream_prefix_def sink_write_all_chunks new_sink_def)
  from ipc_loop_complete[OF cs(2) this] show ?thesis by simp
qed

text \<open>
  Whatever the source yields, admitted or not, the chunks that leave the generator
  never exceed the byte bound it was given, and none is empty.
\<close>

theorem ipc_chunks_bounded:
  "int (length (concat (fst (ipc_chunks w s items bound)))) \<le> max 0 bound \<and>
   [] \<notin> set (fst (ipc_chunks w s items bound))"
proof (cases "bound \<le> 0")
  case True
  then show ?thesis by (simp add: ipc_chunks_def)
next
  case False
  obtain cs r where "ipc_new w s = (cs, r)" by fastforce
  with False ipc_loop_bounded[of 0 bound w s items "[]" "sink_write_all cs new_sink"]
  show ?thesis by (cases r) (auto simp: ipc_chunks_def)
qed

end
