(* ===== verification/Private_Key.thy ===== *)
theory Private_Key
  imports Tokens
begin

text \<open>
  Loading of the RSA private key (\<open>src/snowglobe/private_key.py\<close>).  The file system and the
  \<open>cryptography\<close> package are a parameter: what reading the file and parsing its bytes as PEM and
  as DER answer, which keys are RSA, and their PKCS#8 bytes.
\<close>

record 'k key_library =
  read_bytes :: "string \<Rightarrow> byte list result"
  load_pem :: "byte list \<Rightarrow> 'k result"
  load_der :: "byte list \<Rightarrow> 'k result"
  is_rsa :: "'k \<Rightarrow> bool"
  pkcs8_der :: "'k \<Rightarrow> byte list result"
  path_text :: "string \<Rightarrow> string"
  error_text :: "py_exn \<Rightarrow> string"

definition could_not_read :: "'k key_library \<Rightarrow> string \<Rightarrow> py_exn \<Rightarrow> py_exn" where
  "could_not_read lib path x =
     PrivateKeyError (''could not read private key '' @ path_text lib path @ '': '' @ error_text lib x)"

definition could_not_parse :: "'k key_library \<Rightarrow> string \<Rightarrow> py_exn \<Rightarrow> py_exn" where
  "could_not_parse lib path x =
     PrivateKeyError (''could not parse private key '' @ path_text lib path @ '': '' @ error_text lib x)"

text \<open>PEM first; DER only when PEM raised a \<open>ValueError\<close>.\<close>

definition parse_key :: "'k key_library \<Rightarrow> byte list \<Rightarrow> 'k result" where
  "parse_key lib bytes =
     (case load_pem lib bytes of
        Inr k \<Rightarrow> Inr k
      | Inl x \<Rightarrow> if is_ValueError x then load_der lib bytes else Inl x)"

definition load_private_key :: "'k key_library \<Rightarrow> string \<Rightarrow> byte list result" where
  "load_private_key lib path =
     (case read_bytes lib path of
        Inl x \<Rightarrow> Inl (if x = OSError then could_not_read lib path x else x)
      | Inr bytes \<Rightarrow>
          (case parse_key lib bytes of
             Inl x \<Rightarrow> Inl (if x = TypeError \<or> is_ValueError x then could_not_parse lib path x else x)
           | Inr k \<Rightarrow>
               if \<not> is_rsa lib k
               then Inl (PrivateKeyError (''private key '' @ path_text lib path @ '' must be RSA''))
               else pkcs8_der lib k))"

text \<open>Only the bytes of an RSA key that the file's bytes parse to are ever returned.\<close>

lemma load_private_key_Inr:
  "load_private_key lib path = Inr der \<longleftrightarrow>
   (\<exists>bytes k. read_bytes lib path = Inr bytes \<and> parse_key lib bytes = Inr k \<and> is_rsa lib k \<and>
      pkcs8_der lib k = Inr der)"
  by (auto simp: load_private_key_def split: sum.splits if_splits)

lemma parse_key_Inr:
  "parse_key lib bytes = Inr k \<longleftrightarrow>
   load_pem lib bytes = Inr k \<or>
   (\<exists>x. load_pem lib bytes = Inl x \<and> is_ValueError x \<and> load_der lib bytes = Inr k)"
  by (auto simp: parse_key_def split: sum.splits if_splits)

text \<open>Reading and parsing failures of the documented classes become \<open>PrivateKeyError\<close>.\<close>

lemma load_private_key_Inl:
  assumes "load_private_key lib path = Inl x"
  shows "(\<exists>m. x = PrivateKeyError m) \<or> (\<exists>k. pkcs8_der lib k = Inl x) \<or>
    (x \<noteq> OSError \<and> read_bytes lib path = Inl x) \<or>
    (x \<noteq> TypeError \<and> \<not> is_ValueError x \<and> (\<exists>bytes. load_pem lib bytes = Inl x \<or> load_der lib bytes = Inl x))"
  using assms
  by (auto simp: load_private_key_def parse_key_def could_not_read_def could_not_parse_def
      split: sum.splits if_splits)

end
