(* ===== verification/Configuration.thy ===== *)
theory Configuration
  imports Private_Key Mvp_Limits
begin

text \<open>
  Strict local configuration (\<open>src/snowglobe/configuration.py\<close>): the two TOML profiles and the
  connector's arguments.  Reading and parsing a file is an argument \<open>doc\<close>, a TOML document or the
  exception raised (\<open>TOMLDecodeError\<close> and \<open>UnicodeError\<close> are \<open>ValueError\<close>s); \<open>msg\<close> formats the
  message that names profile, path and error; \<open>order\<close> is the order in which Python iterates over
  the set of connection fields, which decides only which error comes first.
\<close>

section \<open>Fields and profiles\<close>

definition SCHEMA_VERSION :: int where "SCHEMA_VERSION = 1"

definition SNOWGLOBE_ROOT_FIELDS :: "string list" where
  "SNOWGLOBE_ROOT_FIELDS = [''schema_version'', ''profiles'']"

definition SNOWGLOBE_PROFILE_FIELDS :: "string list" where
  "SNOWGLOBE_PROFILE_FIELDS = [''allowed_views'']"

definition CONNECTION_FIELDS :: "string list" where
  "CONNECTION_FIELDS =
     [''account'', ''user'', ''authenticator'', ''private_key_path'', ''database'', ''warehouse'',
      ''role'']"

record snowflake_profile =
  account :: string
  user :: string
  authenticator :: string
  private_key_path :: string
  database :: string
  warehouse :: string
  role :: string

record snowglobe_profile =
  profile_views :: "string list"

section \<open>Checks on values\<close>

definition require_exact_fields :: "(string, pyval) odict \<Rightarrow> string list \<Rightarrow> unit result" where
  "require_exact_fields d expected =
     (if set (keys d) \<noteq> set expected
      then Inl (ConfigurationError ''Snowglobe configuration fields do not match the schema'')
      else Inr ())"

definition required_string :: "pyval \<Rightarrow> string result" where
  "required_string v =
     (case as_str v of
        None \<Rightarrow> Inl (ConfigurationError ''configuration values must be non-empty strings'')
      | Some s \<Rightarrow>
          if strip s = [] then Inl (ConfigurationError ''configuration values must be non-empty strings'')
          else Inr s)"

definition required_string_list :: "pyval \<Rightarrow> string list result" where
  "required_string_list v =
     (case as_list v of
        None \<Rightarrow> Inl (ConfigurationError ''allowed_views must be a non-empty list'')
      | Some vs \<Rightarrow>
          if vs = [] then Inl (ConfigurationError ''allowed_views must be a non-empty list'')
          else then_do (map_result required_string vs) (\<lambda>values.
                 if length (remdups values) \<noteq> length values
                 then Inl (ConfigurationError ''allowed_views must not contain duplicates'')
                 else Inr values))"

section \<open>Loading the profiles\<close>

text \<open>The classes both loaders catch: \<open>KeyError\<close>, \<open>OSError\<close>, \<open>TypeError\<close>, \<open>ValueError\<close>.\<close>

definition configuration_fault :: "py_exn \<Rightarrow> bool" where
  "configuration_fault x \<longleftrightarrow> x = KeyError \<or> x = OSError \<or> x = TypeError \<or> is_ValueError x"

definition reported :: "(py_exn \<Rightarrow> string) \<Rightarrow> 'a result \<Rightarrow> 'a result" where
  "reported msg r =
     (case r of
        Inr v \<Rightarrow> Inr v
      | Inl x \<Rightarrow> Inl (if configuration_fault x then ConfigurationError (msg x) else x))"

definition table_of :: "string \<Rightarrow> pyval \<Rightarrow> (string, pyval) odict result" where
  "table_of what v =
     (case as_dict v of None \<Rightarrow> Inl (ConfigurationError what) | Some d \<Rightarrow> Inr d)"

definition connection_values ::
  "string list \<Rightarrow> string \<Rightarrow> (string, pyval) odict \<Rightarrow> (string, string) odict result" where
  "connection_values order name document =
     then_do (getitem document name) (\<lambda>v.
     then_do (table_of ''Snowflake profile must be a TOML table'' v) (\<lambda>profile.
     then_do (map_result (\<lambda>f. then_do (getitem profile f) required_string) order) (\<lambda>vs.
     let values = zip order vs in
     if map_of values ''authenticator'' \<noteq> Some ''SNOWFLAKE_JWT''
     then Inl (ConfigurationError ''Snowflake profile must use SNOWFLAKE_JWT'')
     else Inr values)))"

text \<open>After the \<open>try\<close> every field is present; \<open>~\<close> in the key path is expanded there.\<close>

definition value_of :: "(string, string) odict \<Rightarrow> string \<Rightarrow> string" where
  "value_of d k = (case map_of d k of None \<Rightarrow> [] | Some v \<Rightarrow> v)"

definition load_snowflake_profile ::
  "(py_exn \<Rightarrow> string) \<Rightarrow> (string \<Rightarrow> string result) \<Rightarrow> string list \<Rightarrow>
   (string, pyval) odict result \<Rightarrow> string \<Rightarrow> snowflake_profile result"
where
  "load_snowflake_profile msg expanduser order doc name =
     then_do (reported msg (then_do doc (connection_values order name))) (\<lambda>values.
     then_do (expanduser (value_of values ''private_key_path'')) (\<lambda>path.
       Inr \<lparr>account = value_of values ''account'', user = value_of values ''user'',
            authenticator = value_of values ''authenticator'', private_key_path = path,
            database = value_of values ''database'', warehouse = value_of values ''warehouse'',
            role = value_of values ''role''\<rparr>))"

definition policy_views :: "string \<Rightarrow> (string, pyval) odict \<Rightarrow> string list result" where
  "policy_views name document =
     then_do (require_exact_fields document SNOWGLOBE_ROOT_FIELDS) (\<lambda>_.
     then_do (getitem document ''schema_version'') (\<lambda>version.
     if \<not> equals_int version SCHEMA_VERSION
     then Inl (ConfigurationError ''snowglobe.toml requires schema_version 1'')
     else
       then_do (getitem document ''profiles'') (\<lambda>v.
       then_do (table_of ''snowglobe.toml profiles must be a TOML table'' v) (\<lambda>profiles.
       then_do (getitem profiles name) (\<lambda>v'.
       then_do (table_of ''Snowglobe profile must be a TOML table'' v') (\<lambda>profile.
       then_do (require_exact_fields profile SNOWGLOBE_PROFILE_FIELDS) (\<lambda>_.
       then_do (getitem profile ''allowed_views'') required_string_list)))))))"

definition load_snowglobe_profile ::
  "(py_exn \<Rightarrow> string) \<Rightarrow> (string, pyval) odict result \<Rightarrow> string \<Rightarrow> snowglobe_profile result" where
  "load_snowglobe_profile msg doc name =
     then_do (reported msg (then_do doc (policy_views name))) (\<lambda>views.
       Inr \<lparr>profile_views = views\<rparr>)"

section \<open>Connector arguments\<close>

datatype argument =
    Arg_str string
  | Arg_bytes "byte list"
  | Arg_int int
  | Arg_bool bool
  | Arg_dict "(string \<times> argument) list"

definition build_connector_arguments ::
  "'k key_library \<Rightarrow> snowflake_profile \<Rightarrow> (string, argument) odict result" where
  "build_connector_arguments lib p =
     then_do (load_private_key lib (private_key_path p)) (\<lambda>key.
     Inr [(''account'', Arg_str (account p)),
          (''user'', Arg_str (user p)),
          (''authenticator'', Arg_str (authenticator p)),
          (''private_key'', Arg_bytes key),
          (''database'', Arg_str (database p)),
          (''warehouse'', Arg_str (warehouse p)),
          (''role'', Arg_str (role p)),
          (''client_prefetch_threads'', Arg_int 1),
          (''login_timeout'', Arg_int MVP_LOGIN_TIMEOUT_SECONDS),
          (''network_timeout'', Arg_int MVP_NETWORK_TIMEOUT_SECONDS),
          (''socket_timeout'', Arg_int MVP_SOCKET_TIMEOUT_SECONDS),
          (''session_parameters'', Arg_dict
            [(''ABORT_DETACHED_QUERY'', Arg_bool True),
             (''STATEMENT_QUEUED_TIMEOUT_IN_SECONDS'', Arg_int MVP_QUEUED_TIMEOUT_SECONDS),
             (''STATEMENT_TIMEOUT_IN_SECONDS'', Arg_int MVP_STATEMENT_TIMEOUT_SECONDS)])])"

section \<open>Facts about the checks\<close>

definition blank :: "string \<Rightarrow> bool" where
  "blank s \<longleftrightarrow> list_all is_space s"

lemma required_string_Inr: "required_string v = Inr s \<longleftrightarrow> v = PStr s \<and> \<not> blank s"
  by (cases v) (auto simp: required_string_def strip_eq_Nil blank_def)

lemma required_strings_Inr:
  "map_result required_string vs = Inr ss \<longleftrightarrow> vs = map PStr ss \<and> list_all (\<lambda>s. \<not> blank s) ss"
proof (induction vs arbitrary: ss)
  case Nil
  then show ?case by (cases ss) auto
next
  case (Cons v vs)
  then show ?case by (cases ss) (auto simp: then_do_Inr_iff required_string_Inr)
qed

lemma length_remdups_distinct: "length (remdups xs) = length xs \<longleftrightarrow> distinct xs"
  by (metis distinct_card distinct_remdups remdups_id_iff_distinct length_remdups_card_conv card_distinct set_remdups)

lemma required_string_list_Inr:
  "required_string_list v = Inr ss \<longleftrightarrow>
     v = PList (map PStr ss) \<and> ss \<noteq> [] \<and> list_all (\<lambda>s. \<not> blank s) ss \<and> distinct ss"
  by (cases v) (auto simp: required_string_list_def then_do_Inr_iff required_strings_Inr
      length_remdups_distinct)

lemma require_exact_fields_Inr: "require_exact_fields d fs = Inr u \<longleftrightarrow> set (keys d) = set fs"
  by (simp add: require_exact_fields_def)

lemma table_of_Inr: "table_of what v = Inr d \<longleftrightarrow> v = PDict d"
  by (cases v) (auto simp: table_of_def)

lemma reported_Inr [simp]: "reported msg r = Inr v \<longleftrightarrow> r = Inr v"
  by (auto simp: reported_def split: sum.splits)

lemmas configuration_Inr =
  then_do_Inr_iff required_string_list_Inr require_exact_fields_Inr table_of_Inr required_string_Inr

lemma connection_values_Inr:
  assumes "''authenticator'' \<in> set order"
  shows "connection_values order name document = Inr values \<longleftrightarrow>
    (\<exists>profile. map_of document name = Some (PDict profile) \<and>
       keys values = order \<and>
       list_all (\<lambda>(f, s). map_of profile f = Some (PStr s) \<and> \<not> blank s) values \<and>
       map_of values ''authenticator'' = Some ''SNOWFLAKE_JWT'')"
proof -
  have fields: "map_result (\<lambda>f. then_do (getitem profile f) required_string) fs = Inr vs \<longleftrightarrow>
      length vs = length fs \<and> list_all (\<lambda>(f, s). map_of profile f = Some (PStr s) \<and> \<not> blank s) (zip fs vs)"
    for profile fs vs
  proof (induction fs arbitrary: vs)
    case Nil
    then show ?case by auto
  next
    case (Cons f fs)
    then show ?case by (cases vs) (auto simp: configuration_Inr)
  qed
  show ?thesis
  proof
    assume "connection_values order name document = Inr values"
    then show "\<exists>profile. map_of document name = Some (PDict profile) \<and> keys values = order \<and>
       list_all (\<lambda>(f, s). map_of profile f = Some (PStr s) \<and> \<not> blank s) values \<and>
       map_of values ''authenticator'' = Some ''SNOWFLAKE_JWT''"
      by (auto simp: connection_values_def Let_def then_do_Inr_iff table_of_Inr fields split: if_splits)
  next
    assume "\<exists>profile. map_of document name = Some (PDict profile) \<and> keys values = order \<and>
       list_all (\<lambda>(f, s). map_of profile f = Some (PStr s) \<and> \<not> blank s) values \<and>
       map_of values ''authenticator'' = Some ''SNOWFLAKE_JWT''"
    then obtain profile where p: "map_of document name = Some (PDict profile)" "keys values = order"
      "list_all (\<lambda>(f, s). map_of profile f = Some (PStr s) \<and> \<not> blank s) values"
      "map_of values ''authenticator'' = Some ''SNOWFLAKE_JWT''" by blast
    have "zip order (vals values) = values" using p(2) by (metis zip_map_fst_snd)
    moreover have "length (vals values) = length order" using p(2) by (metis length_map)
    ultimately show "connection_values order name document = Inr values"
      using p fields[of profile order "vals values"]
      by (simp add: connection_values_def Let_def then_do_Inr_iff table_of_Inr)
  qed
qed

lemma policy_views_Inr:
  "policy_views name document = Inr vs \<longleftrightarrow>
     set (keys document) = set SNOWGLOBE_ROOT_FIELDS \<and>
     (\<exists>version. map_of document ''schema_version'' = Some version \<and> equals_int version 1 \<and>
        (\<exists>profiles. map_of document ''profiles'' = Some (PDict profiles) \<and>
           (\<exists>profile. map_of profiles name = Some (PDict profile) \<and>
              set (keys profile) = set SNOWGLOBE_PROFILE_FIELDS \<and>
              (\<exists>v. map_of profile ''allowed_views'' = Some v \<and> required_string_list v = Inr vs))))"
proof -
  have guard: "(if \<not> b then Inl e else r) = Inr x \<longleftrightarrow> b \<and> r = Inr x"
    for b e and r :: "'a result" and x by simp
  show ?thesis
    by (simp only: policy_views_def then_do_Inr_iff require_exact_fields_Inr table_of_Inr
        getitem_Inr SCHEMA_VERSION_def guard) blast
qed

section \<open>Properties\<close>

text \<open>
  Property C37.  The policy file is read strictly: a profile is loaded exactly from a document with
  the two root fields and nothing else, schema version 1, a table of profiles with the named one a
  table whose only field is a non-empty list of distinct, non-blank strings; and these are the
  configured views, in order.
\<close>

theorem snowglobe_profile_exact:
  "load_snowglobe_profile msg (Inr document) name = Inr p \<longleftrightarrow>
     set (keys document) = {''schema_version'', ''profiles''} \<and>
     (\<exists>version profiles profile.
        map_of document ''schema_version'' = Some version \<and> equals_int version 1 \<and>
        map_of document ''profiles'' = Some (PDict profiles) \<and>
        map_of profiles name = Some (PDict profile) \<and>
        set (keys profile) = {''allowed_views''} \<and>
        map_of profile ''allowed_views'' = Some (PList (map PStr (profile_views p)))) \<and>
     profile_views p \<noteq> [] \<and> distinct (profile_views p) \<and>
     list_all (\<lambda>s. \<not> blank s) (profile_views p)"
proof -
  have views: "policy_views name document = Inr vs \<longleftrightarrow>
     set (keys document) = {''schema_version'', ''profiles''} \<and>
     (\<exists>version profiles profile.
        map_of document ''schema_version'' = Some version \<and> equals_int version 1 \<and>
        map_of document ''profiles'' = Some (PDict profiles) \<and>
        map_of profiles name = Some (PDict profile) \<and>
        set (keys profile) = {''allowed_views''} \<and>
        map_of profile ''allowed_views'' = Some (PList (map PStr vs))) \<and>
     vs \<noteq> [] \<and> distinct vs \<and> list_all (\<lambda>s. \<not> blank s) vs" for vs
    unfolding policy_views_Inr required_string_list_Inr SNOWGLOBE_ROOT_FIELDS_def SNOWGLOBE_PROFILE_FIELDS_def by auto
  have "load_snowglobe_profile msg (Inr document) name = Inr p \<longleftrightarrow>
      policy_views name document = Inr (profile_views p)"
    by (cases p) (auto simp: load_snowglobe_profile_def then_do_Inr_iff)
  then show ?thesis by (simp only: views)
qed

end
