(* ===== verification/Snowflake.thy ===== *)
theory Snowflake
  imports Configuration Arrow_Stream
begin

text \<open>
  The request-scoped connection and cursor (\<open>src/snowglobe/snowflake.py\<close>).  The Snowflake
  connector is not part of the program: the record \<open>driver\<close> says what each of its calls answers,
  given the log of all calls made to it so far.  Connections \<open>'n\<close> and cursors \<open>'c\<close> are opaque.
\<close>

section \<open>The driver\<close>

text \<open>What the connector has been asked to do, with the outcome where the caller goes on with it.\<close>

datatype ('n, 'c) driver_event =
    Connect_failed
  | Connected 'n
  | Cursor_failed 'n
  | Cursor_opened 'n 'c
  | Executed 'c string int
  | Fetched 'c
  | Cursor_closed 'c
  | Connection_closed 'n

type_synonym ('n, 'c) driver_log = "('n, 'c) driver_event list"

text \<open>
  Objects an iterable of tables yields: a \<open>pa.Table\<close> with its batches, \<open>None\<close>, anything else.
\<close>

record ('m, 'x) arrow_table =
  table_schema :: "'m schema"
  table_num_rows :: int
  table_batches :: "('m, 'x) batch list"

datatype ('m, 'x) table_object =
    Arrow_table "('m, 'x) arrow_table"
  | None_object
  | Other_table_object nat

record ('m, 'x) result_batch =
  rowcount :: int
  to_arrow :: "('m, 'x) table_object result"

type_synonym arguments = "(string, argument) odict"

text \<open>\<open>SnowflakeConnect\<close>.\<close>

type_synonym ('n, 'c) connect = "('n, 'c) driver_log \<Rightarrow> arguments \<Rightarrow> 'n result"

record ('n, 'c, 'm, 'x) driver =
  dr_import :: "unit result"
  dr_connect :: "('n, 'c) connect"
  dr_cursor :: "('n, 'c) driver_log \<Rightarrow> 'n \<Rightarrow> 'c result"
  dr_execute :: "('n, 'c) driver_log \<Rightarrow> 'c \<Rightarrow> string \<Rightarrow> int \<Rightarrow> unit result"
  dr_fetch :: "('n, 'c) driver_log \<Rightarrow> 'c \<Rightarrow> ('m, 'x) table_object result list result"
  dr_result_batches :: "('n, 'c) driver_log \<Rightarrow> 'c \<Rightarrow> ('m, 'x) result_batch list option result"
  dr_close_cursor :: "('n, 'c) driver_log \<Rightarrow> 'c \<Rightarrow> unit result"
  dr_close_connection :: "('n, 'c) driver_log \<Rightarrow> 'n \<Rightarrow> unit result"

section \<open>The connector's logger\<close>

datatype log_handler = Null_handler | Other_handler nat

record logger =
  log_handlers :: "log_handler list"
  log_level :: int
  log_propagate :: bool

definition CRITICAL :: int where "CRITICAL = 50"

definition suppress_connector_logs :: "logger \<Rightarrow> logger" where
  "suppress_connector_logs l =
     l\<lparr>log_handlers := [Null_handler], log_level := CRITICAL + 1, log_propagate := False\<rparr>"

section \<open>Calls\<close>

text \<open>The process state a request's connection needs; the executor's state extends it.\<close>

record ('n, 'c) connector_state =
  conn_log :: "('n, 'c) driver_log"
  conn_logger :: logger

definition note_call ::
  "('n, 'c) driver_event \<Rightarrow> ('n, 'c, 'z) connector_state_scheme \<Rightarrow>
   ('n, 'c, 'z) connector_state_scheme"
where
  "note_call ev st = st\<lparr>conn_log := conn_log st @ [ev]\<rparr>"

text \<open>\<open>_connect\<close> imports the connector first; \<open>connect or _connect\<close> chooses who is called.\<close>

definition connect_default :: "('n, 'c, 'm, 'x) driver \<Rightarrow> ('n, 'c) connect" where
  "connect_default d calls args = then_do (dr_import d) (\<lambda>_. dr_connect d calls args)"

definition open_connection ::
  "('n, 'c, 'm, 'x) driver \<Rightarrow> ('n, 'c) connect option \<Rightarrow> arguments \<Rightarrow>
   ('n, 'c, 'z) connector_state_scheme \<Rightarrow> 'n result \<times> ('n, 'c, 'z) connector_state_scheme"
where
  "open_connection d connect args st =
     (case (case connect of None \<Rightarrow> connect_default d | Some f \<Rightarrow> f) (conn_log st) args of
        Inl x \<Rightarrow> (Inl x, note_call Connect_failed st)
      | Inr n \<Rightarrow> (Inr n, note_call (Connected n) st))"

definition open_cursor ::
  "('n, 'c, 'm, 'x) driver \<Rightarrow> 'n \<Rightarrow> ('n, 'c, 'z) connector_state_scheme \<Rightarrow>
   'c result \<times> ('n, 'c, 'z) connector_state_scheme"
where
  "open_cursor d n st =
     (case dr_cursor d (conn_log st) n of
        Inl x \<Rightarrow> (Inl x, note_call (Cursor_failed n) st)
      | Inr c \<Rightarrow> (Inr c, note_call (Cursor_opened n c) st))"

definition close_cursor ::
  "('n, 'c, 'm, 'x) driver \<Rightarrow> 'c \<Rightarrow> ('n, 'c, 'z) connector_state_scheme \<Rightarrow>
   unit result \<times> ('n, 'c, 'z) connector_state_scheme"
where
  "close_cursor d c st = (dr_close_cursor d (conn_log st) c, note_call (Cursor_closed c) st)"

definition close_connection ::
  "('n, 'c, 'm, 'x) driver \<Rightarrow> 'n \<Rightarrow> ('n, 'c, 'z) connector_state_scheme \<Rightarrow>
   unit result \<times> ('n, 'c, 'z) connector_state_scheme"
where
  "close_connection d n st =
     (dr_close_connection d (conn_log st) n, note_call (Connection_closed n) st)"

text \<open>
  \<open>try: body finally: cleanup\<close>: the cleanup runs on every path, and an exception of its own
  replaces the outcome of the body.
\<close>

definition finally_outcome :: "'a result \<Rightarrow> unit result \<Rightarrow> 'a result" where
  "finally_outcome r cleanup = (case cleanup of Inl y \<Rightarrow> Inl y | Inr _ \<Rightarrow> r)"

definition try_finally ::
  "('z \<Rightarrow> 'a result \<times> 'z) \<Rightarrow> ('z \<Rightarrow> unit result \<times> 'z) \<Rightarrow> 'z \<Rightarrow> 'a result \<times> 'z" where
  "try_finally body cleanup st =
     (case body st of (r, st1) \<Rightarrow>
        (case cleanup st1 of (r', st2) \<Rightarrow> (finally_outcome r r', st2)))"

section \<open>request_cursor\<close>

text \<open>The context manager around the body of its \<open>with\<close> block.\<close>

definition request_cursor ::
  "('n, 'c, 'm, 'x) driver \<Rightarrow> ('n, 'c) connect option \<Rightarrow> arguments \<Rightarrow>
   ('c \<Rightarrow> ('n, 'c, 'z) connector_state_scheme \<Rightarrow> 'a result \<times> ('n, 'c, 'z) connector_state_scheme) \<Rightarrow>
   ('n, 'c, 'z) connector_state_scheme \<Rightarrow> 'a result \<times> ('n, 'c, 'z) connector_state_scheme"
where
  "request_cursor d connect args body st =
     (case open_connection d connect args
             (st\<lparr>conn_logger := suppress_connector_logs (conn_logger st)\<rparr>) of
        (Inl x, st1) \<Rightarrow> (Inl x, st1)
      | (Inr n, st1) \<Rightarrow>
          try_finally
            (\<lambda>st. case open_cursor d n st of
                    (Inl x, st2) \<Rightarrow> (Inl x, st2)
                  | (Inr c, st2) \<Rightarrow> try_finally (body c) (close_cursor d c) st2)
            (close_connection d n) st1)"

section \<open>Facts\<close>

lemma note_call_frame [simp]:
  "conn_log (note_call ev st) = conn_log st @ [ev]"
  "conn_logger (note_call ev st) = conn_logger st"
  "connector_state.more (note_call ev st) = connector_state.more st"
  by (simp_all add: note_call_def)

definition quiet_logger :: "logger \<Rightarrow> bool" where
  "quiet_logger l \<longleftrightarrow>
     log_handlers l = [Null_handler] \<and> CRITICAL < log_level l \<and> \<not> log_propagate l"

lemma suppress_connector_logs_quiet [simp]: "quiet_logger (suppress_connector_logs l)"
  by (simp add: quiet_logger_def suppress_connector_logs_def)

lemma suppress_connector_logs_idem [simp]:
  "quiet_logger l \<Longrightarrow> log_level l = CRITICAL + 1 \<Longrightarrow> suppress_connector_logs l = l"
  by (cases l) (simp add: quiet_logger_def suppress_connector_logs_def)

lemma finally_outcome_Inr: "finally_outcome r c = Inr v \<longleftrightarrow> r = Inr v \<and> c = Inr ()"
  by (auto simp: finally_outcome_def split: sum.splits)

text \<open>How often an object was opened and closed, and the difference.\<close>

definition connection_balance :: "'n \<Rightarrow> ('n, 'c) driver_log \<Rightarrow> int" where
  "connection_balance n calls =
     int (count_list calls (Connected n)) - int (count_list calls (Connection_closed n))"

definition cursor_opens :: "'c \<Rightarrow> ('n, 'c) driver_log \<Rightarrow> nat" where
  "cursor_opens c calls = length (filter (\<lambda>ev. case ev of Cursor_opened n c' \<Rightarrow> c' = c | _ \<Rightarrow> False) calls)"

definition cursor_balance :: "'c \<Rightarrow> ('n, 'c) driver_log \<Rightarrow> int" where
  "cursor_balance c calls = int (cursor_opens c calls) - int (count_list calls (Cursor_closed c))"

lemma connection_balance_Nil [simp]: "connection_balance n [] = 0"
  by (simp add: connection_balance_def)

lemma cursor_balance_Nil [simp]: "cursor_balance c [] = 0"
  by (simp add: cursor_balance_def cursor_opens_def)

lemma connection_balance_Cons [simp]:
  "connection_balance n (ev # calls) =
     (case ev of Connected n' \<Rightarrow> of_bool (n' = n) | Connection_closed n' \<Rightarrow> - of_bool (n' = n) | _ \<Rightarrow> 0) +
     connection_balance n calls"
  by (cases ev) (auto simp: connection_balance_def)

lemma cursor_balance_Cons [simp]:
  "cursor_balance c (ev # calls) =
     (case ev of Cursor_opened n c' \<Rightarrow> of_bool (c' = c) | Cursor_closed c' \<Rightarrow> - of_bool (c' = c) | _ \<Rightarrow> 0) +
     cursor_balance c calls"
  by (cases ev) (auto simp: cursor_balance_def cursor_opens_def)

lemma balance_append [simp]:
  "connection_balance n (calls @ calls') = connection_balance n calls + connection_balance n calls'"
  "cursor_balance c (calls @ calls') = cursor_balance c calls + cursor_balance c calls'"
  by (induction calls) simp_all

text \<open>
  Whatever the body does, if it leaves the balances alone then so does the whole block: every
  connection and cursor it opened is closed again, on the error paths too.
\<close>

lemma request_cursor_balanced:
  assumes "request_cursor d connect args body st = (r, st')"
    and "\<And>c st1 r1 st2. body c st1 = (r1, st2) \<Longrightarrow>
      connection_balance n (conn_log st2) = connection_balance n (conn_log st1) \<and>
      cursor_balance k (conn_log st2) = cursor_balance k (conn_log st1)"
  shows "connection_balance n (conn_log st') = connection_balance n (conn_log st)"
    and "cursor_balance k (conn_log st') = cursor_balance k (conn_log st)"
proof -
  let ?same = "connection_balance n (conn_log st') = connection_balance n (conn_log st) \<and>
    cursor_balance k (conn_log st') = cursor_balance k (conn_log st)"
  define st0 where "st0 = st\<lparr>conn_logger := suppress_connector_logs (conn_logger st)\<rparr>"
  have log0: "conn_log st0 = conn_log st" by (simp add: st0_def)
  have ?same
  proof (cases "(case connect of None \<Rightarrow> connect_default d | Some f \<Rightarrow> f) (conn_log st0) args")
    case (Inl x)
    with assms(1) log0 show ?thesis
      by (auto simp: request_cursor_def open_connection_def st0_def[symmetric])
  next
    case (Inr m)
    define st1 where "st1 = note_call (Connected m) st0"
    show ?thesis
    proof (cases "dr_cursor d (conn_log st1) m")
      case (Inl x)
      with Inr assms(1) log0 show ?thesis
        by (auto simp: request_cursor_def open_connection_def open_cursor_def try_finally_def
            close_connection_def st0_def[symmetric] st1_def)
    next
      case cur: (Inr c)
      define st2 where "st2 = note_call (Cursor_opened m c) st1"
      obtain r1 st3 where body: "body c st2 = (r1, st3)" by fastforce
      from Inr cur body assms(1) have
        "conn_log st' = (conn_log st3 @ [Cursor_closed c]) @ [Connection_closed m]"
        by (auto simp: request_cursor_def open_connection_def open_cursor_def try_finally_def
            close_connection_def close_cursor_def st0_def[symmetric] st1_def[symmetric]
            st2_def[symmetric])
      with assms(2)[OF body] log0 show ?thesis by (simp add: st1_def st2_def)
    qed
  qed
  then show "connection_balance n (conn_log st') = connection_balance n (conn_log st)"
    and "cursor_balance k (conn_log st') = cursor_balance k (conn_log st)" by simp_all
qed

end
