(* ===== verification/Sql_Policy.thy ===== *)
theory Sql_Policy
  imports Mvp_Limits
begin

text \<open>
  The read-query policy (\<open>src/snowglobe/sql_policy.py\<close>).  SQLGlot is not part of the program: the
  abstract syntax \<open>'q\<close> of a query and the functions over it are a parameter, the record
  \<open>sqlglot\<close>, and a node of the tree is the record of what the policy reads of it.
\<close>

section \<open>What the policy reads of the syntax tree\<close>

text \<open>An \<open>exp.Identifier\<close>: its \<open>this\<close> (\<open>None\<close> when not a \<open>str\<close>) and whether it is quoted.\<close>

record ident_node =
  ident_this :: "string option"
  ident_quoted :: bool

text \<open>
  An \<open>exp.Table\<close>: the texts \<open>catalog\<close> and \<open>db\<close>, and the parts that are identifiers (\<open>None\<close> for a
  missing part and for any other node).
\<close>

record table_node =
  table_this :: "ident_node option"
  table_catalog_text :: string
  table_db_text :: string
  table_catalog :: "ident_node option"
  table_db :: "ident_node option"

datatype source_node = Source_table table_node | Source_other

text \<open>The \<open>isinstance\<close> tests on a relation and on its \<open>this\<close>.\<close>

record relation_node =
  rel_query :: bool
  rel_table :: bool
  rel_values :: bool
  rel_table_from_rows :: bool
  rel_lateral :: bool
  rel_this_explode :: bool
  rel_this_generator :: bool
  rel_this_contains_query :: bool

text \<open>An expression as \<open>_nonnegative_integer\<close> sees it: \<open>lit_value\<close> is \<open>int(expression.this)\<close>.\<close>

record literal_node =
  lit_is_literal :: bool
  lit_is_int :: bool
  lit_value :: "int result"

text \<open>The \<open>limit\<close> argument of a query: an \<open>exp.Limit\<close> or another node such as \<open>exp.Fetch\<close>.\<close>

record limit_node =
  lim_is_limit :: bool
  lim_has_options :: bool
  lim_percent :: bool
  lim_with_ties :: bool
  lim_expression :: "literal_node option"
  lim_count :: "literal_node option"

datatype 'q statement = Query_statement 'q | Other_statement

record 'q sqlglot =
  sg_parse :: "string \<Rightarrow> 'q statement list result"
  sg_scopes :: "'q \<Rightarrow> (relation_node \<times> source_node) list list option result"
  sg_limit :: "'q \<Rightarrow> limit_node option"
  sg_add_limit :: "int \<Rightarrow> 'q \<Rightarrow> 'q result"
  sg_set_limit :: "int \<Rightarrow> 'q \<Rightarrow> 'q result"
  sg_sql :: "'q \<Rightarrow> string result"

section \<open>Names\<close>

text \<open>
  \<open>str.upper\<close> on code points below 256.  Two of them (181 and 255) have their upper case above 255
  and are left alone here; neither they nor their images occur in a configured name.
\<close>

definition upper_char :: "char \<Rightarrow> string" where
  "upper_char ch =
     (let n = char_code ch in
      if n = 223 then ''SS''
      else if (97 \<le> n \<and> n \<le> 122) \<or> (224 \<le> n \<and> n \<le> 254 \<and> n \<noteq> 247) then [char_of (n - 32)]
      else [ch])"

definition upper :: "string \<Rightarrow> string" where
  "upper s = concat (map upper_char s)"

text \<open>\<open>_UNQUOTED_IDENTIFIER.fullmatch\<close>: \<open>[A-Z_][A-Z0-9_$]*\<close>.\<close>

definition ident_start :: "char \<Rightarrow> bool" where
  "ident_start ch \<longleftrightarrow> is_upper ch \<or> ch = CHR ''_''"

definition ident_part :: "char \<Rightarrow> bool" where
  "ident_part ch \<longleftrightarrow> is_upper ch \<or> is_digit_char ch \<or> ch = CHR ''_'' \<or> ch = CHR ''$''"

definition unquoted_identifier :: "string \<Rightarrow> bool" where
  "unquoted_identifier s = (case s of [] \<Rightarrow> False | c # cs \<Rightarrow> ident_start c \<and> list_all ident_part cs)"

type_synonym view_name = "string \<times> string \<times> string"

definition configured_view :: "string \<Rightarrow> view_name result" where
  "configured_view name =
     (let parts = split_on (CHR ''.'') name in
      if length parts \<noteq> 3 \<or> \<not> list_all unquoted_identifier parts then Inl QueryPolicyRejected
      else Inr (parts ! 0, parts ! 1, parts ! 2))"

text \<open>Its signature also allows a bare \<open>str\<close>, which no caller passes.\<close>

definition canonical_identifier :: "ident_node \<Rightarrow> string result" where
  "canonical_identifier i =
     (case ident_this i of
        None \<Rightarrow> Inl QueryPolicyRejected
      | Some v \<Rightarrow> Inr (if ident_quoted i then v else upper v))"

section \<open>The policy\<close>

record sql_policy =
  allowed_views :: "view_name set"
  policy_maximum_rows :: int

definition from_view_names :: "string list \<Rightarrow> int \<Rightarrow> sql_policy result" where
  "from_view_names names rows =
     (case map_result configured_view names of
        Inl x \<Rightarrow> Inl (if is_Exception x then QueryPolicyRejected else x)
      | Inr views \<Rightarrow>
          if views = [] \<or> rows \<le> 0 then Inl QueryPolicyRejected
          else Inr \<lparr>allowed_views = set views, policy_maximum_rows = rows\<rparr>)"

definition parse_query :: "'q sqlglot \<Rightarrow> string \<Rightarrow> 'q result" where
  "parse_query g sql =
     then_do (sg_parse g sql) (\<lambda>statements.
       case statements of
         [Query_statement q] \<Rightarrow> Inr q
       | _ \<Rightarrow> Inl QueryPolicyRejected)"

definition validate_table :: "sql_policy \<Rightarrow> table_node \<Rightarrow> unit result" where
  "validate_table p t =
     (case table_this t of
        None \<Rightarrow> Inl QueryPolicyRejected
      | Some this \<Rightarrow>
          if table_catalog_text t = [] \<and> table_db_text t = [] then Inl QueryPolicyRejected
          else (case (table_catalog t, table_db t) of
                  (Some catalog, Some db) \<Rightarrow>
                    then_do (canonical_identifier catalog) (\<lambda>c.
                    then_do (canonical_identifier db) (\<lambda>d.
                    then_do (canonical_identifier this) (\<lambda>n.
                      if (c, d, n) \<in> allowed_views p then Inr () else Inl QueryPolicyRejected)))
                | _ \<Rightarrow> Inl QueryPolicyRejected))"

definition accepted_relation :: "relation_node \<Rightarrow> bool" where
  "accepted_relation r \<longleftrightarrow>
     rel_query r \<or> rel_table r \<or> rel_values r \<or>
     (rel_table_from_rows r \<and>
        (rel_this_explode r \<or> (rel_this_generator r \<and> \<not> rel_this_contains_query r))) \<or>
     (rel_lateral r \<and> rel_this_explode r)"

definition validate_source :: "sql_policy \<Rightarrow> relation_node \<times> source_node \<Rightarrow> unit result" where
  "validate_source p rs =
     (case snd rs of
        Source_table t \<Rightarrow> validate_table p t
      | Source_other \<Rightarrow> if accepted_relation (fst rs) then Inr () else Inl QueryPolicyRejected)"

definition validate :: "'q sqlglot \<Rightarrow> sql_policy \<Rightarrow> 'q \<Rightarrow> unit result" where
  "validate g p q =
     then_do (sg_scopes g q) (\<lambda>scopes.
       case scopes of
         None \<Rightarrow> Inl QueryPolicyRejected
       | Some ss \<Rightarrow> then_do (map_result (validate_source p) (concat ss)) (\<lambda>us. Inr ()))"

definition nonnegative_integer :: "literal_node option \<Rightarrow> int result" where
  "nonnegative_integer ex =
     (case ex of
        None \<Rightarrow> Inl QueryPolicyRejected
      | Some lit \<Rightarrow>
          if \<not> lit_is_literal lit \<or> \<not> lit_is_int lit then Inl QueryPolicyRejected
          else then_do (lit_value lit) (\<lambda>v. if v < 0 then Inl QueryPolicyRejected else Inr v))"

text \<open>The query is changed in place; the result is the query afterwards.\<close>

definition apply_row_cap :: "'q sqlglot \<Rightarrow> int \<Rightarrow> 'q \<Rightarrow> 'q result" where
  "apply_row_cap g rows q =
     (case sg_limit g q of
        None \<Rightarrow> sg_add_limit g rows q
      | Some lm \<Rightarrow>
          if lim_has_options lm \<and> (lim_percent lm \<or> lim_with_ties lm) then sg_set_limit g rows q
          else then_do (nonnegative_integer (if lim_is_limit lm then lim_expression lm else lim_count lm))
                 (\<lambda>n. if rows < n then sg_set_limit g rows q else Inr q))"

text \<open>The body of the \<open>try\<close> of \<open>authorize\<close>, then its \<open>except\<close>.\<close>

definition authorize_body :: "'q sqlglot \<Rightarrow> sql_policy \<Rightarrow> string \<Rightarrow> string result" where
  "authorize_body g p sql =
     then_do (parse_query g sql) (\<lambda>q.
     then_do (validate g p q) (\<lambda>_.
     then_do (apply_row_cap g (policy_maximum_rows p + 1) q) (\<lambda>q1.
     then_do (sg_sql g q1) (\<lambda>governed.
     then_do (parse_query g governed) (\<lambda>q2.
     then_do (validate g p q2) (\<lambda>_.
     then_do (apply_row_cap g (policy_maximum_rows p + 1) q2) (\<lambda>q3.
     then_do (sg_sql g q3) (\<lambda>again.
       if again \<noteq> governed then Inl QueryPolicyRejected else Inr governed))))))))"

definition authorize :: "'q sqlglot \<Rightarrow> sql_policy \<Rightarrow> string \<Rightarrow> string result" where
  "authorize g p sql =
     (case authorize_body g p sql of
        Inr governed \<Rightarrow> Inr governed
      | Inl x \<Rightarrow> Inl (if is_Exception x then QueryPolicyRejected else x))"

section \<open>Configured names\<close>

definition dotted :: "view_name \<Rightarrow> string" where
  "dotted v = join_with (CHR ''.'') [fst v, fst (snd v), snd (snd v)]"

definition well_formed_view :: "view_name \<Rightarrow> bool" where
  "well_formed_view v \<longleftrightarrow>
     unquoted_identifier (fst v) \<and> unquoted_identifier (fst (snd v)) \<and> unquoted_identifier (snd (snd v))"

lemma unquoted_no_dot: "unquoted_identifier s \<Longrightarrow> CHR ''.'' \<notin> set s"
proof -
  have "\<not> ident_part (CHR ''.'')" "\<not> ident_start (CHR ''.'')"
    by (simp_all add: ident_part_def ident_start_def is_upper_def is_digit_char_def char_code_def)
  then show "unquoted_identifier s \<Longrightarrow> CHR ''.'' \<notin> set s"
    by (cases s) (auto simp: unquoted_identifier_def list_all_iff)
qed

text \<open>A configured name is accepted exactly when it is the dotted form of a well-formed view.\<close>

lemma configured_view_Inr:
  "configured_view name = Inr v \<longleftrightarrow> well_formed_view v \<and> name = dotted v"
proof
  assume c: "configured_view name = Inr v"
  then obtain a b d where parts: "split_on (CHR ''.'') name = [a, b, d]"
    "v = (a, b, d)" "list_all unquoted_identifier [a, b, d]"
    by (auto simp: configured_view_def Let_def length_Suc_conv numeral_3_eq_3 split: if_splits)
  have "join_with (CHR ''.'') (split_on (CHR ''.'') name) = name" by (rule join_split_on)
  with parts show "well_formed_view v \<and> name = dotted v"
    by (simp add: well_formed_view_def dotted_def)
next
  assume v: "well_formed_view v \<and> name = dotted v"
  obtain a b d where abd: "v = (a, b, d)" by (cases v)
  have "split_on (CHR ''.'') name = [a, b, d]"
    using v abd unquoted_no_dot split_on_join[of "[a, b, d]" "CHR ''.''"]
    by (auto simp: well_formed_view_def dotted_def)
  with v abd show "configured_view name = Inr v"
    by (simp add: configured_view_def Let_def well_formed_view_def)
qed

lemma configured_view_Inl: "configured_view name = Inl x \<Longrightarrow> x = QueryPolicyRejected"
  by (auto simp: configured_view_def Let_def split: if_splits)

lemma dotted_inj: "well_formed_view v \<Longrightarrow> well_formed_view v' \<Longrightarrow> dotted v = dotted v' \<Longrightarrow> v = v'"
  by (metis configured_view_Inr sum.inject(2))

lemma from_view_names_Inr:
  "from_view_names names rows = Inr p \<longleftrightarrow>
     names \<noteq> [] \<and> 0 < rows \<and> policy_maximum_rows p = rows \<and>
     (\<forall>n \<in> set names. \<exists>v. well_formed_view v \<and> n = dotted v) \<and>
     allowed_views p = {v. well_formed_view v \<and> dotted v \<in> set names}"
proof (cases "map_result configured_view names")
  case (Inl x)
  from map_result_Inl[OF this] obtain n where "n \<in> set names" "configured_view n = Inl x" by blast
  then have "\<not> (\<exists>v. well_formed_view v \<and> n = dotted v)" by (metis configured_view_Inr sum.distinct(1))
  with Inl \<open>n \<in> set names\<close> show ?thesis by (auto simp: from_view_names_def)
next
  case (Inr views)
  then have all: "list_all2 (\<lambda>n v. well_formed_view v \<and> n = dotted v) names views"
    by (simp add: map_result_Inr_iff configured_view_Inr)
  then have len: "names = [] \<longleftrightarrow> views = []" by auto
  have ex: "\<forall>n \<in> set names. \<exists>v. well_formed_view v \<and> n = dotted v"
    using all by (induction rule: list_all2_induct) (auto simp del: split_paired_Ex)
  have sub: "set views = {v. well_formed_view v \<and> dotted v \<in> set names}"
  proof
    show "set views \<subseteq> {v. well_formed_view v \<and> dotted v \<in> set names}"
    proof
      fix v
      assume "v \<in> set views"
      then obtain k where k: "k < length views" "views ! k = v" by (auto simp: in_set_conv_nth)
      with all have "well_formed_view v" "names ! k = dotted v" "k < length names"
        by (auto simp: list_all2_conv_all_nth)
      then show "v \<in> {v. well_formed_view v \<and> dotted v \<in> set names}"
        by (metis (mono_tags, lifting) mem_Collect_eq nth_mem)
    qed
    show "{v. well_formed_view v \<and> dotted v \<in> set names} \<subseteq> set views"
    proof
      fix v
      assume "v \<in> {v. well_formed_view v \<and> dotted v \<in> set names}"
      then obtain k where k: "well_formed_view v" "k < length names" "names ! k = dotted v"
        by (auto simp: in_set_conv_nth)
      with all have "well_formed_view (views ! k) \<and> dotted v = dotted (views ! k)" "k < length views"
        by (auto simp: list_all2_conv_all_nth)
      then have "v = views ! k" using dotted_inj[OF k(1)] by blast
      with \<open>k < length views\<close> show "v \<in> set views" by simp
    qed
  qed
  show ?thesis using Inr len ex sub
    by (cases p) (auto simp: from_view_names_def)
qed

section \<open>What validation accepts\<close>

text \<open>The view a table node names, when its three parts are plain identifiers.\<close>

definition named_view :: "table_node \<Rightarrow> view_name option" where
  "named_view t =
     (case (table_catalog t, table_db t, table_this t) of
        (Some c, Some d, Some n) \<Rightarrow>
          (case (canonical_identifier c, canonical_identifier d, canonical_identifier n) of
             (Inr c', Inr d', Inr n') \<Rightarrow> Some (c', d', n')
           | _ \<Rightarrow> None)
      | _ \<Rightarrow> None)"

lemma validate_table_Inr:
  "validate_table p t = Inr () \<longleftrightarrow>
     (table_catalog_text t \<noteq> [] \<or> table_db_text t \<noteq> []) \<and>
     (\<exists>v. named_view t = Some v \<and> v \<in> allowed_views p)"
  by (auto simp: validate_table_def named_view_def then_do_Inr_iff split: option.splits sum.splits if_splits)

text \<open>Every row source of every scope is an allowed view or one of the accepted constructs.\<close>

definition accepted_source :: "view_name set \<Rightarrow> relation_node \<times> source_node \<Rightarrow> bool" where
  "accepted_source views rs \<longleftrightarrow>
     (case snd rs of
        Source_table t \<Rightarrow> (case named_view t of None \<Rightarrow> False | Some v \<Rightarrow> v \<in> views)
      | Source_other \<Rightarrow> accepted_relation (fst rs))"

lemma validate_source_Inr:
  "validate_source p rs = Inr u \<Longrightarrow> accepted_source (allowed_views p) rs"
  by (cases "snd rs") (auto simp: validate_source_def accepted_source_def validate_table_Inr
      split: if_splits)

definition reads_only :: "view_name set \<Rightarrow> (relation_node \<times> source_node) list list \<Rightarrow> bool" where
  "reads_only views scopes \<longleftrightarrow> list_all (list_all (accepted_source views)) scopes"

lemma validate_Inr:
  assumes "validate g p q = Inr u"
  shows "\<exists>scopes. sg_scopes g q = Inr (Some scopes) \<and> reads_only (allowed_views p) scopes"
proof -
  obtain scopes us where sc: "sg_scopes g q = Inr (Some scopes)"
    "map_result (validate_source p) (concat scopes) = Inr us"
    using assms by (auto simp: validate_def then_do_Inr_iff split: option.splits)
  have "\<forall>rs \<in> set (concat scopes). accepted_source (allowed_views p) rs"
    using map_result_all[OF sc(2)] validate_source_Inr by blast
  then have "reads_only (allowed_views p) scopes" by (auto simp: reads_only_def list_all_iff)
  with sc(1) show ?thesis by blast
qed

text \<open>A query with a plain, non-negative row limit of at most \<open>rows\<close>.\<close>

definition row_bounded :: "'q sqlglot \<Rightarrow> int \<Rightarrow> 'q \<Rightarrow> bool" where
  "row_bounded g rows q \<longleftrightarrow>
     (case sg_limit g q of
        None \<Rightarrow> False
      | Some lm \<Rightarrow>
          \<not> (lim_has_options lm \<and> (lim_percent lm \<or> lim_with_ties lm)) \<and>
          (case nonnegative_integer (if lim_is_limit lm then lim_expression lm else lim_count lm) of
             Inl x \<Rightarrow> False | Inr n \<Rightarrow> n \<le> rows))"

text \<open>What SQLGlot documents of the two ways to set a limit: the query then has that limit.\<close>

definition sets_limits :: "'q sqlglot \<Rightarrow> bool" where
  "sets_limits g \<longleftrightarrow>
     (\<forall>n q q'. 0 \<le> n \<and> (sg_add_limit g n q = Inr q' \<or> sg_set_limit g n q = Inr q') \<longrightarrow>
        row_bounded g n q')"

lemma apply_row_cap_bounded:
  assumes "sets_limits g" and "0 \<le> rows" and "apply_row_cap g rows q = Inr q'"
  shows "row_bounded g rows q'"
proof (cases "sg_limit g q")
  case None
  with assms show ?thesis by (auto simp: apply_row_cap_def sets_limits_def)
next
  case (Some lm)
  let ?opts = "lim_has_options lm \<and> (lim_percent lm \<or> lim_with_ties lm)"
  let ?ex = "if lim_is_limit lm then lim_expression lm else lim_count lm"
  show ?thesis
  proof (cases ?opts)
    case True
    with Some assms show ?thesis by (auto simp: apply_row_cap_def sets_limits_def)
  next
    case False
    with Some assms(3) obtain n where n: "nonnegative_integer ?ex = Inr n"
      "(if rows < n then sg_set_limit g rows q else Inr q) = Inr q'"
      by (auto simp: apply_row_cap_def then_do_Inr_iff)
    show ?thesis
    proof (cases "rows < n")
      case True
      with n assms show ?thesis by (auto simp: sets_limits_def)
    next
      case le: False
      with n(2) have "q' = q" by simp
      with Some False n(1) le show ?thesis by (simp add: row_bounded_def)
    qed
  qed
qed

lemma authorize_Inr:
  "authorize g p sql = Inr governed \<longleftrightarrow> authorize_body g p sql = Inr governed"
  by (auto simp: authorize_def split: sum.splits)

lemma authorize_body_Inr:
  "authorize_body g p sql = Inr governed \<longleftrightarrow>
   (\<exists>q q1 q2 q3. parse_query g sql = Inr q \<and> is_ok (validate g p q) \<and>
      apply_row_cap g (policy_maximum_rows p + 1) q = Inr q1 \<and> sg_sql g q1 = Inr governed \<and>
      parse_query g governed = Inr q2 \<and> is_ok (validate g p q2) \<and>
      apply_row_cap g (policy_maximum_rows p + 1) q2 = Inr q3 \<and> sg_sql g q3 = Inr governed)"
proof -
  have ok: "is_ok r \<longleftrightarrow> r = Inr ()" for r :: "unit result" by (cases r) auto
  show ?thesis by (auto simp: authorize_body_def then_do_Inr_iff ok split: if_splits)
qed

section \<open>A small instance\<close>

text \<open>
  A dialect with one query over one table, with or without a row limit, to evaluate examples on.
\<close>

definition plain_ident :: "string \<Rightarrow> ident_node" where
  "plain_ident s = \<lparr>ident_this = Some s, ident_quoted = False\<rparr>"

definition sample_table :: table_node where
  "sample_table =
     \<lparr>table_this = Some (plain_ident ''orders''), table_catalog_text = ''db'', table_db_text = ''s'',
      table_catalog = Some (plain_ident ''db''), table_db = Some (plain_ident ''s'')\<rparr>"

definition table_relation :: relation_node where
  "table_relation =
     \<lparr>rel_query = False, rel_table = True, rel_values = False, rel_table_from_rows = False,
      rel_lateral = False, rel_this_explode = False, rel_this_generator = False,
      rel_this_contains_query = False\<rparr>"

definition plain_limit :: "int \<Rightarrow> limit_node" where
  "plain_limit n =
     \<lparr>lim_is_limit = True, lim_has_options = False, lim_percent = False, lim_with_ties = False,
      lim_expression = Some \<lparr>lit_is_literal = True, lit_is_int = True, lit_value = Inr n\<rparr>,
      lim_count = None\<rparr>"

definition sample_sqlglot :: "int option sqlglot" where
  "sample_sqlglot =
     \<lparr>sg_parse = (\<lambda>s. if s = ''q'' then Inr [Query_statement None]
                    else if s = ''q limit 51'' then Inr [Query_statement (Some 51)]
                    else Inl (Library_error 1)),
      sg_scopes = (\<lambda>q. Inr (Some [[(table_relation, Source_table sample_table)]])),
      sg_limit = map_option plain_limit,
      sg_add_limit = (\<lambda>n q. Inr (Some n)),
      sg_set_limit = (\<lambda>n q. Inr (Some n)),
      sg_sql = (\<lambda>q. if q = None then Inr ''q'' else if q = Some 51 then Inr ''q limit 51''
                  else Inl (Library_error 2))\<rparr>"

definition sample_policy :: sql_policy where
  "sample_policy = \<lparr>allowed_views = {(''DB'', ''S'', ''ORDERS'')}, policy_maximum_rows = 50\<rparr>"

lemma sample_policy_built: "from_view_names [''DB.S.ORDERS''] 50 = Inr sample_policy"
proof -
  have "configured_view ''DB.S.ORDERS'' = Inr (''DB'', ''S'', ''ORDERS'')" by code_simp
  then show ?thesis by (simp add: from_view_names_def sample_policy_def)
qed

lemma sample_authorized: "authorize sample_sqlglot sample_policy ''q'' = Inr ''q limit 51''"
proof -
  have "canonical_identifier (plain_ident ''db'') = Inr ''DB''"
    "canonical_identifier (plain_ident ''s'') = Inr ''S''"
    "canonical_identifier (plain_ident ''orders'') = Inr ''ORDERS''" by code_simp+
  then have v: "validate sample_sqlglot sample_policy q = Inr ()" for q
    by (simp add: validate_def sample_sqlglot_def validate_source_def validate_table_def
        sample_table_def sample_policy_def)
  have cap: "apply_row_cap sample_sqlglot 51 None = Inr (Some 51)"
    "apply_row_cap sample_sqlglot 51 (Some 51) = Inr (Some 51)"
    by (simp_all add: apply_row_cap_def sample_sqlglot_def plain_limit_def nonnegative_integer_def)
  have texts: "parse_query sample_sqlglot ''q'' = Inr None"
    "parse_query sample_sqlglot ''q limit 51'' = Inr (Some 51)"
    "sg_sql sample_sqlglot (Some 51) = Inr ''q limit 51''"
    by (simp_all add: parse_query_def sample_sqlglot_def)
  have "policy_maximum_rows sample_policy + 1 = 51" by (simp add: sample_policy_def)
  then show ?thesis by (simp only: authorize_def authorize_body_def v cap texts then_do_simps) simp
qed

section \<open>Properties\<close>

lemma authorized_reads:
  assumes "from_view_names names rows = Inr p" and "authorize g p sql = Inr governed"
  shows "\<exists>q scopes. parse_query g governed = Inr q \<and> sg_scopes g q = Inr (Some scopes) \<and>
    reads_only {v. dotted v \<in> set names \<and> well_formed_view v} scopes"
proof -
  obtain q2 where q2: "parse_query g governed = Inr q2" "is_ok (validate g p q2)"
    using assms(2) unfolding authorize_Inr authorize_body_Inr by blast
  then obtain u where "validate g p q2 = Inr u" by (cases "validate g p q2") auto
  from validate_Inr[OF this] obtain scopes where
    "sg_scopes g q2 = Inr (Some scopes)" "reads_only (allowed_views p) scopes" by blast
  moreover have "allowed_views p = {v. dotted v \<in> set names \<and> well_formed_view v}"
    using assms(1) unfolding from_view_names_Inr by auto
  ultimately show ?thesis using q2(1) by auto
qed

text \<open>
  Property C9.  Governed SQL reads only configured views.  If the policy was built from a list of
  names and authorises a statement, then the very text it returns parses to one query in which
  every row source of every scope is either a table whose three canonical identifiers, dotted,
  are one of the configured names, or one of the constructs that read no table.
\<close>

theorem authorized_sql_reads_only_configured_views:
  assumes "from_view_names names rows = Inr p" and "authorize g p sql = Inr governed"
  shows "\<exists>q scopes. parse_query g governed = Inr q \<and> sg_scopes g q = Inr (Some scopes) \<and>
    reads_only {v. dotted v \<in> set names \<and> well_formed_view v} scopes"
  by (rule authorized_reads[OF assms])

theorem authorized_sql_reads_only_configured_views_witness:
  "\<exists>q scopes. parse_query sample_sqlglot ''q limit 51'' = Inr q \<and>
     sg_scopes sample_sqlglot q = Inr (Some scopes) \<and>
     reads_only {v. dotted v \<in> set [''DB.S.ORDERS''] \<and> well_formed_view v} scopes"
  by (rule authorized_sql_reads_only_configured_views[OF sample_policy_built sample_authorized])

text \<open>
  Property C24.  Governed SQL has a row cap: the query that prints to the returned text has a plain
  literal limit, no percentage and no ties, of at most one row more than the configured maximum,
  given that SQLGlot's limit setters set what they are told to.
\<close>

theorem authorized_sql_is_capped:
  assumes "authorize g p sql = Inr governed" and "sets_limits g" and "0 \<le> policy_maximum_rows p"
  shows "\<exists>q. sg_sql g q = Inr governed \<and> row_bounded g (policy_maximum_rows p + 1) q"
proof -
  obtain q1 q where "apply_row_cap g (policy_maximum_rows p + 1) q = Inr q1" "sg_sql g q1 = Inr governed"
    using assms(1) unfolding authorize_Inr authorize_body_Inr by blast
  with apply_row_cap_bounded[OF assms(2), of "policy_maximum_rows p + 1" q q1] assms(3)
  show ?thesis by auto
qed

theorem authorized_sql_is_capped_witness:
  "sets_limits sample_sqlglot \<and>
   (\<exists>q. sg_sql sample_sqlglot q = Inr ''q limit 51'' \<and> row_bounded sample_sqlglot 51 q)"
proof -
  have set: "sets_limits sample_sqlglot"
    by (auto simp: sets_limits_def row_bounded_def sample_sqlglot_def plain_limit_def
        nonnegative_integer_def)
  have pos: "0 \<le> policy_maximum_rows sample_policy" by (simp add: sample_policy_def)
  from authorized_sql_is_capped[OF sample_authorized set pos] set show ?thesis
    by (simp add: sample_policy_def)
qed

text \<open>
  Authorisation fails closed and without detail: a statement is authorised only if it
  and its governed form both parse, validate and can be capped and the second printing is the
  first; and every \<open>Exception\<close> raised below, of whatever class, becomes the same bare rejection.
\<close>

theorem authorize_fails_closed:
  "case authorize g p sql of
     Inr governed \<Rightarrow> \<exists>q q1 q2 q3. parse_query g sql = Inr q \<and> is_ok (validate g p q) \<and>
       apply_row_cap g (policy_maximum_rows p + 1) q = Inr q1 \<and> sg_sql g q1 = Inr governed \<and>
       parse_query g governed = Inr q2 \<and> is_ok (validate g p q2) \<and>
       apply_row_cap g (policy_maximum_rows p + 1) q2 = Inr q3 \<and> sg_sql g q3 = Inr governed
   | Inl x \<Rightarrow> x \<in> {QueryPolicyRejected, CancelledError, SystemExit}"
proof (cases "authorize g p sql")
  case (Inl x)
  then have "x \<in> {QueryPolicyRejected, CancelledError, SystemExit}"
    by (auto simp: authorize_def is_Exception_def split: sum.splits if_splits)
  with Inl show ?thesis by simp
next
  case (Inr governed)
  then have "authorize_body g p sql = Inr governed" by (simp only: authorize_Inr)
  then show ?thesis unfolding authorize_body_Inr Inr sum.case .
qed

text \<open>
  Policy construction accepts exactly well-formed configurations: a non-empty list
  of names, each of three dot-separated upper-case identifiers, and a positive row maximum; the
  allowed views are then exactly the named ones.
\<close>

theorem from_view_names_exact:
  "from_view_names names rows = Inr p \<longleftrightarrow>
     names \<noteq> [] \<and> 0 < rows \<and> policy_maximum_rows p = rows \<and>
     list_all (\<lambda>n. \<exists>v. well_formed_view v \<and> n = dotted v) names \<and>
     allowed_views p = {v. well_formed_view v \<and> dotted v \<in> set names}"
  unfolding from_view_names_Inr by (simp add: list_all_iff)

end
