(* ===== verification/Executor.thy ===== *)
theory Executor
  imports Broker_Spec
begin

text \<open>
  Submission and shutdown of the background executor (\<open>src/snowglobe/executor.py\<close>, class
  \<open>BackgroundQueryExecutor\<close>).  The admission callback and the outcome of \<open>create_task\<close> are
  arguments; a scheduled task is its request view and the admitted work, which the theory of the
  background run executes.
\<close>

section \<open>State\<close>

text \<open>\<open>QueryAdmission\<close>: the governed SQL and the work to run, or an exception.\<close>

type_synonym 'w admission = "string \<Rightarrow> (string \<times> 'w) result"

record submitted_query =
  sub_request :: request_view
  sub_governed_sql :: string

record 'w executor =
  exec_tasks :: "(request_view \<times> 'w) list"
  exec_closed :: bool

definition executor_init :: "'w executor" where
  "executor_init = \<lparr>exec_tasks = [], exec_closed = False\<rparr>"

section \<open>submit\<close>

text \<open>\<open>with suppress(RequestUnavailable): self._broker.fail(...)\<close>.\<close>

definition suppress_unavailable ::
  "'a result \<times> ('s, 'c) broker \<Rightarrow> unit result \<times> ('s, 'c) broker" where
  "suppress_unavailable out =
     (case out of
        (Inr _, b) \<Rightarrow> (Inr (), b)
      | (Inl x, b) \<Rightarrow> (if x = RequestUnavailable then Inr () else Inl x, b))"

text \<open>
  After admission and registration the task is scheduled; if \<open>create_task\<close> raises, the request
  just registered is failed and the exception goes on (an exception of \<open>fail\<close> itself replaces it).
\<close>

definition schedule ::
  "env \<Rightarrow> unit result \<Rightarrow> string \<Rightarrow> 'w \<Rightarrow> request_view \<Rightarrow> 'w executor \<Rightarrow> ('s, 'c) broker \<Rightarrow>
   submitted_query result \<times> 'w executor \<times> ('s, 'c) broker"
where
  "schedule e spawn sql work v x b =
     (case spawn of
        Inr _ \<Rightarrow>
          (Inr \<lparr>sub_request = v, sub_governed_sql = sql\<rparr>,
           x\<lparr>exec_tasks := exec_tasks x @ [(v, work)]\<rparr>, b)
      | Inl ex \<Rightarrow>
          if is_Exception ex then
            (case suppress_unavailable (broker_fail e (view_id v) b) of
               (Inr _, b') \<Rightarrow> (Inl ex, x, b')
             | (Inl ex', b') \<Rightarrow> (Inl ex', x, b'))
          else (Inl ex, x, b))"

definition executor_submit ::
  "env \<Rightarrow> 'w admission \<Rightarrow> unit result \<Rightarrow> string \<Rightarrow> timedelta \<Rightarrow> 'w executor \<Rightarrow> ('s, 'c) broker \<Rightarrow>
   (submitted_query result \<times> 'w executor \<times> ('s, 'c) broker) option"
where
  "executor_submit e admit spawn sql ttl x b =
     (if exec_closed x then Some (Inl RequestUnavailable, x, b)
      else (case admit sql of
              Inl ex \<Rightarrow> Some (Inl ex, x, b)
            | Inr (governed, work) \<Rightarrow>
                (case broker_submit e ttl b of
                   None \<Rightarrow> None
                 | Some (Inl ex, b') \<Rightarrow> Some (Inl ex, x, b')
                 | Some (Inr v, b') \<Rightarrow> Some (schedule e spawn governed work v x b'))))"

section \<open>close\<close>

text \<open>The loop over the listed requests: cancel each one that is listed as pending.\<close>

fun cancel_pending ::
  "env \<Rightarrow> request_view list \<Rightarrow> ('s, 'c) broker \<Rightarrow> unit result \<times> ('s, 'c) broker" where
  "cancel_pending e [] b = (Inr (), b)"
| "cancel_pending e (v # vs) b =
     (if view_status v = PENDING then
        (case suppress_unavailable (broker_cancel e (view_id v) b) of
           (Inl ex, b') \<Rightarrow> (Inl ex, b')
         | (Inr _, b') \<Rightarrow> cancel_pending e vs b')
      else cancel_pending e vs b)"

text \<open>
  \<open>close\<close> up to the \<open>gather\<close>: new submissions are refused first, then every pending request is
  cancelled.  Waiting for the tasks changes no state of its own; that they all end is shown in the
  theory of the shutdown.  \<open>exec_tasks\<close> keeps every task ever scheduled, in order; the set \<open>_tasks\<close>,
  without those that are done, is \<open>open_tasks\<close> there.
\<close>

definition executor_close ::
  "env \<Rightarrow> 'w executor \<Rightarrow> ('s, 'c) broker \<Rightarrow> unit result \<times> 'w executor \<times> ('s, 'c) broker" where
  "executor_close e x b =
     (let x' = x\<lparr>exec_closed := True\<rparr> in
      case list_requests e b of
        (Inl ex, b') \<Rightarrow> (Inl ex, x', b')
      | (Inr vs, b') \<Rightarrow> (case cancel_pending e vs b' of (res, b'') \<Rightarrow> (res, x', b'')))"

section \<open>Lemmas\<close>

lemma suppress_unavailable_snd [simp]: "snd (suppress_unavailable out) = snd out"
  by (cases out; cases "fst out") (auto simp: suppress_unavailable_def)

lemma broker_fail_inv: "broker_inv b \<Longrightarrow> broker_inv (snd (broker_fail e i b))"
  using op_evolves(3)[OF broker_inv_distinct] by (blast intro: store_evolves_inv)

lemma broker_cancel_inv: "broker_inv b \<Longrightarrow> broker_inv (snd (broker_cancel e i b))"
  using op_evolves(4)[OF broker_inv_distinct] by (blast intro: store_evolves_inv)

lemma schedule_broker:
  "snd (snd (schedule e spawn sql work v x b)) = b \<or>
   snd (snd (schedule e spawn sql work v x b)) = snd (broker_fail e (view_id v) b)"
  by (auto simp: schedule_def split: sum.splits prod.splits
      dest: arg_cong[where f = snd])

text \<open>The executor's operations are compositions of calls of the broker.\<close>

context call_relation begin

lemma executor_submit_R:
  assumes "executor_submit e adm spawn sql ttl x b = Some (res, x', b')"
    and "allowed (Submit ttl)" and "\<And>i. allowed (Fail i)"
  shows "R b b'"
proof (cases "\<exists>v b1. broker_submit e ttl b = Some (Inr v, b1) \<and>
    (\<exists>g w. b' = snd (snd (schedule e spawn g w v x b1)))")
  case True
  then obtain v b1 g w where b1: "broker_submit e ttl b = Some (Inr v, b1)"
    "b' = snd (snd (schedule e spawn g w v x b1))" by blast
  have "R b1 b'"
    using schedule_broker[of e spawn g w v x b1] b1(2) assms(3) by (auto simp: R_refl call_R)
  with submit_R[OF b1(1) assms(2)] show ?thesis by (rule R_trans)
next
  case False
  with assms(1) have "b' = b \<or> (\<exists>ex. broker_submit e ttl b = Some (Inl ex, b'))"
    by (auto simp: executor_submit_def split: if_splits sum.splits option.splits prod.splits)
      (metis snd_conv)+
  then show ?thesis using assms(2) by (auto simp: R_refl intro: submit_R)
qed

lemma cancel_pending_R:
  "cancel_pending e vs b = (res, b') \<Longrightarrow>
   (\<And>v. v \<in> set vs \<Longrightarrow> view_status v = PENDING \<Longrightarrow> allowed (Cancel (view_id v))) \<Longrightarrow> R b b'"
proof (induction vs arbitrary: b)
  case Nil
  then show ?case by (simp add: R_refl)
next
  case (Cons v vs)
  show ?case
  proof (cases "view_status v = PENDING")
    case True
    obtain m b1 where m: "suppress_unavailable (broker_cancel e (view_id v) b) = (m, b1)" by fastforce
    then have "b1 = snd (broker_cancel e (view_id v) b)" by (auto dest: arg_cong[where f = snd])
    then have "R b b1" using Cons.prems(2)[of v] True by (simp add: call_R)
    with Cons m True show ?thesis by (auto split: sum.splits intro: R_trans)
  qed (use Cons in simp)
qed

lemma executor_close_R:
  assumes "executor_close e x b = (res, x', b')"
    and "allowed List_all" and "\<And>i. allowed (Cancel i)"
  shows "R b b'"
proof -
  obtain m b1 where lr: "list_requests e b = (m, b1)" by fastforce
  then have "R b b1" using call_R(6)[of b] assms(2) by simp
  with assms(1,3) lr show ?thesis
    by (auto simp: executor_close_def Let_def split: sum.splits prod.splits
        dest: cancel_pending_R intro: R_trans)
qed

end

text \<open>
  Cancellation ends pending work: under an aware clock the record is no longer pending afterwards,
  whichever way the call came back.
\<close>

lemma locked_record_result_record:
  assumes "locked_record e i body b = (res, b')" and "tz_aware (clock_at e (clock_reads b))"
    and "map_of (records b) i = Some r"
  obtains r1 r2 where "body r1 = (res, r2)" "map_of (records b') i = Some r2"
  using assms(1)
proof (cases rule: locked_record_cases)
  case (clock r' x n)
  then show ?thesis using assms(2) by (auto simp: expire_def now_def split: if_splits)
next
  case (ran r' c r1 n r2)
  then show ?thesis using that[of r1 r2] by (simp add: update_Some_unfold)
qed (use assms(3) in simp_all)

lemma with_cursor_cancelled_records [simp]:
  "records (snd (with_cursor_cancelled out)) = records (snd out)"
  by (auto simp: with_cursor_cancelled_def cancel_opt_def cancel_quietly_def log_event_def
      split: prod.splits sum.splits option.splits)

lemma cancelled_not_pending:
  assumes "\<And>n. tz_aware (clock_at e n)" and "broker_inv b"
    and "map_of (records (snd (broker_cancel e i b))) i = Some r"
  shows "rec_status r \<noteq> PENDING"
proof -
  obtain res b' where lr: "locked_record e i cancel_body b = (res, b')" by fastforce
  have b': "records (snd (broker_cancel e i b)) = records b'"
    by (simp add: broker_cancel_def lr)
  have "store_evolves b b'"
    by (rule locked_record_evolves[OF lr broker_inv_distinct[OF assms(2)]]) (rule body_evolves)
  then obtain r0 where "map_of (records b) i = Some r0"
    using odict_rel_lookup_back assms(3) b' by (fastforce simp: store_evolves_def)
  from locked_record_result_record[OF lr assms(1) this] obtain r1 r2 where
    "cancel_body r1 = (res, r2)" "map_of (records b') i = Some r2" by blast
  then show ?thesis
    using assms(3) b' by (auto simp: cancel_body_def Let_def split: if_splits)
qed

lemma cancel_ok:
  assumes "\<And>n. tz_aware (clock_at e n)"
  shows "is_ok (fst (suppress_unavailable (broker_cancel e i b)))"
proof -
  have "fst (locked_record e i cancel_body b) = Inl x \<Longrightarrow> x = RequestUnavailable" for x
    using assms by (auto simp: locked_record_def Let_def log_event_def expire_def now_def
        cancel_body_def split: option.splits if_splits)
  then show ?thesis
    by (cases "locked_record e i cancel_body b"; cases "fst (locked_record e i cancel_body b)")
      (auto simp: broker_cancel_def with_cursor_cancelled_def suppress_unavailable_def
        split: prod.splits)
qed

text \<open>Once not pending, a record stays not pending under later cancellations.\<close>

definition quiet_except :: "string list \<Rightarrow> ('s, 'c) broker \<Rightarrow> bool" where
  "quiet_except ids b \<longleftrightarrow>
     (\<forall>i r. map_of (records b) i = Some r \<longrightarrow> rec_status r = PENDING \<longrightarrow> i \<in> set ids)"

lemma cancel_pending_quiet:
  assumes "\<And>n. tz_aware (clock_at e n)"
  shows "broker_inv b \<Longrightarrow> quiet_except (map view_id (filter (\<lambda>v. view_status v = PENDING) vs)) b \<Longrightarrow>
    cancel_pending e vs b = (res, b') \<Longrightarrow> is_ok res \<and> broker_inv b' \<and> quiet_except [] b'"
proof (induction vs arbitrary: b)
  case Nil
  then show ?case by auto
next
  case (Cons v vs)
  show ?case
  proof (cases "view_status v = PENDING")
    case False
    with Cons show ?thesis by simp
  next
    case True
    let ?b1 = "snd (broker_cancel e (view_id v) b)"
    obtain u where sup: "suppress_unavailable (broker_cancel e (view_id v) b) = (Inr u, ?b1)"
      using cancel_ok[OF assms, of "view_id v" b]
      by (cases "suppress_unavailable (broker_cancel e (view_id v) b)";
          cases "fst (suppress_unavailable (broker_cancel e (view_id v) b))")
        (auto dest: arg_cong[where f = snd])
    have "quiet_except (map view_id (filter (\<lambda>v. view_status v = PENDING) vs)) ?b1"
      unfolding quiet_except_def
    proof (intro allI impI)
      fix i r
      assume r: "map_of (records ?b1) i = Some r" "rec_status r = PENDING"
      then have "i \<noteq> view_id v"
        using cancelled_not_pending[OF assms Cons.prems(1), where i = "view_id v"] by auto
      moreover obtain r0 where "map_of (records b) i = Some r0" "rec_evolves r0 r"
        using odict_rel_lookup_back[OF _ r(1)] op_evolves(4)[OF broker_inv_distinct[OF Cons.prems(1)]]
        by (fastforce simp: store_evolves_def)
      ultimately show "i \<in> set (map view_id (filter (\<lambda>v. view_status v = PENDING) vs))"
        using Cons.prems(2) r(2) True
        by (auto simp: quiet_except_def rec_evolves_def dest: advances_to_pending)
    qed
    with Cons.IH[OF broker_cancel_inv[OF Cons.prems(1)]] Cons.prems(3) True sup show ?thesis by simp
  qed
qed

end
