(* ===== verification/Executor_Props.thy ===== *)
theory Executor_Props
  imports Executor Broker_Cursors
begin

text \<open>
  What a submission through the executor and its shutdown guarantee: a submission either has all
  of its effects (admitted, registered, scheduled) or leaves no new pending request behind, and
  closing leaves no pending request at all.
\<close>

section \<open>Pending requests\<close>

definition no_new_pending :: "('s, 'c) broker \<Rightarrow> ('s, 'c) broker \<Rightarrow> bool" where
  "no_new_pending b b' \<longleftrightarrow>
     (\<forall>i r. map_of (records b') i = Some r \<longrightarrow> rec_status r = PENDING \<longrightarrow>
        (\<exists>r0. map_of (records b) i = Some r0 \<and> rec_status r0 = PENDING))"

lemma no_new_pending_refl [simp]: "no_new_pending b b"
  by (simp add: no_new_pending_def)

lemma no_new_pending_trans:
  "no_new_pending b b1 \<Longrightarrow> no_new_pending b1 b2 \<Longrightarrow> no_new_pending b b2"
  by (fastforce simp: no_new_pending_def)

lemma evolved_no_new_pending:
  assumes "odict_rel rec_evolves (records b) (records b')"
  shows "no_new_pending b b'"
  unfolding no_new_pending_def
proof (intro allI impI)
  fix i r
  assume r: "map_of (records b') i = Some r" "rec_status r = PENDING"
  from odict_rel_lookup_back[OF assms r(1)] obtain r0 where
    "map_of (records b) i = Some r0" "rec_evolves r0 r" by blast
  with r(2) show "\<exists>r0. map_of (records b) i = Some r0 \<and> rec_status r0 = PENDING"
    by (auto simp: rec_evolves_def dest: advances_to_pending)
qed

lemma store_evolves_no_new_pending: "store_evolves b b' \<Longrightarrow> no_new_pending b b'"
  by (simp add: store_evolves_def evolved_no_new_pending)

lemma delete_no_new_pending:
  "records b' = AList.delete i (records b) \<Longrightarrow> no_new_pending b b'"
  by (auto simp: no_new_pending_def delete_conv' split: if_splits)

lemma records_no_new_pending: "records b' = records b \<Longrightarrow> no_new_pending b b'"
  by (simp add: no_new_pending_def)

text \<open>Only submissions create pending requests.\<close>

definition calm :: "('s, 'c) broker \<Rightarrow> ('s, 'c) broker \<Rightarrow> bool" where
  "calm b b' \<longleftrightarrow> (broker_inv b \<longrightarrow> broker_inv b' \<and> no_new_pending b b')"

fun is_submit :: "('s, 'c) broker_call \<Rightarrow> bool" where
  "is_submit (Submit ttl) \<longleftrightarrow> True"
| "is_submit q \<longleftrightarrow> False"

lemma calm_trans: "calm b b1 \<Longrightarrow> calm b1 b2 \<Longrightarrow> calm b b2"
  by (auto simp: calm_def intro: no_new_pending_trans)

lemma broker_exec_calm:
  assumes "broker_exec e q b = Some b'" and "\<not> is_submit q"
  shows "calm b b'"
  unfolding calm_def
proof
  assume inv: "broker_inv b"
  have "store_evolves b b'"
    using broker_exec_store[OF assms(1) broker_inv_distinct[OF inv]] assms(2) by auto
  with inv show "broker_inv b' \<and> no_new_pending b b'"
    by (auto intro: store_evolves_inv store_evolves_no_new_pending)
qed

interpretation calming: call_relation e calm "\<lambda>q. \<not> is_submit q" for e
proof unfold_locales
  show "calm b b" for b :: "('a, 'b) broker" by (simp add: calm_def)
qed (auto intro: calm_trans broker_exec_calm)

text \<open>A refused submission only refreshed expiry or evicted an ended record.\<close>

lemma submit_body_refused:
  assumes "submit_body e ttl b = Some (Inl x, b')"
  shows "no_new_pending b b'"
proof -
  obtain m b1 where mr: "make_room b = (m, b1)" by fastforce
  then have "no_new_pending b b1"
    by (cases rule: make_room_cases) (auto intro: delete_no_new_pending)
  moreover have "b' = b \<or> records b' = records b1"
    using assms mr
    by (auto simp: submit_body_def insert_pending_def Let_def
        split: if_splits sum.splits option.splits prod.splits)
  ultimately show ?thesis
    by (auto intro: no_new_pending_trans[OF _ records_no_new_pending])
qed

lemma submit_refused:
  assumes "broker_submit e ttl b = Some (Inl x, b')"
  shows "no_new_pending b b'"
proof (cases "ttl \<le> 0")
  case True
  with assms show ?thesis by (simp add: broker_submit_def)
next
  case False
  obtain m b1 where en: "enter_records e b = (m, b1)" by fastforce
  have ent: "no_new_pending b b1"
  proof -
    obtain rs n where ex: "expire_all e (records b) (clock_reads b) = (m, rs, n)"
      and b1: "records b1 = rs" using en by (auto simp: enter_records_eq split: prod.splits)
    from expire_all_evolves[OF ex] b1 show ?thesis by (simp add: evolved_no_new_pending)
  qed
  from assms False en consider "records b' = records b1"
    | b2 where "submit_body e ttl b1 = Some (Inl x, b2)" "records b' = records b2"
    by (auto simp: broker_submit_def exit_records_eq split: sum.splits)
  then show ?thesis
  proof cases
    case 1
    then show ?thesis by (auto intro: no_new_pending_trans[OF ent] records_no_new_pending)
  next
    case (2 b2)
    from submit_body_refused[OF 2(1)] ent have "no_new_pending b b2"
      by (auto intro: no_new_pending_trans)
    with 2(2) show ?thesis by (simp add: no_new_pending_def)
  qed
qed

text \<open>An accepted one appended exactly one record to what it found.\<close>

lemma submit_registered:
  assumes "broker_submit e ttl b = Some (Inr v, b')"
  obtains rs r b1 where "records b' = rs @ [(view_id v, r)]" "view_id v \<notin> set (keys rs)"
    "view_status v = PENDING" "records b1 = rs" "no_new_pending b b1"
proof -
  from assms have ttl: "0 < ttl" by (auto simp: broker_submit_def split: if_splits)
  obtain m b1 where en: "enter_records e b = (m, b1)" by fastforce
  obtain cs b2 where m: "m = Inr cs" and sb: "submit_body e ttl b1 = Some (Inr v, b2)"
    and b': "b' = exit_records cs b2"
    using assms(1) ttl en by (auto simp: broker_submit_def split: sum.splits if_splits)
  obtain rs n where ex: "expire_all e (records b) (clock_reads b) = (m, rs, n)"
    and b1: "records b1 = rs" using en by (auto simp: enter_records_eq split: prod.splits)
  obtain u b3 where mr: "make_room b1 = (Inr u, b3)"
    using sb by (auto simp: submit_body_def split: if_splits prod.splits sum.splits)
  then obtain i k where nid: "new_request_id (entropy_at e) (keys (records b3)) (tokens_drawn b3) = Some (i, k)"
    and ins: "insert_pending e ttl i (b3\<lparr>tokens_drawn := k\<rparr>) = (Inr v, b2)"
    using sb by (auto simp: submit_body_def split: if_splits option.splits)
  have "no_new_pending b b3"
  proof (rule no_new_pending_trans)
    show "no_new_pending b b1" using expire_all_evolves[OF ex] b1 by (simp add: evolved_no_new_pending)
    from mr show "no_new_pending b1 b3"
      by (cases rule: make_room_cases) (auto intro: delete_no_new_pending)
  qed
  with ins new_request_id_fresh[OF nid] that[of "records b3" _ b3] b' show ?thesis
    by (auto simp: insert_pending_def Let_def record_view_def exit_records_eq keys_update_fresh
        split: prod.splits sum.splits)
qed

section \<open>Failing a request\<close>

lemma failed_not_pending:
  assumes "\<And>n. tz_aware (clock_at e n)" and "broker_inv b"
    and "map_of (records (snd (broker_fail e i b))) i = Some r"
  shows "rec_status r \<noteq> PENDING"
proof -
  obtain res b' where lr: "locked_record e i fail_body b = (res, b')" by fastforce
  have b': "records (snd (broker_fail e i b)) = records b'"
    by (simp add: broker_fail_def lr)
  have "store_evolves b b'"
    by (rule locked_record_evolves[OF lr broker_inv_distinct[OF assms(2)]]) (rule body_evolves)
  then obtain r0 where "map_of (records b) i = Some r0"
    using odict_rel_lookup_back assms(3) b' by (fastforce simp: store_evolves_def)
  from locked_record_result_record[OF lr assms(1) this] obtain r1 r2 where
    "fail_body r1 = (res, r2)" "map_of (records b') i = Some r2" by blast
  then show ?thesis
    using assms(3) b' by (auto simp: fail_body_def Let_def split: if_splits)
qed

lemma fail_ok:
  assumes "\<And>n. tz_aware (clock_at e n)"
  shows "is_ok (fst (suppress_unavailable (broker_fail e i b)))"
proof -
  have "fst (locked_record e i fail_body b) = Inl x \<Longrightarrow> x = RequestUnavailable" for x
    using assms by (auto simp: locked_record_def Let_def log_event_def expire_def now_def
        fail_body_def split: option.splits if_splits)
  then show ?thesis
    by (cases "locked_record e i fail_body b"; cases "fst (locked_record e i fail_body b)")
      (auto simp: broker_fail_def with_cursor_cancelled_def suppress_unavailable_def
        split: prod.splits)
qed

lemma fail_cleans:
  assumes "\<And>n. tz_aware (clock_at e n)" and "broker_inv b1"
    and "records b1 = rs @ [(view_id v, r)]" and "view_id v \<notin> set (keys rs)"
    and "\<And>i r. map_of rs i = Some r \<Longrightarrow> rec_status r = PENDING \<Longrightarrow>
      \<exists>r0. map_of (records b) i = Some r0 \<and> rec_status r0 = PENDING"
  shows "no_new_pending b (snd (broker_fail e (view_id v) b1))"
  unfolding no_new_pending_def
proof (intro allI impI)
  fix i r'
  let ?b2 = "snd (broker_fail e (view_id v) b1)"
  assume r': "map_of (records ?b2) i = Some r'" "rec_status r' = PENDING"
  with failed_not_pending[OF assms(1,2), of "view_id v"] have ne: "i \<noteq> view_id v" by auto
  have "store_evolves b1 ?b2" by (rule op_evolves(3)[OF broker_inv_distinct[OF assms(2)]])
  then have "no_new_pending b1 ?b2" by (rule store_evolves_no_new_pending)
  with r' obtain r1 where "map_of (records b1) i = Some r1" "rec_status r1 = PENDING"
    by (auto simp: no_new_pending_def)
  with ne have "map_of rs i = Some r1" by (auto simp: assms(3) map_add_Some_iff)
  with \<open>rec_status r1 = PENDING\<close> assms(5)
  show "\<exists>r0. map_of (records b) i = Some r0 \<and> rec_status r0 = PENDING" by blast
qed

section \<open>Submission and shutdown\<close>

lemma executor_submit_atomic_facts:
  assumes "executor_submit e admit spawn sql ttl x b = Some (res, x', b')" and "broker_inv b"
    and "\<And>n. tz_aware (clock_at e n)" and "\<And>ex. spawn = Inl ex \<Longrightarrow> is_Exception ex"
  shows "(exec_closed x \<or> \<not> is_ok (admit sql) \<longrightarrow> \<not> is_ok res \<and> b' = b) \<and>
    (case res of
       Inr s \<Rightarrow> \<not> exec_closed x' \<and>
         (\<exists>work. admit sql = Inr (sub_governed_sql s, work) \<and>
            broker_submit e ttl b = Some (Inr (sub_request s), b') \<and>
            exec_tasks x' = exec_tasks x @ [(sub_request s, work)])
     | Inl ex \<Rightarrow> x' = x \<and> no_new_pending b b')"
proof (cases "exec_closed x \<or> \<not> is_ok (admit sql)")
  case True
  with assms(1) show ?thesis by (cases "admit sql") (auto simp: executor_submit_def split: if_splits)
next
  case False
  then obtain g work where adm: "admit sql = Inr (g, work)" by (cases "admit sql") auto
  obtain m b1 where sub: "broker_submit e ttl b = Some (m, b1)"
    using assms(1) False adm by (cases "broker_submit e ttl b") (auto simp: executor_submit_def)
  show ?thesis
  proof (cases m)
    case (Inl ex)
    with sub have "no_new_pending b b1" by (simp add: submit_refused)
    with Inl sub assms(1) False adm show ?thesis by (auto simp: executor_submit_def)
  next
    case (Inr v)
    note reg = sub[unfolded Inr]
    have sch: "schedule e spawn g work v x b1 = (res, x', b')"
      using assms(1) False adm reg by (simp add: executor_submit_def)
    show ?thesis
    proof (cases spawn)
      case Inr': (Inr u)
      with sch reg adm False show ?thesis by (auto simp: schedule_def)
    next
      case (Inl ex)
      obtain rs r b0 where rs: "records b1 = rs @ [(view_id v, r)]" "view_id v \<notin> set (keys rs)"
        "records b0 = rs" "no_new_pending b b0" using submit_registered[OF reg] by metis
      have "no_new_pending b (snd (broker_fail e (view_id v) b1))"
        by (rule fail_cleans[OF assms(3) broker_submit_inv[OF reg assms(2)] rs(1,2)])
          (use rs(3,4) in \<open>auto simp: no_new_pending_def\<close>)
      moreover have "b' = snd (broker_fail e (view_id v) b1)" "x' = x" "\<not> is_ok res"
        using sch Inl assms(4)[OF Inl]
        by (auto simp: schedule_def split: sum.splits prod.splits dest: arg_cong[where f = snd])
      ultimately show ?thesis using False by (cases res) auto
    qed
  qed
qed

text \<open>
  Property C18.  A submission through the executor is all or nothing.  When it returns, the
  executor was open, admission succeeded before anything was registered, the broker registered
  exactly the returned request and its work is scheduled.  When it raises, nothing is scheduled
  and no request is left pending that was not pending before; and if the executor was closed or
  admission refused, the broker was not touched.
\<close>

theorem executor_submit_atomic:
  assumes "executor_submit e admit spawn sql ttl x b = Some (res, x', b')" and "broker_inv b"
    and "\<And>n. tz_aware (clock_at e n)" and "\<And>ex. spawn = Inl ex \<Longrightarrow> is_Exception ex"
  shows "(exec_closed x \<or> \<not> is_ok (admit sql) \<longrightarrow> \<not> is_ok res \<and> b' = b) \<and>
    (case res of
       Inr s \<Rightarrow> \<not> exec_closed x' \<and>
         (\<exists>work. admit sql = Inr (sub_governed_sql s, work) \<and>
            broker_submit e ttl b = Some (Inr (sub_request s), b') \<and>
            exec_tasks x' = exec_tasks x @ [(sub_request s, work)])
     | Inl ex \<Rightarrow> x' = x \<and> no_new_pending b b')"
  by (rule executor_submit_atomic_facts[OF assms])

definition sample_admission :: "nat admission" where
  "sample_admission sql =
     (if sql = ''SELECT 1'' then Inr (''SELECT 1 LIMIT 51'', 7) else Inl QueryPolicyRejected)"

theorem executor_submit_atomic_witness:
  "(\<exists>x' b'. executor_submit steady_env sample_admission (Inl (Library_error 3)) ''SELECT 1''
      (seconds 60) executor_init sample_broker = Some (Inl (Library_error 3), x', b') \<and>
     exec_tasks x' = [] \<and> no_new_pending sample_broker b' \<and> length (records b') = 1)"
proof -
  let ?out = "executor_submit steady_env sample_admission (Inl (Library_error 3)) ''SELECT 1''
      (seconds 60) executor_init sample_broker"
  have "map_option (\<lambda>(r, x, b). (r = Inl (Library_error 3), length (records b))) ?out = Some (True, 1)"
    by code_simp
  then obtain x' b' where out: "?out = Some (Inl (Library_error 3), x', b')" "length (records b') = 1"
    by auto
  have inv: "broker_inv sample_broker" using sample_after_inv[of "[]"] by (simp add: sample_after_def)
  have aware: "tz_aware (clock_at steady_env n)" for n by (simp add: steady_env_def)
  from executor_submit_atomic[OF out(1) inv aware] out show ?thesis
    by (simp add: is_Exception_def executor_init_def)
qed

lemma executor_close_facts:
  assumes "executor_close e x b = (res, x', b')" and "broker_inv b"
    and "\<And>n. tz_aware (clock_at e n)"
  shows "res = Inr () \<and> exec_tasks x' = exec_tasks x \<and> exec_closed x' \<and>
    (\<forall>i r. map_of (records b') i = Some r \<longrightarrow> rec_status r \<noteq> PENDING) \<and>
    executor_submit e' admit spawn sql ttl x' b'' = Some (Inl RequestUnavailable, x', b'')"
proof -
  obtain m b1 where ls: "list_requests e b = (m, b1)" by fastforce
  obtain n b0 where en: "enter_records e b = (n, b0)" by fastforce
  obtain rs k where "expire_all e (records b) (clock_reads b) = (n, rs, k)"
    using en by (auto simp: enter_records_eq split: prod.splits)
  from expire_all_aware[OF assms(3) this] obtain cs where "n = Inr cs" by (cases n) auto
  with ls en have m: "m = Inr (map record_view (rev (vals (records b1))))"
    by (auto simp: list_requests_def exit_records_eq)
  have inv1: "broker_inv b1"
    using store_evolves_inv[OF op_evolves(7)[OF broker_inv_distinct[OF assms(2)], of e] assms(2)] ls
    by simp
  let ?vs = "map record_view (rev (vals (records b1)))"
  have quiet: "quiet_except (map view_id (filter (\<lambda>v. view_status v = PENDING) ?vs)) b1"
    unfolding quiet_except_def
  proof (intro allI impI)
    fix i r
    assume r: "map_of (records b1) i = Some r" "rec_status r = PENDING"
    then have "r \<in> set (vals (records b1))" "rec_id r = i"
      using broker_inv_record[OF inv1 r(1)] by (force dest: map_of_SomeD)+
    with r(2) show "i \<in> set (map view_id (filter (\<lambda>v. view_status v = PENDING) ?vs))"
      by (force simp: record_view_def)
  qed
  obtain res1 b2 where cp: "cancel_pending e ?vs b1 = (res1, b2)" by fastforce
  from cancel_pending_quiet[OF assms(3) inv1 quiet cp]
  have "is_ok res1" "quiet_except [] b2" by auto
  moreover from assms(1) ls m cp have "res = res1" "b' = b2" "x' = x\<lparr>exec_closed := True\<rparr>"
    by (auto simp: executor_close_def)
  ultimately show ?thesis
    by (cases res1) (auto simp: quiet_except_def executor_submit_def)
qed

text \<open>
  Closing the executor ends all pending work: under an aware clock it returns
  normally, no request of the broker is pending afterwards, and every later submission is refused
  without reaching admission or the broker.
\<close>

theorem executor_close_quiesces:
  assumes "executor_close e x b = (res, x', b')" and "broker_inv b"
    and "\<And>n. tz_aware (clock_at e n)"
  shows "res = Inr () \<and> exec_tasks x' = exec_tasks x \<and>
    (\<forall>i r. map_of (records b') i = Some r \<longrightarrow> rec_status r \<noteq> PENDING) \<and>
    executor_submit e' admit spawn sql ttl x' b'' = Some (Inl RequestUnavailable, x', b'')"
  using executor_close_facts[OF assms] by blast

theorem executor_close_quiesces_witness:
  "\<exists>res x' b'. executor_close steady_env (executor_init :: nat executor) (sample_after [Submit (seconds 60)]) = (res, x', b') \<and>
     res = Inr () \<and> length (records b') = 1 \<and>
     (\<forall>i r. map_of (records b') i = Some r \<longrightarrow> rec_status r \<noteq> PENDING)"
proof -
  let ?out = "executor_close steady_env (executor_init :: nat executor) (sample_after [Submit (seconds 60)])"
  have len: "length (records (snd (snd ?out))) = 1" by code_simp
  obtain res x' b' where out: "?out = (res, x', b')" using prod_cases3 by blast
  have aware: "tz_aware (clock_at steady_env n)" for n by (simp add: steady_env_def)
  from executor_close_quiesces[OF out sample_after_inv aware, where e' = steady_env
      and admit = sample_admission and spawn = "Inr ()" and sql = "[]" and ttl = 1
      and b'' = sample_broker] len out
  show ?thesis by auto
qed

end
