(* ===== verification/Executor_Run.thy ===== *)
theory Executor_Run
  imports Executor_Props
begin

text \<open>
  The background task of one request (\<open>BackgroundQueryExecutor._run\<close>): a coroutine that suspends
  at each \<open>await\<close>.  Its phases are the suspension points, an event is what the event loop resumes
  it with, and between two of its steps any other caller of the broker may run.
\<close>

section \<open>The coroutine\<close>

text \<open>
  \<open>Run_abandoned\<close>: cancelled before its first step, so its \<open>try\<close> was never entered.
\<close>

datatype 's run_phase =
    Run_created
  | Run_waiting
  | Run_awaiting
  | Run_settling 's
  | Run_done
  | Run_abandoned

text \<open>
  \<open>Started\<close>: the statements before \<open>asyncio.wait\<close> ran, or raised.  \<open>Woken expired finished\<close>:
  the wait returned, with the expiry task in its done set or not and the work task done or not.
  \<open>Work_ended\<close>: \<open>await work_task\<close> returned a source or raised.  \<open>Expiry_settled\<close>: the cancelled
  expiry task was awaited.  \<open>Interrupted\<close>: the pending \<open>await\<close> raised, as it does when the task
  itself is cancelled.
\<close>

datatype 's run_event =
    Started "unit result"
  | Woken bool bool
  | Work_ended "'s result"
  | Expiry_settled "unit result"
  | Interrupted py_exn

text \<open>\<open>max((request.expires_at - datetime.now(UTC)).total_seconds(), 0)\<close>, in microseconds.\<close>

definition expiry_delay :: "request_view \<Rightarrow> instant \<Rightarrow> timedelta" where
  "expiry_delay v t = max (view_expires_at v - t) 0"

text \<open>\<open>mark_started\<close> registers the cursor; the \<open>release\<close> it returns gives it back.\<close>

definition mark_started ::
  "env \<Rightarrow> string \<Rightarrow> 'c option \<Rightarrow> ('s, 'c) broker \<Rightarrow> unit result \<times> ('s, 'c) broker" where
  "mark_started e i c b =
     (case c of None \<Rightarrow> (Inr (), b)
      | Some c' \<Rightarrow>
          (case register_cursor e i c' b of (Inl x, b') \<Rightarrow> (Inl x, b') | (Inr _, b') \<Rightarrow> (Inr (), b')))"

definition release_started ::
  "env \<Rightarrow> string \<Rightarrow> 'c option \<Rightarrow> ('s, 'c) broker \<Rightarrow> unit result \<times> ('s, 'c) broker" where
  "release_started e i c b =
     (case c of None \<Rightarrow> (Inr (), b) | Some c' \<Rightarrow> suppress_unavailable (release_cursor e i c' b))"

text \<open>The \<open>except BaseException\<close> branch; an exception of \<open>fail\<close> other than unavailability escapes
  the task, which is over either way.\<close>

definition run_abort ::
  "env \<Rightarrow> string \<Rightarrow> ('s, 'c) broker \<Rightarrow> 's run_phase \<times> ('s, 'c) broker" where
  "run_abort e i b = (Run_done, snd (suppress_unavailable (broker_fail e i b)))"

text \<open>
  One step of the task for the request \<open>i\<close>; \<open>None\<close> when the task is not waiting for the event.
\<close>

fun run_step ::
  "env \<Rightarrow> string \<Rightarrow> 's run_event \<Rightarrow> 's run_phase \<times> ('s, 'c) broker \<Rightarrow>
   ('s run_phase \<times> ('s, 'c) broker) option"
where
  "run_step e i (Started (Inr _)) (Run_created, b) = Some (Run_waiting, b)"
| "run_step e i (Started (Inl x)) (Run_created, b) = Some (run_abort e i b)"
| "run_step e i (Interrupted x) (Run_created, b) = Some (Run_abandoned, b)"
| "run_step e i (Woken expired finished) (Run_waiting, b) =
     (if expired \<and> \<not> finished then
        (case suppress_unavailable (get_request e i b) of
           (Inr _, b') \<Rightarrow> Some (Run_awaiting, b')
         | (Inl x, b') \<Rightarrow> Some (run_abort e i b'))
      else Some (Run_awaiting, b))"
| "run_step e i (Interrupted x) (Run_waiting, b) = Some (run_abort e i b)"
| "run_step e i (Work_ended (Inr s)) (Run_awaiting, b) = Some (Run_settling s, b)"
| "run_step e i (Work_ended (Inl x)) (Run_awaiting, b) = Some (run_abort e i b)"
| "run_step e i (Interrupted x) (Run_awaiting, b) = Some (run_abort e i b)"
| "run_step e i (Expiry_settled r) (Run_settling s, b) =
     (if is_ok r \<or> r = Inl CancelledError then
        (case publish e i s b of
           (Inr _, b') \<Rightarrow> Some (Run_done, b')
         | (Inl x, b') \<Rightarrow> Some (run_abort e i b'))
      else Some (run_abort e i b))"
| "run_step e i ev (ph, b) = None"

text \<open>
  The task among the other callers: requests, cancellations, listings and the worker thread's
  registration and release of its cursor.
\<close>

datatype ('s, 'c) run_action = Task "'s run_event" | Other "('s, 'c) broker_call"

fun run_act ::
  "env \<Rightarrow> string \<Rightarrow> ('s, 'c) run_action \<Rightarrow> 's run_phase \<times> ('s, 'c) broker \<Rightarrow>
   ('s run_phase \<times> ('s, 'c) broker) option"
where
  "run_act e i (Task ev) st = run_step e i ev st"
| "run_act e i (Other q) st = map_option (Pair (fst st)) (broker_exec e q (snd st))"

fun run_actions ::
  "env \<Rightarrow> string \<Rightarrow> ('s, 'c) run_action list \<Rightarrow> 's run_phase \<times> ('s, 'c) broker \<Rightarrow>
   ('s run_phase \<times> ('s, 'c) broker) option"
where
  "run_actions e i [] st = Some st"
| "run_actions e i (a # as) st =
     (case run_act e i a st of None \<Rightarrow> None | Some st' \<Rightarrow> run_actions e i as st')"

lemma run_actions_append:
  "run_actions e i (as @ as') st =
   (case run_actions e i as st of None \<Rightarrow> None | Some st' \<Rightarrow> run_actions e i as' st')"
  by (induction as arbitrary: st) (auto split: option.splits)

section \<open>Where sources come from\<close>

text \<open>No call but \<open>publish\<close> gives a record a source it did not have.\<close>

definition loses_source :: "('s, 'c) request_record \<Rightarrow> ('s, 'c) request_record \<Rightarrow> bool" where
  "loses_source r r' \<longleftrightarrow> rec_source r' = None \<or> rec_source r' = rec_source r"

lemma loses_source_refl [simp]: "loses_source r r"
  by (simp add: loses_source_def)

lemma loses_source_trans: "loses_source r s \<Longrightarrow> loses_source s t \<Longrightarrow> loses_source r t"
  by (auto simp: loses_source_def)

lemma expire_loses: "expire e r n = (res, r', n') \<Longrightarrow> loses_source r r'"
  by (auto simp: expire_def loses_source_def split: if_splits prod.splits sum.splits)

lemma body_loses:
  "loses_source r (snd (register_body c r))"
  "loses_source r (snd (release_body c r))"
  "loses_source r (snd (fail_body r))"
  "loses_source r (snd (cancel_body r))"
  "loses_source r (snd (open_body r))"
  "loses_source r (snd ((\<lambda>r. (Inr (record_view r), r)) r))"
  by (auto simp: broker_bodies Let_def loses_source_def split: option.splits)

lemma expire_all_loses:
  "expire_all e rs n = (res, rs', n') \<Longrightarrow> odict_rel loses_source rs rs'"
proof (induction rs arbitrary: n res rs' n')
  case Nil
  then show ?case by simp
next
  case (Cons p rs)
  obtain i r where p: "p = (i, r)" by (cases p)
  from Cons.prems show ?case
    by (auto simp: p split: prod.splits sum.splits dest: expire_loses Cons.IH
        intro!: odict_rel_refl)
qed

text \<open>
  A lookup afterwards with a source finds it already there before, or the source is one of \<open>S\<close>;
  without new sources at all, sources are kept.
\<close>

definition filled_from :: "'s set \<Rightarrow> string \<Rightarrow> ('s, 'c) broker \<Rightarrow> ('s, 'c) broker \<Rightarrow> bool" where
  "filled_from S i b b' \<longleftrightarrow>
     (\<forall>r' s. map_of (records b') i = Some r' \<longrightarrow> rec_source r' = Some s \<longrightarrow>
        s \<in> S \<or> (\<exists>r. map_of (records b) i = Some r \<and> rec_source r = Some s))"

abbreviation sources_kept :: "string \<Rightarrow> ('s, 'c) broker \<Rightarrow> ('s, 'c) broker \<Rightarrow> bool" where
  "sources_kept \<equiv> filled_from {}"

lemma sources_kept_def:
  "sources_kept i b b' \<longleftrightarrow>
     (\<forall>r' s. map_of (records b') i = Some r' \<longrightarrow> rec_source r' = Some s \<longrightarrow>
        (\<exists>r. map_of (records b) i = Some r \<and> rec_source r = Some s))"
  by (simp add: filled_from_def)

lemma filled_from_refl [simp]: "filled_from S i b b"
  by (simp add: filled_from_def)

lemma filled_from_trans: "filled_from S i b b1 \<Longrightarrow> filled_from S i b1 b2 \<Longrightarrow> filled_from S i b b2"
  unfolding filled_from_def by metis

lemma filled_from_mono: "filled_from S i b b' \<Longrightarrow> S \<subseteq> T \<Longrightarrow> filled_from T i b b'"
  unfolding filled_from_def by blast

lemmas sources_kept_trans = filled_from_trans [where S = "{}"]

lemma sources_kept_records:
  "records b1' = records b1 \<Longrightarrow> sources_kept i b b1 \<Longrightarrow> sources_kept i b b1'"
  by (simp add: sources_kept_def)

lemma sources_kept_rel:
  assumes "odict_rel loses_source (records b) (records b')"
  shows "sources_kept i b b'"
  unfolding sources_kept_def
  using odict_rel_lookup_back[OF assms] by (fastforce simp: loses_source_def)

lemma locked_record_sources:
  assumes "\<And>r. loses_source r (snd (body r))"
  shows "sources_kept j b (snd (locked_record e i body b))"
proof -
  obtain res b' where lr: "locked_record e i body b = (res, b')" by fastforce
  then have "sources_kept j b b'"
  proof (cases rule: locked_record_cases)
    case (ran r c r1 n r2)
    then have "loses_source r r2"
      using expire_loses[OF ran(2)] assms[of r1] by (auto intro: loses_source_trans)
    with ran(1,4) show ?thesis
      by (auto simp: sources_kept_def loses_source_def update_Some_unfold)
  qed (simp_all add: sources_kept_def)
  with lr show ?thesis by simp
qed

lemma with_cursor_cancelled_sources:
  "sources_kept j b (snd out) \<Longrightarrow> sources_kept j b (snd (with_cursor_cancelled out))"
  by (erule sources_kept_records[rotated]) simp

lemma enter_exit_sources:
  assumes "enter_records e b = (res, b1)"
  shows "sources_kept j b (exit_records cs b1)"
proof -
  have "odict_rel loses_source (records b) (records (exit_records cs b1))"
    using assms by (auto simp: enter_records_eq exit_records_eq dest: expire_all_loses split: prod.splits)
  then show ?thesis by (rule sources_kept_rel)
qed

lemma submit_body_sources:
  assumes "submit_body e ttl b = Some (res, b')"
  shows "sources_kept j b b'"
proof -
  obtain m b1 where mr: "make_room b = (m, b1)" by fastforce
  then have *: "sources_kept j b b1"
    by (cases rule: make_room_cases) (auto simp: sources_kept_def delete_conv' split: if_splits)
  have "sources_kept j b1 b'" if "insert_pending e ttl i (b1\<lparr>tokens_drawn := k\<rparr>) = (res, b')" for i k
    using that by (auto simp: insert_pending_def Let_def sources_kept_def update_Some_unfold
        split: prod.splits sum.splits)
  with * assms mr show ?thesis
    by (auto simp: submit_body_def split: if_splits sum.splits option.splits prod.splits
        intro: sources_kept_trans)
qed

lemma broker_submit_sources:
  assumes "broker_submit e ttl b = Some (res, b')"
  shows "sources_kept j b b'"
proof (cases "ttl \<le> 0")
  case True
  with assms show ?thesis by (simp add: broker_submit_def)
next
  case False
  obtain m b1 where en: "enter_records e b = (m, b1)" by fastforce
  have b1: "sources_kept j b b1"
    by (rule sources_kept_records[OF _ enter_exit_sources[OF en, of j "[]"]])
      (simp add: exit_records_eq)
  show ?thesis
  proof (cases m)
    case (Inl x)
    with assms False en enter_exit_sources[OF en] show ?thesis by (auto simp: broker_submit_def)
  next
    case (Inr cs)
    with assms False en obtain b2 where sb: "submit_body e ttl b1 = Some (res, b2)"
      and b': "b' = exit_records cs b2" by (auto simp: broker_submit_def)
    have "sources_kept j b b2" by (rule sources_kept_trans[OF b1 submit_body_sources[OF sb]])
    then show ?thesis by (rule sources_kept_records[rotated]) (simp add: b' exit_records_eq)
  qed
qed

lemma op_sources:
  "sources_kept j b (snd (release_cursor e i c b))"
  "sources_kept j b (snd (broker_fail e i b))"
  "sources_kept j b (snd (broker_cancel e i b))"
  "sources_kept j b (snd (get_request e i b))"
  "sources_kept j b (snd (open_source e i b))"
  "sources_kept j b (snd (list_requests e b))"
  by (auto simp: release_cursor_def broker_fail_def broker_cancel_def get_request_def
      open_source_def list_requests_def body_loses intro!: with_cursor_cancelled_sources
      locked_record_sources enter_exit_sources split: prod.splits sum.splits)

lemma register_cursor_sources: "sources_kept j b (snd (register_cursor e i c b))"
proof -
  have "records (snd (register_cursor e i c b)) = records (snd (locked_record e i (register_body c) b))"
    by (auto simp: register_cursor_def cancel_quietly_def log_event_def
        split: prod.splits sum.splits option.splits)
  then show ?thesis
    by (rule sources_kept_records) (rule locked_record_sources, rule body_loses)
qed

text \<open>\<open>publish\<close> can add only the source it was given, to the record it was given.\<close>

lemma publish_sources:
  assumes "map_of (records (snd (publish e i s b))) j = Some r'" and "rec_source r' = Some s'"
  shows "(\<exists>r. map_of (records b) j = Some r \<and> rec_source r = Some s') \<or> j = i \<and> s' = s"
proof -
  obtain res b' where lr: "locked_record e i (publish_body s) b = (res, b')" by fastforce
  then show ?thesis
  proof (cases rule: locked_record_cases)
    case (ran r c r1 n r2)
    have "rec_source r2 = Some s \<or> loses_source r r2"
      using expire_loses[OF ran(2)] ran(3)
      by (auto simp: publish_body_def Let_def split: if_splits)
    with ran(1,4) assms lr show ?thesis
      by (auto simp: publish_def loses_source_def update_Some_unfold split: if_splits)
  qed (use assms lr in \<open>auto simp: publish_def\<close>)
qed

lemma broker_exec_filled:
  assumes "broker_exec e q b = Some b'" and "\<And>s. q = Publish i s \<Longrightarrow> s \<in> S"
  shows "filled_from S i b b'"
proof (cases "\<exists>j s. q = Publish j s")
  case True
  then obtain j s where "q = Publish j s" by blast
  with assms show ?thesis by (auto simp: filled_from_def dest!: publish_sources)
next
  case False
  with assms(1) have "sources_kept i b b'"
    by (cases q) (auto simp: op_sources register_cursor_sources intro: broker_submit_sources)
  then show ?thesis by (rule filled_from_mono) simp
qed

lemmas broker_exec_sources = broker_exec_filled [where S = "{}", simplified]

text \<open>A client that publishes only sources of \<open>S\<close> under the identifier fills it only from \<open>S\<close>.\<close>

interpretation filling: call_relation e "filled_from S i" "\<lambda>q. \<forall>s. q = Publish i s \<longrightarrow> s \<in> S" for e S i
  by unfold_locales (auto intro: filled_from_trans broker_exec_filled)

lemma open_source_recorded:
  assumes "open_source e i b = (Inr s, b')"
  shows "\<exists>r. map_of (records b) i = Some r \<and> rec_source r = Some s"
proof -
  have "locked_record e i open_body b = (Inr s, b')" using assms by (simp add: open_source_def)
  then show ?thesis
  proof (cases rule: locked_record_cases)
    case (ran r c r1 n r2)
    then show ?thesis
      using expire_loses[OF ran(2)]
      by (auto simp: open_body_def loses_source_def split: if_splits option.splits)
  qed simp_all
qed

section \<open>Steps of the task\<close>

lemma run_abort_simps [simp]:
  "fst (run_abort e i b) = Run_done"
  "snd (run_abort e i b) = snd (broker_fail e i b)"
  by (simp_all add: run_abort_def)

text \<open>What a step leaves of the broker: nothing else than the calls the code makes.\<close>

lemma run_step_broker:
  assumes "run_step e i ev (ph, b) = Some (ph', b')"
  obtains "b' = b" "ph' \<noteq> Run_done"
  | "b' = snd (get_request e i b)" "ph' = Run_awaiting"
  | "b' = snd (broker_fail e i b)" "ph' = Run_done"
  | "b' = snd (broker_fail e i (snd (get_request e i b)))" "ph' = Run_done"
  | s x where "ph = Run_settling s" "publish e i s b = (Inl x, snd (publish e i s b))"
      "b' = snd (broker_fail e i (snd (publish e i s b)))" "ph' = Run_done"
  | s v where "ph = Run_settling s" "publish e i s b = (Inr v, b')" "ph' = Run_done"
proof -
  have abort: "run_abort e i b1 = (ph', b') \<longleftrightarrow> ph' = Run_done \<and> b' = snd (broker_fail e i b1)" for b1
    by (auto simp: run_abort_def)
  show ?thesis
  proof (cases ev)
    case (Started r)
    with assms abort that(1,3) show ?thesis by (cases r; cases ph) auto
  next
    case (Woken expired finished)
    with assms have ph: "ph = Run_waiting" by (cases ph) auto
    obtain r b1 where gr: "suppress_unavailable (get_request e i b) = (r, b1)" by fastforce
    then have b1: "b1 = snd (get_request e i b)" by (auto dest: arg_cong[where f = snd])
    show ?thesis
    proof (cases "expired \<and> \<not> finished")
      case False
      with Woken ph assms show ?thesis by (intro that(1)) (auto split: if_splits)
    next
      case late: True
      show ?thesis
      proof (cases r)
        case (Inl x)
        with late gr b1 Woken ph assms abort show ?thesis by (intro that(4)) simp_all
      next
        case (Inr u)
        with late gr b1 Woken ph assms show ?thesis by (intro that(2)) simp_all
      qed
    qed
  next
    case (Work_ended r)
    with assms abort that(1,3) show ?thesis by (cases r; cases ph) auto
  next
    case (Expiry_settled r)
    with assms obtain s where ph: "ph = Run_settling s" by (cases ph) auto
    obtain m b1 where pb: "publish e i s b = (m, b1)" by fastforce
    show ?thesis
    proof (cases "is_ok r \<or> r = Inl CancelledError")
      case False
      with Expiry_settled ph assms abort show ?thesis by (intro that(3)) simp_all
    next
      case ok: True
      show ?thesis
      proof (cases m)
        case (Inl x)
        with ok pb Expiry_settled ph assms abort show ?thesis by (intro that(5)[OF ph]) simp_all
      next
        case (Inr v)
        with ok pb Expiry_settled ph assms show ?thesis by (intro that(6)[OF ph]) simp_all
      qed
    qed
  next
    case (Interrupted x)
    with assms abort that(1,3) show ?thesis by (cases ph) auto
  qed
qed

lemma run_step_settling:
  "run_step e i ev (ph, b) = Some (Run_settling s, b') \<Longrightarrow> ev = Work_ended (Inr s)"
proof (cases ev)
  case (Started r)
  then show "run_step e i ev (ph, b) = Some (Run_settling s, b') \<Longrightarrow> ?thesis"
    by (cases r; cases ph) (auto simp: run_abort_def)
next
  case (Woken p q)
  then show "run_step e i ev (ph, b) = Some (Run_settling s, b') \<Longrightarrow> ?thesis"
    by (cases ph) (auto simp: run_abort_def split: if_splits prod.splits sum.splits)
next
  case (Work_ended r)
  then show "run_step e i ev (ph, b) = Some (Run_settling s, b') \<Longrightarrow> ?thesis"
    by (cases r; cases ph) (auto simp: run_abort_def)
next
  case (Expiry_settled r)
  then show "run_step e i ev (ph, b) = Some (Run_settling s, b') \<Longrightarrow> ?thesis"
    by (cases ph) (auto simp: run_abort_def split: if_splits prod.splits sum.splits)
next
  case (Interrupted x)
  then show "run_step e i ev (ph, b) = Some (Run_settling s, b') \<Longrightarrow> ?thesis"
    by (cases ph) (auto simp: run_abort_def)
qed

text \<open>So a step of the task is a composition of calls, and only the settling one publishes.\<close>

context call_relation begin

lemma run_step_R:
  assumes "run_step e i ev (ph, b) = Some (ph', b')"
    and "allowed (Get i)" and "allowed (Fail i)"
    and "\<And>s. ph = Run_settling s \<Longrightarrow> allowed (Publish i s)"
  shows "R b b'"
  using assms(1)
proof (cases rule: run_step_broker)
  case 4
  then show ?thesis using R_trans[OF call_R(7)[OF assms(2)] call_R(4)[OF assms(3)]] by simp
next
  case (5 s x)
  then show ?thesis using R_trans[OF call_R(3)[OF assms(4)[OF 5(1)]] call_R(4)[OF assms(3)]] by simp
next
  case (6 s v)
  with call_R(3)[OF assms(4)[OF 6(1)], of b] show ?thesis by simp
qed (simp_all add: R_refl call_R assms(2,3))

lemma run_act_R:
  assumes "run_act e i a (ph, b) = Some (ph', b')"
    and "allowed (Get i)" and "allowed (Fail i)"
    and "\<And>s. ph = Run_settling s \<Longrightarrow> allowed (Publish i s)"
    and "\<And>q. a = Other q \<Longrightarrow> allowed q"
  shows "R b b'"
  using assms by (cases a) (auto intro: run_step_R R_exec)

lemma mark_started_R:
  assumes "\<And>c'. allowed (Register i c')"
  shows "R b (snd (mark_started e i c b))"
proof (cases c)
  case None
  then show ?thesis by (simp add: mark_started_def R_refl)
next
  case (Some c')
  then have "snd (mark_started e i c b) = snd (register_cursor e i c' b)"
    by (simp add: mark_started_def split: prod.splits sum.splits)
  then show ?thesis by (simp add: call_R assms)
qed

lemma release_started_R:
  "(\<And>c'. allowed (Release i c')) \<Longrightarrow> R b (snd (release_started e i c b))"
  by (cases c) (simp_all add: release_started_def R_refl call_R)

end

lemma run_act_inv:
  "run_act e i a (ph, b) = Some (ph', b') \<Longrightarrow> broker_inv b \<Longrightarrow> broker_inv b'"
  by (auto intro: brk.steps_inv[OF calling.run_act_R])

lemma run_actions_inv:
  "run_actions e i as (ph, b) = Some (ph', b') \<Longrightarrow> broker_inv b \<Longrightarrow> broker_inv b'"
proof (induction as arbitrary: ph b)
  case Nil
  then show ?case by simp
next
  case (Cons a as)
  then obtain ph1 b1 where "run_act e i a (ph, b) = Some (ph1, b1)"
    "run_actions e i as (ph1, b1) = Some (ph', b')" by (auto split: option.splits)
  with Cons show ?case by (blast intro: run_act_inv)
qed

section \<open>Properties of the background task\<close>

lemma published_not_pending:
  assumes "publish e i s b = (Inr v, b')" and "map_of (records b') i = Some r"
  shows "rec_status r = COMPLETE \<and> rec_source r = Some s"
proof -
  have "locked_record e i (publish_body s) b = (Inr v, b')" using assms(1) by (simp add: publish_def)
  then show ?thesis
  proof (cases rule: locked_record_cases)
    case (ran r' c r1 n r2)
    with assms(2) show ?thesis
      by (auto simp: publish_body_def Let_def update_Some_unfold split: if_splits)
  qed simp_all
qed

lemma finishing_step_not_pending:
  assumes "run_step e i ev (ph, b1) = Some (Run_done, b2)"
    and "broker_inv b1" and "\<And>n. tz_aware (clock_at e n)"
  shows "\<forall>r. map_of (records b2) i = Some r \<longrightarrow> rec_status r \<noteq> PENDING"
proof -
  note np = failed_not_pending[OF assms(3)]
  from assms(1) show ?thesis
  proof (cases rule: run_step_broker)
    case 3
    then show ?thesis using np[OF assms(2)] by blast
  next
    case 4
    then show ?thesis using np[OF brk.steps_inv[OF calling.call_R(7) assms(2)]] by blast
  next
    case (5 s x)
    then show ?thesis using np[OF brk.steps_inv[OF calling.call_R(3) assms(2)]] by blast
  next
    case (6 s v)
    then show ?thesis by (auto dest: published_not_pending)
  qed simp_all
qed

text \<open>
  A background task never leaves its request pending: whenever the task of a
  request finishes, after any interleaving with other callers, and whether the work returned,
  raised, timed out or was interrupted, the request has ended, is complete, or is no longer stored.
\<close>

theorem finished_run_not_pending:
  assumes "run_actions e i as (Run_created, b) = Some (ph, b1)"
    and "run_act e i (Task ev) (ph, b1) = Some (Run_done, b2)"
    and "broker_inv b" and "\<And>n. tz_aware (clock_at e n)"
  shows "\<forall>r. map_of (records b2) i = Some r \<longrightarrow> rec_status r \<noteq> PENDING"
proof -
  have "broker_inv b1" by (rule run_actions_inv[OF assms(1,3)])
  moreover have "run_step e i ev (ph, b1) = Some (Run_done, b2)" using assms(2) by simp
  ultimately show ?thesis using finishing_step_not_pending assms(4) by blast
qed

text \<open>The sources the work returned so far.\<close>

fun returned_sources :: "('s, 'c) run_action list \<Rightarrow> 's set" where
  "returned_sources [] = {}"
| "returned_sources (Task (Work_ended (Inr s)) # as) = insert s (returned_sources as)"
| "returned_sources (a # as) = returned_sources as"

definition sources_within :: "'s set \<Rightarrow> string \<Rightarrow> 's run_phase \<times> ('s, 'c) broker \<Rightarrow> bool" where
  "sources_within S i st \<longleftrightarrow>
     (\<forall>s. fst st = Run_settling s \<longrightarrow> s \<in> S) \<and>
     (\<forall>r s. map_of (records (snd st)) i = Some r \<longrightarrow> rec_source r = Some s \<longrightarrow> s \<in> S)"

lemma sources_within_filled:
  "sources_within S i (ph, b) \<Longrightarrow> filled_from T i b b' \<Longrightarrow> S \<subseteq> T \<Longrightarrow>
   (\<And>s. ph' = Run_settling s \<Longrightarrow> s \<in> T) \<Longrightarrow> sources_within T i (ph', b')"
  unfolding sources_within_def filled_from_def by (auto simp: subset_iff)

lemma run_act_sources:
  assumes "run_act e i a (ph, b) = Some (ph', b')" and "sources_within S i (ph, b)"
    and "\<And>s. a \<noteq> Other (Publish i s)"
  shows "sources_within (S \<union> returned_sources [a]) i (ph', b')"
proof (rule sources_within_filled[OF assms(2)])
  show "filled_from (S \<union> returned_sources [a]) i b b'"
    by (rule filling.run_act_R[OF assms(1)])
      (use assms(2,3) in \<open>auto simp: sources_within_def\<close>)
  show "s \<in> S \<union> returned_sources [a]" if "ph' = Run_settling s" for s
    using assms(1,2) that
    by (cases a) (auto simp: sources_within_def dest: run_step_settling)
qed simp

lemma returned_sources_Cons: "returned_sources (a # as) = returned_sources [a] \<union> returned_sources as"
  by (cases "a # as" rule: returned_sources.cases) auto

lemma run_actions_sources:
  "run_actions e i as (ph, b) = Some (ph', b') \<Longrightarrow> sources_within S i (ph, b) \<Longrightarrow>
   (\<And>s. Other (Publish i s) \<notin> set as) \<Longrightarrow> sources_within (S \<union> returned_sources as) i (ph', b')"
proof (induction as arbitrary: ph b S)
  case Nil
  then show ?case by simp
next
  case (Cons a as)
  then obtain ph1 b1 where st: "run_act e i a (ph, b) = Some (ph1, b1)"
    "run_actions e i as (ph1, b1) = Some (ph', b')" by (auto split: option.splits)
  have "sources_within (S \<union> returned_sources [a]) i (ph1, b1)"
    using Cons.prems(3) by (intro run_act_sources[OF st(1) Cons.prems(2)]) auto
  from Cons.IH[OF st(2) this] Cons.prems(3) show ?case
    by (simp add: returned_sources_Cons[of a as] Un_assoc)
qed

text \<open>
  Only the request's own work can fill it: if the request had no source when its
  task was created, and nobody else publishes under its identifier, then whatever
  \<open>open_source\<close> later hands out for it is a source its work returned.
\<close>

theorem served_source_from_work:
  assumes "run_actions e i as (Run_created, b) = Some (ph, b1)"
    and "\<And>r. map_of (records b) i = Some r \<Longrightarrow> rec_source r = None"
    and "\<And>s. Other (Publish i s) \<notin> set as"
    and "open_source e' i b1 = (Inr s, b2)"
  shows "Task (Work_ended (Inr s)) \<in> set as"
proof -
  have "sources_within {} i (Run_created, b)"
    using assms(2) by (auto simp: sources_within_def)
  from run_actions_sources[OF assms(1) this assms(3)]
  have "sources_within (returned_sources as) i (ph, b1)" by simp
  moreover have "\<exists>r. map_of (records b1) i = Some r \<and> rec_source r = Some s"
    using assms(4) by (rule open_source_recorded)
  ultimately have "s \<in> returned_sources as" by (auto simp: sources_within_def)
  then show ?thesis by (induction as rule: returned_sources.induct) auto
qed

definition sample_run :: "(nat, nat) run_action list" where
  "sample_run =
     [Task (Started (Inr ())), Other (Register sample_id 9), Other List_all,
      Other (Release sample_id 9), Task (Woken False True), Task (Work_ended (Inr 5)),
      Task (Expiry_settled (Inl CancelledError))]"

theorem served_source_from_work_witness:
  "\<exists>b1 b2. run_actions steady_env sample_id sample_run
      (Run_created, sample_after [Submit (seconds 60)]) = Some (Run_done, b1) \<and>
     open_source steady_env sample_id b1 = (Inr 5, b2) \<and>
     Task (Work_ended (Inr 5)) \<in> set sample_run"
proof -
  let ?b = "sample_after [Submit (seconds 60)]"
  let ?out = "run_actions steady_env sample_id sample_run (Run_created, ?b)"
  have "map_option (\<lambda>(ph, b1). (ph, fst (open_source steady_env sample_id b1))) ?out =
    Some (Run_done, Inr 5)" by code_simp
  then obtain b1 where out: "?out = Some (Run_done, b1)"
    "fst (open_source steady_env sample_id b1) = Inr 5" by auto
  then obtain b2 where op: "open_source steady_env sample_id b1 = (Inr 5, b2)"
    by (cases "open_source steady_env sample_id b1") auto
  have src: "rec_source r = None" if "map_of (records ?b) sample_id = Some r" for r
  proof -
    have "map_option rec_source (map_of (records ?b) sample_id) = Some None" by code_simp
    with that show ?thesis by simp
  qed
  have "Other (Publish sample_id s) \<notin> set sample_run" for s by (simp add: sample_run_def)
  from served_source_from_work[OF out(1) src this op] out(1) op show ?thesis by blast
qed

theorem finished_run_not_pending_witness:
  "\<exists>ph b1 b2. run_actions steady_env sample_id [Task (Started (Inr ())), Task (Woken False True)]
      (Run_created, sample_after [Submit (seconds 60)]) = Some (ph, b1) \<and>
     run_act steady_env sample_id (Task (Work_ended (Inl (Library_error 1)))) (ph, b1) =
       Some (Run_done, b2) \<and> length (records b2) = 1 \<and>
     (\<forall>r. map_of (records b2) sample_id = Some r \<longrightarrow> rec_status r \<noteq> PENDING)"
proof -
  let ?as = "[Task (Started (Inr ())), Task (Woken False True)] :: (nat, nat) run_action list"
  let ?b = "sample_after [Submit (seconds 60)]"
  let ?ev = "Work_ended (Inl (Library_error 1)) :: nat run_event"
  have "map_option (\<lambda>st. map_option (\<lambda>(ph, b). (ph, length (records b)))
      (run_act steady_env sample_id (Task ?ev) st))
    (run_actions steady_env sample_id ?as (Run_created, ?b)) = Some (Some (Run_done, 1))" by code_simp
  then obtain st where st0: "run_actions steady_env sample_id ?as (Run_created, ?b) = Some st"
    "map_option (\<lambda>(ph, b). (ph, length (records b))) (run_act steady_env sample_id (Task ?ev) st) =
     Some (Run_done, 1)" by blast
  then obtain st' where st': "run_act steady_env sample_id (Task ?ev) st = Some st'"
    "(case st' of (ph, b) \<Rightarrow> (ph, length (records b))) = (Run_done, 1)" by blast
  obtain ph b1 where "st = (ph, b1)" by (cases st)
  moreover obtain b2 where "st' = (Run_done, b2)" "length (records b2) = 1"
    using st'(2) by (cases st') simp
  ultimately have st: "run_actions steady_env sample_id ?as (Run_created, ?b) = Some (ph, b1)"
    "run_act steady_env sample_id (Task ?ev) (ph, b1) = Some (Run_done, b2)" "length (records b2) = 1"
    using st0(1) st'(1) by blast+
  have aware: "tz_aware (clock_at steady_env n)" for n by (simp add: steady_env_def)
  from finished_run_not_pending[OF st(1,2) sample_after_inv aware] st show ?thesis by blast
qed

text \<open>A request with a two second lifetime and a cursor, as the next clock reading finds it.\<close>

lemma sample_registered:
  "records (sample_after [Submit (seconds 2), Register sample_id 9]) =
     [(sample_id, \<lparr>rec_id = sample_id, rec_status = PENDING, rec_expires_at = seconds 2,
        rec_source = None, rec_cursor = Some 9\<rparr>)]"
  "clock_reads (sample_after [Submit (seconds 2), Register sample_id 9]) = 2"
  by code_simp+

text \<open>
  Property C31.  When the deadline wakes the task before its work is done and the broker's clock
  agrees, the request expires there and then and the driver cursor it held is cancelled, once,
  after the lock is released; the task goes on waiting for its work.
\<close>

theorem deadline_cancels_driver:
  assumes "map_of (records b) i = Some r" and "rec_status r = PENDING"
    and "tz_aware (clock_at e (clock_reads b))"
    and "rec_expires_at r \<le> instant_of (clock_at e (clock_reads b))"
  shows "\<exists>b' r'. run_step e i (Woken True False) (Run_waiting, b) = Some (Run_awaiting, b') \<and>
    map_of (records b') i = Some r' \<and> rec_status r' = EXPIRED \<and> rec_cursor r' = None \<and>
    trace b' = trace b @ [Lock_acquired, Lock_released] @
      (case rec_cursor r of None \<Rightarrow> [] | Some c \<Rightarrow> [Driver_cancel c])"
  using assms
  by (auto simp: get_request_def locked_record_def Let_def log_event_def expire_def now_def
      suppress_unavailable_def cancel_opt_def cancel_quietly_def update_Some_unfold
      split: option.splits)

theorem deadline_cancels_driver_witness:
  "\<exists>b' r'. run_step steady_env sample_id (Woken True False)
      (Run_waiting, sample_after [Submit (seconds 2), Register sample_id 9]) = Some (Run_awaiting, b') \<and>
     map_of (records b') sample_id = Some r' \<and> rec_status r' = EXPIRED \<and>
     last (trace b') = Driver_cancel 9"
proof -
  let ?b = "sample_after [Submit (seconds 2), Register sample_id 9]"
  let ?t = "clock_at steady_env (clock_reads ?b)"
  note facts = sample_registered steady_env_def
  obtain r where r: "map_of (records ?b) sample_id = Some r" "rec_status r = PENDING"
    "rec_cursor r = Some 9" "rec_expires_at r \<le> instant_of ?t" "tz_aware ?t"
    by (simp add: facts)
  from deadline_cancels_driver[OF r(1,2,5,4)] obtain b' r' where out:
    "run_step steady_env sample_id (Woken True False) (Run_waiting, ?b) = Some (Run_awaiting, b')"
    "map_of (records b') sample_id = Some r'" "rec_status r' = EXPIRED"
    "trace b' = trace ?b @ [Lock_acquired, Lock_released] @
      (case rec_cursor r of None \<Rightarrow> [] | Some c \<Rightarrow> [Driver_cancel c])" by blast
  from out(4) r(3) have "last (trace b') = Driver_cancel 9" by simp
  with out(1-3) show ?thesis by blast
qed

text \<open>
  When the work has returned a source, the task publishes it unless the deadline
  has passed: a request still pending becomes complete with exactly that source, or, at or after
  its deadline, expired with no source; in both cases the task is over.
\<close>

theorem finished_work_published_unless_late:
  assumes "map_of (records b) i = Some r" and "rec_status r = PENDING"
    and "tz_aware (clock_at e (clock_reads b))"
  shows "\<exists>b' r'. run_step e i (Expiry_settled (Inr ())) (Run_settling s, b) = Some (Run_done, b') \<and>
    map_of (records b') i = Some r' \<and> rec_expires_at r' = rec_expires_at r \<and> rec_cursor r' = None \<and>
    (if instant_of (clock_at e (clock_reads b)) < rec_expires_at r
     then rec_status r' = COMPLETE \<and> rec_source r' = Some s
     else rec_status r' = EXPIRED \<and> rec_source r' = None)"
proof (cases "instant_of (clock_at e (clock_reads b)) < rec_expires_at r")
  case True
  with assms show ?thesis
    by (simp add: publish_def publish_body_def locked_record_def Let_def log_event_def
        expire_def now_def cancel_opt_def AList.update_conv')
next
  case False
  with assms show ?thesis
    by (cases "rec_cursor r")
      (simp_all add: publish_def publish_body_def run_abort_def broker_fail_def fail_body_def
        with_cursor_cancelled_def suppress_unavailable_def locked_record_def Let_def log_event_def
        expire_def now_def cancel_opt_def cancel_quietly_def AList.update_conv')
qed

theorem finished_work_published_unless_late_witness:
  "\<exists>b' r'. run_step steady_env sample_id (Expiry_settled (Inr ()))
      (Run_settling 5, sample_after [Submit (seconds 2), Register sample_id 9]) = Some (Run_done, b') \<and>
     map_of (records b') sample_id = Some r' \<and> rec_status r' = EXPIRED \<and> rec_source r' = None"
proof -
  let ?b = "sample_after [Submit (seconds 2), Register sample_id 9]"
  let ?t = "clock_at steady_env (clock_reads ?b)"
  note facts = sample_registered steady_env_def
  obtain r where r: "map_of (records ?b) sample_id = Some r" "rec_status r = PENDING"
    "rec_expires_at r \<le> instant_of ?t" "tz_aware ?t"
    by (simp add: facts)
  from finished_work_published_unless_late[OF r(1,2,4), of 5] obtain b' r' where out:
    "run_step steady_env sample_id (Expiry_settled (Inr ())) (Run_settling 5, ?b) = Some (Run_done, b')"
    "map_of (records b') sample_id = Some r'"
    "if instant_of ?t < rec_expires_at r then rec_status r' = COMPLETE \<and> rec_source r' = Some 5
     else rec_status r' = EXPIRED \<and> rec_source r' = None" by blast
  from out(3) r(3) have "rec_status r' = EXPIRED \<and> rec_source r' = None" by (simp split: if_splits)
  with out(1,2) show ?thesis by blast
qed

end
