(* ===== verification/Snowflake_Executor.thy ===== *)
theory Snowflake_Executor
  imports Snowflake Sql_Policy Arrow_Admission Executor_Run
begin

text \<open>
  Configured Snowflake execution (\<open>src/snowglobe/snowflake_executor.py\<close>).  \<open>_execute\<close> is given
  twice: as the nested blocks of the source, and as the sequence of steps of the worker thread it
  runs in, between which other threads may run; \<open>Snowflake_Steps\<close> shows
  that they agree.
\<close>

section \<open>State and surroundings\<close>

text \<open>\<open>sv_active\<close>: the lock \<open>_active\<close> is held.  \<open>sv_printed\<close>: what was printed, in order.\<close>

record ('n, 'c, 's) service = "('n, 'c) connector_state" +
  sv_broker :: "('s, 'c) broker"
  sv_active :: bool
  sv_printed :: "string list"

text \<open>\<open>pf_stdout\<close> says whether a \<open>print\<close> returns, given what was printed before.\<close>

record ('n, 'c, 'm, 'x) platform =
  pf_env :: env
  pf_driver :: "('n, 'c, 'm, 'x) driver"
  pf_writer :: "('m, 'x) ipc_writer"
  pf_stdout :: "string list \<Rightarrow> unit result"

section \<open>Admission\<close>

record ('n, 'c) query_admission =
  qa_policy :: sql_policy
  qa_arguments :: arguments
  qa_connect :: "('n, 'c) connect option"

text \<open>\<open>__call__\<close>: the work is determined by the governed SQL it closes over.\<close>

definition admission_call :: "'q sqlglot \<Rightarrow> ('n, 'c) query_admission \<Rightarrow> string admission" where
  "admission_call g qa sql =
     then_do (authorize g (qa_policy qa) sql) (\<lambda>governed. Inr (governed, governed))"

section \<open>Fetching the result\<close>

text \<open>The generator \<open>_record_batches\<close>: the batches of each table in turn, until one is refused.\<close>

fun record_batches ::
  "'m schema \<Rightarrow> ('m, 'x) table_object result list \<Rightarrow> ('m, 'x) py_object result list" where
  "record_batches s [] = []"
| "record_batches s (Inl x # items) = [Inl x]"
| "record_batches s (Inr (Arrow_table t) # items) =
     (if table_schema t \<noteq> s then [Inl ArrowAdmissionError]
      else map (\<lambda>b. Inr (Record_batch b)) (table_batches t) @ record_batches s items)"
| "record_batches s (Inr obj # items) = [Inl ArrowAdmissionError]"

definition empty_result_table ::
  "('n, 'c, 'm, 'x) driver \<Rightarrow> ('n, 'c) driver_log \<Rightarrow> 'c \<Rightarrow> ('m, 'x) arrow_table result" where
  "empty_result_table d calls c =
     then_do (dr_result_batches d calls c) (\<lambda>found.
       case found of
         None \<Rightarrow> Inl ArrowAdmissionError
       | Some [] \<Rightarrow> Inl ArrowAdmissionError
       | Some (b # bs) \<Rightarrow>
           if list_ex (\<lambda>b. rowcount b \<noteq> 0) (b # bs) then Inl ArrowAdmissionError
           else then_do (to_arrow b) (\<lambda>obj.
                  case obj of
                    Arrow_table t \<Rightarrow>
                      if table_num_rows t \<noteq> 0 then Inl ArrowAdmissionError else Inr t
                  | _ \<Rightarrow> Inl ArrowAdmissionError))"

text \<open>\<open>next(tables, None)\<close>: an iterator that yields \<open>None\<close> first looks like an empty one.\<close>

definition first_table ::
  "('n, 'c, 'm, 'x) driver \<Rightarrow> ('n, 'c) driver_log \<Rightarrow> 'c \<Rightarrow> ('m, 'x) table_object result list \<Rightarrow>
   (('m, 'x) arrow_table \<times> ('m, 'x) table_object result list) result"
where
  "first_table d calls c tables =
     (case tables of
        [] \<Rightarrow> then_do (empty_result_table d calls c) (\<lambda>t. Inr (t, []))
      | Inl x # rest \<Rightarrow> Inl x
      | Inr None_object # rest \<Rightarrow> then_do (empty_result_table d calls c) (\<lambda>t. Inr (t, rest))
      | Inr (Arrow_table t) # rest \<Rightarrow> Inr (t, rest)
      | Inr (Other_table_object k) # rest \<Rightarrow> Inl ArrowAdmissionError)"

definition fetch_admitted_result ::
  "('n, 'c, 'm, 'x) platform \<Rightarrow> ('n, 'c) driver_log \<Rightarrow> 'c \<Rightarrow> ('m, 'x) batch_source result" where
  "fetch_admitted_result pf calls c =
     then_do (dr_fetch (pf_driver pf) calls c) (\<lambda>tables.
     then_do (first_table (pf_driver pf) (calls @ [Fetched c]) c tables) (\<lambda>(first, rest).
       fst (admit_record_batches (pf_writer pf) (table_schema first)
              (record_batches (table_schema first) (Inr (Arrow_table first) # rest))
              MVP_ARROW_LIMITS)))"

section \<open>The blocks of \<open>_execute\<close>\<close>

definition execution_notice :: "string \<Rightarrow> string \<Rightarrow> string" where
  "execution_notice i sql =
     ''Executing governed SQL for request '' @ i @ '':'' @ [CHR 0x0A] @ sql"

definition print_line ::
  "('n, 'c, 'm, 'x) platform \<Rightarrow> string \<Rightarrow> ('n, 'c, 's) service \<Rightarrow>
   unit result \<times> ('n, 'c, 's) service"
where
  "print_line pf line st =
     (pf_stdout pf (sv_printed st), st\<lparr>sv_printed := sv_printed st @ [line]\<rparr>)"

definition start_cursor ::
  "('n, 'c, 'm, 'x) platform \<Rightarrow> string \<Rightarrow> 'c \<Rightarrow> ('n, 'c, 's) service \<Rightarrow>
   unit result \<times> ('n, 'c, 's) service"
where
  "start_cursor pf i c st =
     (case mark_started (pf_env pf) i (Some c) (sv_broker st) of (r, b) \<Rightarrow> (r, st\<lparr>sv_broker := b\<rparr>))"

definition give_back_cursor ::
  "('n, 'c, 'm, 'x) platform \<Rightarrow> string \<Rightarrow> 'c \<Rightarrow> ('n, 'c, 's) service \<Rightarrow>
   unit result \<times> ('n, 'c, 's) service"
where
  "give_back_cursor pf i c st =
     (case release_started (pf_env pf) i (Some c) (sv_broker st) of
        (r, b) \<Rightarrow> (r, st\<lparr>sv_broker := b\<rparr>))"

definition execute_statement ::
  "('n, 'c, 'm, 'x) platform \<Rightarrow> string \<Rightarrow> string \<Rightarrow> 'c \<Rightarrow> ('n, 'c, 's) service \<Rightarrow>
   unit result \<times> ('n, 'c, 's) service"
where
  "execute_statement pf i sql c st =
     (case print_line pf (execution_notice i sql) st of
        (Inl x, st1) \<Rightarrow> (Inl x, st1)
      | (Inr _, st1) \<Rightarrow>
          (dr_execute (pf_driver pf) (conn_log st1) c sql MVP_STATEMENT_TIMEOUT_SECONDS,
           note_call (Executed c sql MVP_STATEMENT_TIMEOUT_SECONDS) st1))"

definition fetch_step ::
  "('n, 'c, 'm, 'x) platform \<Rightarrow> 'c \<Rightarrow> ('n, 'c, 's) service \<Rightarrow>
   ('m, 'x) batch_source result \<times> ('n, 'c, 's) service"
where
  "fetch_step pf c st = (fetch_admitted_result pf (conn_log st) c, note_call (Fetched c) st)"

definition run_query ::
  "('n, 'c, 'm, 'x) platform \<Rightarrow> string \<Rightarrow> string \<Rightarrow> 'c \<Rightarrow> ('n, 'c, 's) service \<Rightarrow>
   ('m, 'x) batch_source result \<times> ('n, 'c, 's) service"
where
  "run_query pf i sql c st =
     (case execute_statement pf i sql c st of
        (Inl x, st1) \<Rightarrow> (Inl x, st1)
      | (Inr _, st1) \<Rightarrow> fetch_step pf c st1)"

definition with_started_cursor ::
  "('n, 'c, 'm, 'x) platform \<Rightarrow> string \<Rightarrow> string \<Rightarrow> 'c \<Rightarrow> ('n, 'c, 's) service \<Rightarrow>
   ('m, 'x) batch_source result \<times> ('n, 'c, 's) service"
where
  "with_started_cursor pf i sql c st =
     (case start_cursor pf i c st of
        (Inl x, st1) \<Rightarrow> (Inl x, st1)
      | (Inr _, st1) \<Rightarrow> try_finally (run_query pf i sql c) (give_back_cursor pf i c) st1)"

definition release_active :: "('n, 'c, 's) service \<Rightarrow> unit result \<times> ('n, 'c, 's) service" where
  "release_active st = (Inr (), st\<lparr>sv_active := False\<rparr>)"

definition execute_request ::
  "('n, 'c, 'm, 'x) platform \<Rightarrow> ('n, 'c) query_admission \<Rightarrow> string \<Rightarrow> string \<Rightarrow>
   ('n, 'c, 's) service \<Rightarrow> ('m, 'x) batch_source result \<times> ('n, 'c, 's) service"
where
  "execute_request pf qa i sql st =
     (if sv_active st then (Inl RequestUnavailable, st)
      else try_finally
             (request_cursor (pf_driver pf) (qa_connect qa) (qa_arguments qa)
                (with_started_cursor pf i sql))
             release_active (st\<lparr>sv_active := True\<rparr>))"

section \<open>The worker thread\<close>

text \<open>Where the thread stands; a result carried along is what the enclosing block is to give.\<close>

datatype ('n, 'c, 'a) worker =
    Wk_created
  | Wk_entered
  | Wk_connected 'n
  | Wk_cursor 'n 'c
  | Wk_started 'n 'c
  | Wk_executed 'n 'c
  | Wk_releasing 'n 'c "'a result"
  | Wk_closing_cursor 'n 'c "'a result"
  | Wk_closing_connection 'n "'a result"
  | Wk_unlocking "'a result"
  | Wk_done "'a result"

fun worker_step ::
  "('n, 'c, 'm, 'x) platform \<Rightarrow> ('n, 'c) query_admission \<Rightarrow> string \<Rightarrow> string \<Rightarrow>
   ('n, 'c, ('m, 'x) batch_source) worker \<times> ('n, 'c, 's) service \<Rightarrow>
   ('n, 'c, ('m, 'x) batch_source) worker \<times> ('n, 'c, 's) service"
where
  "worker_step pf qa i sql (Wk_created, st) =
     (if sv_active st then (Wk_done (Inl RequestUnavailable), st)
      else (Wk_entered, st\<lparr>sv_active := True\<rparr>))"
| "worker_step pf qa i sql (Wk_entered, st) =
     (case open_connection (pf_driver pf) (qa_connect qa) (qa_arguments qa)
             (st\<lparr>conn_logger := suppress_connector_logs (conn_logger st)\<rparr>) of
        (Inl x, st1) \<Rightarrow> (Wk_unlocking (Inl x), st1)
      | (Inr n, st1) \<Rightarrow> (Wk_connected n, st1))"
| "worker_step pf qa i sql (Wk_connected n, st) =
     (case open_cursor (pf_driver pf) n st of
        (Inl x, st1) \<Rightarrow> (Wk_closing_connection n (Inl x), st1)
      | (Inr c, st1) \<Rightarrow> (Wk_cursor n c, st1))"
| "worker_step pf qa i sql (Wk_cursor n c, st) =
     (case start_cursor pf i c st of
        (Inl x, st1) \<Rightarrow> (Wk_closing_cursor n c (Inl x), st1)
      | (Inr _, st1) \<Rightarrow> (Wk_started n c, st1))"
| "worker_step pf qa i sql (Wk_started n c, st) =
     (case execute_statement pf i sql c st of
        (Inl x, st1) \<Rightarrow> (Wk_releasing n c (Inl x), st1)
      | (Inr _, st1) \<Rightarrow> (Wk_executed n c, st1))"
| "worker_step pf qa i sql (Wk_executed n c, st) =
     (case fetch_step pf c st of (r, st1) \<Rightarrow> (Wk_releasing n c r, st1))"
| "worker_step pf qa i sql (Wk_releasing n c r, st) =
     (case give_back_cursor pf i c st of
        (r', st1) \<Rightarrow> (Wk_closing_cursor n c (finally_outcome r r'), st1))"
| "worker_step pf qa i sql (Wk_closing_cursor n c r, st) =
     (case close_cursor (pf_driver pf) c st of
        (r', st1) \<Rightarrow> (Wk_closing_connection n (finally_outcome r r'), st1))"
| "worker_step pf qa i sql (Wk_closing_connection n r, st) =
     (case close_connection (pf_driver pf) n st of
        (r', st1) \<Rightarrow> (Wk_unlocking (finally_outcome r r'), st1))"
| "worker_step pf qa i sql (Wk_unlocking r, st) =
     (case release_active st of (r', st1) \<Rightarrow> (Wk_done (finally_outcome r r'), st1))"
| "worker_step pf qa i sql (Wk_done r, st) = (Wk_done r, st)"

primrec worker_run ::
  "('n, 'c, 'm, 'x) platform \<Rightarrow> ('n, 'c) query_admission \<Rightarrow> string \<Rightarrow> string \<Rightarrow> nat \<Rightarrow>
   ('n, 'c, ('m, 'x) batch_source) worker \<times> ('n, 'c, 's) service \<Rightarrow>
   ('n, 'c, ('m, 'x) batch_source) worker \<times> ('n, 'c, 's) service"
where
  "worker_run pf qa i sql 0 w = w"
| "worker_run pf qa i sql (Suc k) w = worker_run pf qa i sql k (worker_step pf qa i sql w)"

end
