(* ===== verification/Snowflake_Steps.thy ===== *)
theory Snowflake_Steps
  imports Snowflake_Executor
begin

text \<open>
  The worker thread of \<open>Snowflake_Executor\<close> step by step: it ends after at most ten steps of its
  own, undisturbed it computes what the nested blocks of the source compute, and what one step
  does to the driver's log, to the lock and to the results it carries.
\<close>

section \<open>Steps and blocks agree\<close>

lemma worker_run_done [simp]: "worker_run pf qa i sql k (Wk_done r, st) = (Wk_done r, st)"
  by (induction k) simp_all

text \<open>From \<open>w\<close> the thread is done with the outcome \<open>out\<close> after \<open>k\<close> steps.\<close>

definition settles ::
  "('n, 'c, 'm, 'x) platform \<Rightarrow> ('n, 'c) query_admission \<Rightarrow> string \<Rightarrow> string \<Rightarrow> nat \<Rightarrow>
   ('n, 'c, ('m, 'x) batch_source) worker \<times> ('n, 'c, 's) service \<Rightarrow>
   ('m, 'x) batch_source result \<times> ('n, 'c, 's) service \<Rightarrow> bool"
where
  "settles pf qa i sql k w out \<longleftrightarrow>
     (\<forall>m. worker_run pf qa i sql (k + m) w = (Wk_done (fst out), snd out))"

lemma settles_done: "settles pf qa i sql 0 (Wk_done r, st) (r, st)"
  by (simp add: settles_def)

lemma settles_step:
  "worker_step pf qa i sql w = w' \<Longrightarrow> settles pf qa i sql k w' out \<Longrightarrow> settles pf qa i sql (Suc k) w out"
  by (simp add: settles_def)

lemma settles_later: "settles pf qa i sql k w out \<Longrightarrow> settles pf qa i sql (k + j) w out"
  by (simp add: settles_def add.assoc)

text \<open>One lemma per block still open, innermost last; each runs the thread to its end.\<close>

lemma settles_unlocking:
  "settles pf qa i sql 1 (Wk_unlocking r, st) (r, st\<lparr>sv_active := False\<rparr>)"
  by (simp add: settles_def release_active_def finally_outcome_def)

lemma settles_closing_connection:
  assumes "close_connection (pf_driver pf) n st = (r', st1)"
  shows "settles pf qa i sql 2 (Wk_closing_connection n r, st)
    (finally_outcome r r', st1\<lparr>sv_active := False\<rparr>)"
proof -
  have "worker_step pf qa i sql (Wk_closing_connection n r, st) = (Wk_unlocking (finally_outcome r r'), st1)"
    by (simp add: assms)
  from settles_step[OF this settles_unlocking] show ?thesis by (simp add: numeral_2_eq_2)
qed

lemma settles_closing_cursor:
  assumes "close_cursor (pf_driver pf) c st = (r1, st1)"
    and "close_connection (pf_driver pf) n st1 = (r2, st2)"
  shows "settles pf qa i sql 3 (Wk_closing_cursor n c r, st)
    (finally_outcome (finally_outcome r r1) r2, st2\<lparr>sv_active := False\<rparr>)"
proof -
  have "worker_step pf qa i sql (Wk_closing_cursor n c r, st) =
      (Wk_closing_connection n (finally_outcome r r1), st1)"
    by (simp add: assms(1))
  from settles_step[OF this settles_closing_connection[OF assms(2)]]
  show ?thesis by (simp add: numeral_3_eq_3 numeral_2_eq_2)
qed

lemma settles_releasing:
  assumes "give_back_cursor pf i c st = (r0, st0)"
    and "close_cursor (pf_driver pf) c st0 = (r1, st1)"
    and "close_connection (pf_driver pf) n st1 = (r2, st2)"
  shows "settles pf qa i sql 4 (Wk_releasing n c r, st)
    (finally_outcome (finally_outcome (finally_outcome r r0) r1) r2, st2\<lparr>sv_active := False\<rparr>)"
proof -
  have "worker_step pf qa i sql (Wk_releasing n c r, st) =
      (Wk_closing_cursor n c (finally_outcome r r0), st0)"
    by (simp add: assms(1))
  from settles_step[OF this settles_closing_cursor[OF assms(2,3)]]
  show ?thesis by (simp add: eval_nat_numeral)
qed

lemma settles_started:
  assumes "try_finally (run_query pf i sql c) (give_back_cursor pf i c) st = (r, st0)"
    and "close_cursor (pf_driver pf) c st0 = (r1, st1)"
    and "close_connection (pf_driver pf) n st1 = (r2, st2)"
  shows "settles pf qa i sql 6 (Wk_started n c, st)
    (finally_outcome (finally_outcome r r1) r2, st2\<lparr>sv_active := False\<rparr>)"
proof -
  obtain q stq where q: "run_query pf i sql c st = (q, stq)" by fastforce
  obtain r0 st0' where r0: "give_back_cursor pf i c stq = (r0, st0')" by fastforce
  with q assms(1) have eq: "r = finally_outcome q r0" "st0' = st0" by (auto simp: try_finally_def)
  have rel: "settles pf qa i sql 4 (Wk_releasing n c q, stq)
      (finally_outcome (finally_outcome r r1) r2, st2\<lparr>sv_active := False\<rparr>)"
    unfolding eq(1) by (rule settles_releasing[OF r0[unfolded eq(2)] assms(2,3)])
  obtain x ste where ex: "execute_statement pf i sql c st = (x, ste)" by fastforce
  show ?thesis
  proof (cases x)
    case (Inl y)
    with ex q have "worker_step pf qa i sql (Wk_started n c, st) = (Wk_releasing n c q, stq)"
      by (auto simp: run_query_def)
    from settles_later[OF settles_step[OF this rel], of 1] show ?thesis by simp
  next
    case (Inr u)
    with ex have 1: "worker_step pf qa i sql (Wk_started n c, st) = (Wk_executed n c, ste)" by simp
    have 2: "worker_step pf qa i sql (Wk_executed n c, ste) = (Wk_releasing n c q, stq)"
      using Inr ex q by (simp add: run_query_def)
    from settles_step[OF 1 settles_step[OF 2 rel]] show ?thesis by simp
  qed
qed

lemma settles_cursor:
  assumes "with_started_cursor pf i sql c st = (r, st0)"
    and "close_cursor (pf_driver pf) c st0 = (r1, st1)"
    and "close_connection (pf_driver pf) n st1 = (r2, st2)"
  shows "settles pf qa i sql 7 (Wk_cursor n c, st)
    (finally_outcome (finally_outcome r r1) r2, st2\<lparr>sv_active := False\<rparr>)"
proof -
  obtain x sts where s: "start_cursor pf i c st = (x, sts)" by fastforce
  show ?thesis
  proof (cases x)
    case (Inl y)
    with s assms(1) have "worker_step pf qa i sql (Wk_cursor n c, st) = (Wk_closing_cursor n c r, st0)"
      by (auto simp: with_started_cursor_def)
    from settles_later[OF settles_step[OF this settles_closing_cursor[OF assms(2,3)]], of 3]
    show ?thesis by simp
  next
    case (Inr u)
    with s have st: "worker_step pf qa i sql (Wk_cursor n c, st) = (Wk_started n c, sts)" by simp
    have "try_finally (run_query pf i sql c) (give_back_cursor pf i c) sts = (r, st0)"
      using assms(1) s Inr by (simp add: with_started_cursor_def)
    from settles_step[OF st settles_started[OF this assms(2,3)]] show ?thesis by simp
  qed
qed

lemma execute_request_settles:
  assumes "execute_request pf qa i sql st = (r, st')"
  shows "settles pf qa i sql 10 (Wk_created, st) (r, st')"
proof (cases "sv_active st")
  case True
  with assms have "worker_step pf qa i sql (Wk_created, st) = (Wk_done r, st')"
    by (auto simp: execute_request_def)
  from settles_later[OF settles_step[OF this settles_done], of 9] show ?thesis by simp
next
  case False
  define st0 where "st0 = st\<lparr>sv_active := True\<rparr>"
  have enter: "worker_step pf qa i sql (Wk_created, st) = (Wk_entered, st0)"
    using False by (simp add: st0_def)
  obtain q st1 where q: "request_cursor (pf_driver pf) (qa_connect qa) (qa_arguments qa)
      (with_started_cursor pf i sql) st0 = (q, st1)" by fastforce
  with assms False have out: "r = q" "st' = st1\<lparr>sv_active := False\<rparr>"
    by (auto simp: execute_request_def try_finally_def release_active_def finally_outcome_def st0_def)
  have "settles pf qa i sql 9 (Wk_entered, st0) (r, st')"
  proof -
    obtain m sta where conn: "open_connection (pf_driver pf) (qa_connect qa) (qa_arguments qa)
        (st0\<lparr>conn_logger := suppress_connector_logs (conn_logger st0)\<rparr>) = (m, sta)" by fastforce
    show ?thesis
    proof (cases m)
      case (Inl x)
      with conn q have "worker_step pf qa i sql (Wk_entered, st0) = (Wk_unlocking r, st1)"
        by (auto simp: request_cursor_def out)
      from settles_later[OF settles_step[OF this settles_unlocking], of 7] show ?thesis
        by (simp add: out)
    next
      case (Inr n)
      then have step1: "worker_step pf qa i sql (Wk_entered, st0) = (Wk_connected n, sta)"
        using conn by simp
      obtain k stb where cur: "open_cursor (pf_driver pf) n sta = (k, stb)" by fastforce
      have "settles pf qa i sql 8 (Wk_connected n, sta) (r, st')"
      proof (cases k)
        case (Inl x)
        obtain r2 st2 where cl: "close_connection (pf_driver pf) n stb = (r2, st2)" by fastforce
        from Inl cur have "worker_step pf qa i sql (Wk_connected n, sta) =
            (Wk_closing_connection n (Inl x), stb)" by simp
        from settles_later[OF settles_step[OF this settles_closing_connection[OF cl]], of 5]
        show ?thesis using q conn Inr cur Inl cl
          by (auto simp: out request_cursor_def try_finally_def)
      next
        case c: (Inr c)
        obtain b st2 where body: "with_started_cursor pf i sql c stb = (b, st2)" by fastforce
        obtain r1 st3 where cc: "close_cursor (pf_driver pf) c st2 = (r1, st3)" by fastforce
        obtain r2 st4 where cl: "close_connection (pf_driver pf) n st3 = (r2, st4)" by fastforce
        from c cur have "worker_step pf qa i sql (Wk_connected n, sta) = (Wk_cursor n c, stb)" by simp
        from settles_step[OF this settles_cursor[OF body cc cl]]
        show ?thesis using q conn Inr cur c body cc cl
          by (auto simp: out request_cursor_def try_finally_def)
      qed
      from settles_step[OF step1 this] show ?thesis by simp
    qed
  qed
  from settles_step[OF enter this] show ?thesis by simp
qed

section \<open>What a step does\<close>

text \<open>What a thread holds where it stands.\<close>

fun critical :: "('n, 'c, 'a) worker \<Rightarrow> bool" where
  "critical Wk_created \<longleftrightarrow> False"
| "critical (Wk_done r) \<longleftrightarrow> False"
| "critical wk \<longleftrightarrow> True"

fun held_connection :: "('n, 'c, 'a) worker \<Rightarrow> 'n option" where
  "held_connection (Wk_connected n) = Some n"
| "held_connection (Wk_cursor n c) = Some n"
| "held_connection (Wk_started n c) = Some n"
| "held_connection (Wk_executed n c) = Some n"
| "held_connection (Wk_releasing n c r) = Some n"
| "held_connection (Wk_closing_cursor n c r) = Some n"
| "held_connection (Wk_closing_connection n r) = Some n"
| "held_connection wk = None"

fun held_cursor :: "('n, 'c, 'a) worker \<Rightarrow> 'c option" where
  "held_cursor (Wk_cursor n c) = Some c"
| "held_cursor (Wk_started n c) = Some c"
| "held_cursor (Wk_executed n c) = Some c"
| "held_cursor (Wk_releasing n c r) = Some c"
| "held_cursor (Wk_closing_cursor n c r) = Some c"
| "held_cursor wk = None"

fun carried :: "('n, 'c, 'a) worker \<Rightarrow> 'a option" where
  "carried (Wk_releasing n c (Inr a)) = Some a"
| "carried (Wk_closing_cursor n c (Inr a)) = Some a"
| "carried (Wk_closing_connection n (Inr a)) = Some a"
| "carried (Wk_unlocking (Inr a)) = Some a"
| "carried (Wk_done (Inr a)) = Some a"
| "carried wk = None"

lemma critical_iff: "held_connection wk = Some n \<Longrightarrow> critical wk"
  by (cases wk) auto

lemma held_cursor_critical: "held_cursor wk = Some c \<Longrightarrow> critical wk"
  by (cases wk) auto

lemmas worker_calls =
  open_connection_def open_cursor_def close_cursor_def close_connection_def start_cursor_def
  give_back_cursor_def execute_statement_def print_line_def fetch_step_def release_active_def

text \<open>Every step of a thread is one of these, by where it stands.\<close>

lemma worker_step_balance:
  assumes "worker_step pf qa i sql (wk, st) = (wk', st')"
  shows "connection_balance n (conn_log st') - of_bool (held_connection wk' = Some n) =
      connection_balance n (conn_log st) - of_bool (held_connection wk = Some n)"
    and "cursor_balance c (conn_log st') - of_bool (held_cursor wk' = Some c) =
      cursor_balance c (conn_log st) - of_bool (held_cursor wk = Some c)"
  using assms
  by (cases wk; auto simp: worker_calls split: if_splits sum.splits prod.splits)+

lemma worker_step_lock:
  assumes "worker_step pf qa i sql (wk, st) = (wk', st')" and "critical wk \<Longrightarrow> sv_active st"
  shows "of_bool (sv_active st') - of_bool (critical wk') =
    of_bool (sv_active st) - (of_bool (critical wk) :: int)"
  using assms
  by (cases wk; auto simp: worker_calls note_call_def split: if_splits sum.splits prod.splits)

lemma worker_step_executed:
  assumes "worker_step pf qa i sql (wk, st) = (wk', st')" and "Executed c s t \<in> set (conn_log st')"
  shows "Executed c s t \<in> set (conn_log st) \<or> s = sql \<and> t = MVP_STATEMENT_TIMEOUT_SECONDS"
  using assms
  by (cases wk; auto simp: worker_calls split: if_splits sum.splits prod.splits)

lemma worker_step_logger:
  assumes "worker_step pf qa i sql (wk, st) = (wk', st')"
  shows "conn_logger st' = conn_logger st \<or> quiet_logger (conn_logger st')"
    and "Connected n \<in> set (conn_log st') \<Longrightarrow> Connected n \<in> set (conn_log st) \<or> quiet_logger (conn_logger st')"
  using assms
  by (cases wk; auto simp: worker_calls split: if_splits sum.splits prod.splits)+

lemma fetch_admitted:
  assumes "fetch_admitted_result pf calls c = Inr src"
  shows "admissible (pf_writer pf) (source_schema src) MVP_ARROW_LIMITS (source_batches src)"
  using assms admission_exact_iff[OF MVP_ARROW_LIMITS_built, of "pf_writer pf"]
  by (auto simp: fetch_admitted_result_def then_do_Inr_iff)

lemma worker_step_carried:
  assumes "worker_step pf qa i sql (wk, st) = (wk', st')" and "carried wk' = Some src"
  shows "carried wk = Some src \<or>
    admissible (pf_writer pf) (source_schema src) MVP_ARROW_LIMITS (source_batches src)"
proof (cases wk)
  case (Wk_executed n c)
  with assms have "fetch_admitted_result pf (conn_log st) c = Inr src"
    by (cases "fetch_admitted_result pf (conn_log st) c") (auto simp: fetch_step_def)
  then show ?thesis by (blast intro: fetch_admitted)
next
  case (Wk_releasing n c r)
  with assms show ?thesis
    by (cases r) (auto simp: worker_calls finally_outcome_def split: sum.splits prod.splits)
next
  case (Wk_closing_cursor n c r)
  with assms show ?thesis
    by (cases r) (auto simp: worker_calls finally_outcome_def split: sum.splits prod.splits)
next
  case (Wk_closing_connection n r)
  with assms show ?thesis
    by (cases r) (auto simp: worker_calls finally_outcome_def split: sum.splits prod.splits)
next
  case (Wk_unlocking r)
  with assms show ?thesis
    by (cases r) (auto simp: worker_calls finally_outcome_def split: sum.splits prod.splits)
qed (use assms in \<open>auto simp: worker_calls split: if_splits sum.splits prod.splits\<close>)

text \<open>A step changes the broker only by registering or releasing the cursor.\<close>

context call_relation begin

lemma worker_step_R:
  assumes "worker_step pf qa i sql (wk, st) = (wk', st')" and "pf_env pf = e"
    and "\<And>c. allowed (Register i c)" and "\<And>c. allowed (Release i c)"
  shows "R (sv_broker st) (sv_broker st')"
proof -
  have "sv_broker st' = sv_broker st \<or>
      (\<exists>c. sv_broker st' = snd (mark_started e i c (sv_broker st))) \<or>
      (\<exists>c. sv_broker st' = snd (release_started e i c (sv_broker st)))"
    using assms(1) unfolding assms(2)[symmetric]
    by (cases wk; auto simp: worker_calls note_call_def split: if_splits sum.splits prod.splits)
      (metis snd_conv)+
  then show ?thesis using assms(3,4) by (auto simp: R_refl mark_started_R release_started_R)
qed

end

lemma worker_step_sources:
  "worker_step pf qa i sql (wk, st) = (wk', st') \<Longrightarrow> sources_kept j (sv_broker st) (sv_broker st')"
  by (erule filling.worker_step_R) auto

text \<open>A bound on the steps left; it falls at every step, whatever happens in between.\<close>

fun worker_rank :: "('n, 'c, 'a) worker \<Rightarrow> nat" where
  "worker_rank Wk_created = 10"
| "worker_rank Wk_entered = 9"
| "worker_rank (Wk_connected n) = 8"
| "worker_rank (Wk_cursor n c) = 7"
| "worker_rank (Wk_started n c) = 6"
| "worker_rank (Wk_executed n c) = 5"
| "worker_rank (Wk_releasing n c r) = 4"
| "worker_rank (Wk_closing_cursor n c r) = 3"
| "worker_rank (Wk_closing_connection n r) = 2"
| "worker_rank (Wk_unlocking r) = 1"
| "worker_rank (Wk_done r) = 0"

lemma worker_step_rank:
  assumes "worker_step pf qa i sql (wk, st) = (wk', st')" and "0 < worker_rank wk"
  shows "worker_rank wk' < worker_rank wk"
  using assms
  by (cases wk; auto simp: worker_calls split: if_splits sum.splits prod.splits)

end
