(* ===== verification/Snowflake_System.thy ===== *)
theory Snowflake_System
  imports Snowflake_Steps Executor_Props
begin

text \<open>
  The configured service as a concurrent system: the one broker, the background executor with the
  task of every accepted request, and the worker thread \<open>asyncio.to_thread\<close> runs for each.  An
  action is a submission, the executor's shutdown, any other call of the broker, the resumption
  of a task, or one step of a thread, in any order; so a thread goes on after its task was
  cancelled, as it does in Python.
\<close>

section \<open>State and actions\<close>

record ('n, 'c, 's) job =
  job_id :: string
  job_sql :: string
  job_run :: "'s run_phase"
  job_worker :: "('n, 'c, 's) worker option"

record ('n, 'c, 's) system =
  sy_service :: "('n, 'c, 's) service"
  sy_executor :: "string executor"
  sy_jobs :: "('n, 'c, 's) job list"

datatype ('c, 's) action =
    Act_submit string timedelta "unit result"
  | Act_close
  | Act_call "('s, 'c) broker_call"
  | Act_resume nat "'s run_event"
  | Act_start nat
  | Act_step nat

definition new_job :: "request_view \<times> string \<Rightarrow> ('n, 'c, 's) job" where
  "new_job task =
     \<lparr>job_id = view_id (fst task), job_sql = snd task, job_run = Run_created, job_worker = None\<rparr>"

text \<open>
  What the event loop can resume a task with.  \<open>asyncio.wait\<close> returns because the deadline has
  passed or the work task is done; and the work task ends with what the thread returned or raised,
  or, where no thread was ever started for it, with an exception.
\<close>

fun work_over :: "('n, 'c, 's) worker option \<Rightarrow> bool" where
  "work_over None \<longleftrightarrow> True"
| "work_over (Some (Wk_done r)) \<longleftrightarrow> True"
| "work_over (Some wk) \<longleftrightarrow> False"

definition event_possible :: "'s run_event \<Rightarrow> ('n, 'c, 's) job \<Rightarrow> bool" where
  "event_possible ev j =
     (case ev of
        Woken expired finished \<Rightarrow> (expired \<or> finished) \<and> (finished \<longrightarrow> work_over (job_worker j))
      | Work_ended r \<Rightarrow> job_worker j = Some (Wk_done r) \<or> job_worker j = None \<and> \<not> is_ok r
      | _ \<Rightarrow> True)"

text \<open>The work coroutine is created by the first step of the task and may outlive it.\<close>

definition worker_may_start :: "('n, 'c, 's) job \<Rightarrow> bool" where
  "worker_may_start j \<longleftrightarrow>
     job_worker j = None \<and> job_run j \<noteq> Run_created \<and> job_run j \<noteq> Run_abandoned"

text \<open>Only the executor submits to the broker and publishes.\<close>

fun executor_only :: "('s, 'c) broker_call \<Rightarrow> bool" where
  "executor_only (Submit ttl) \<longleftrightarrow> True"
| "executor_only (Publish i s) \<longleftrightarrow> True"
| "executor_only q \<longleftrightarrow> False"

definition sy_broker :: "('n, 'c, 's) system \<Rightarrow> ('s, 'c) broker" where
  "sy_broker y = sv_broker (sy_service y)"

definition with_broker :: "('s, 'c) broker \<Rightarrow> ('n, 'c, 's) system \<Rightarrow> ('n, 'c, 's) system" where
  "with_broker b y = y\<lparr>sy_service := (sy_service y)\<lparr>sv_broker := b\<rparr>\<rparr>"

definition set_job ::
  "nat \<Rightarrow> ('n, 'c, 's) job \<Rightarrow> ('n, 'c, 's) system \<Rightarrow> ('n, 'c, 's) system" where
  "set_job k j y = y\<lparr>sy_jobs := (sy_jobs y)[k := j]\<rparr>"

section \<open>Actions\<close>

text \<open>\<open>None\<close> when the action is not possible.\<close>

fun system_exec ::
  "'q sqlglot \<Rightarrow> ('n, 'c, 'm, 'x) platform \<Rightarrow> ('n, 'c) query_admission \<Rightarrow>
   ('c, ('m, 'x) batch_source) action \<Rightarrow> ('n, 'c, ('m, 'x) batch_source) system \<Rightarrow>
   ('n, 'c, ('m, 'x) batch_source) system option"
where
  "system_exec g pf qa (Act_submit sql ttl spawn) y =
     (case executor_submit (pf_env pf) (admission_call g qa) spawn sql ttl (sy_executor y) (sy_broker y) of
        None \<Rightarrow> None
      | Some (res, x', b') \<Rightarrow>
          Some (with_broker b' y
            \<lparr>sy_executor := x',
             sy_jobs := sy_jobs y @
               map new_job (drop (length (exec_tasks (sy_executor y))) (exec_tasks x'))\<rparr>))"
| "system_exec g pf qa Act_close y =
     (case executor_close (pf_env pf) (sy_executor y) (sy_broker y) of
        (res, x', b') \<Rightarrow> Some (with_broker b' y\<lparr>sy_executor := x'\<rparr>))"
| "system_exec g pf qa (Act_call q) y =
     (if executor_only q then None
      else map_option (\<lambda>b'. with_broker b' y) (broker_exec (pf_env pf) q (sy_broker y)))"
| "system_exec g pf qa (Act_resume k ev) y =
     (if k < length (sy_jobs y) \<and> event_possible ev (sy_jobs y ! k) then
        (let j = sy_jobs y ! k in
         case run_step (pf_env pf) (job_id j) ev (job_run j, sy_broker y) of
           None \<Rightarrow> None
         | Some (ph, b') \<Rightarrow> Some (set_job k (j\<lparr>job_run := ph\<rparr>) (with_broker b' y)))
      else None)"
| "system_exec g pf qa (Act_start k) y =
     (if k < length (sy_jobs y) \<and> worker_may_start (sy_jobs y ! k)
      then Some (set_job k ((sy_jobs y ! k)\<lparr>job_worker := Some Wk_created\<rparr>) y)
      else None)"
| "system_exec g pf qa (Act_step k) y =
     (if k < length (sy_jobs y) then
        (let j = sy_jobs y ! k in
         case job_worker j of
           None \<Rightarrow> None
         | Some wk \<Rightarrow>
             (case worker_step pf qa (job_id j) (job_sql j) (wk, sy_service y) of
                (wk', sv) \<Rightarrow>
                  Some (set_job k (j\<lparr>job_worker := Some wk'\<rparr>) (y\<lparr>sy_service := sv\<rparr>))))
      else None)"

primrec system_run ::
  "'q sqlglot \<Rightarrow> ('n, 'c, 'm, 'x) platform \<Rightarrow> ('n, 'c) query_admission \<Rightarrow>
   ('c, ('m, 'x) batch_source) action list \<Rightarrow> ('n, 'c, ('m, 'x) batch_source) system \<Rightarrow>
   ('n, 'c, ('m, 'x) batch_source) system option"
where
  "system_run g pf qa [] y = Some y"
| "system_run g pf qa (a # as) y =
     (case system_exec g pf qa a y of None \<Rightarrow> None | Some y' \<Rightarrow> system_run g pf qa as y')"

definition system_step ::
  "'q sqlglot \<Rightarrow> ('n, 'c, 'm, 'x) platform \<Rightarrow> ('n, 'c) query_admission \<Rightarrow>
   ('n, 'c, ('m, 'x) batch_source) system \<Rightarrow> ('n, 'c, ('m, 'x) batch_source) system \<Rightarrow> bool"
where
  "system_step g pf qa y y' \<longleftrightarrow> (\<exists>a. system_exec g pf qa a y = Some y')"

text \<open>A fresh process: an empty broker, an open executor, nothing connected.\<close>

definition system_initial :: "('n, 'c, 's) system \<Rightarrow> bool" where
  "system_initial y \<longleftrightarrow>
     broker_initial (sy_broker y) \<and> sy_executor y = executor_init \<and> sy_jobs y = [] \<and>
     conn_log (sy_service y) = [] \<and> \<not> sv_active (sy_service y)"

lemma system_frame [simp]:
  "sy_jobs (with_broker b y) = sy_jobs y" "sy_executor (with_broker b y) = sy_executor y"
  "sy_broker (with_broker b y) = b"
  "conn_log (sy_service (with_broker b y)) = conn_log (sy_service y)"
  "conn_logger (sy_service (with_broker b y)) = conn_logger (sy_service y)"
  "sv_active (sy_service (with_broker b y)) = sv_active (sy_service y)"
  "sy_jobs (set_job k j y) = (sy_jobs y)[k := j]" "sy_service (set_job k j y) = sy_service y"
  "sy_broker (set_job k j y) = sy_broker y" "sy_executor (set_job k j y) = sy_executor y"
  "sy_broker (y\<lparr>sy_executor := x\<rparr>) = sy_broker y" "sy_broker (y\<lparr>sy_jobs := js\<rparr>) = sy_broker y"
  by (simp_all add: with_broker_def set_job_def sy_broker_def)

lemma system_run_steps: "system_run g pf qa as y = Some y' \<Longrightarrow> (system_step g pf qa)\<^sup>*\<^sup>* y y'"
proof (induction as arbitrary: y)
  case Nil
  then show ?case by simp
next
  case (Cons a as)
  then obtain y1 where "system_exec g pf qa a y = Some y1" "system_run g pf qa as y1 = Some y'"
    by (auto split: option.splits)
  then show ?case using Cons.IH by (auto simp: system_step_def intro: converse_rtranclp_into_rtranclp)
qed

text \<open>An action, seen as what it leaves of the jobs, of the broker and of the driver.\<close>

lemma system_step_cases [consumes 1, case_names submitted closed called resumed started stepped]:
  assumes "system_step g pf qa y y'"
  obtains
    spawn sql ttl res x' b' where
      "executor_submit (pf_env pf) (admission_call g qa) spawn sql ttl (sy_executor y) (sy_broker y) =
         Some (res, x', b')"
      "y' = with_broker b' y\<lparr>sy_executor := x', sy_jobs := sy_jobs y @
         map new_job (drop (length (exec_tasks (sy_executor y))) (exec_tasks x'))\<rparr>"
  | res x' b' where
      "executor_close (pf_env pf) (sy_executor y) (sy_broker y) = (res, x', b')"
      "y' = with_broker b' y\<lparr>sy_executor := x'\<rparr>"
  | q b' where
      "\<not> executor_only q" "broker_exec (pf_env pf) q (sy_broker y) = Some b'" "y' = with_broker b' y"
  | k j ev ph b' where
      "k < length (sy_jobs y)" "sy_jobs y ! k = j" "event_possible ev j"
      "run_step (pf_env pf) (job_id j) ev (job_run j, sy_broker y) = Some (ph, b')"
      "y' = set_job k (j\<lparr>job_run := ph\<rparr>) (with_broker b' y)"
  | k j where
      "k < length (sy_jobs y)" "sy_jobs y ! k = j" "job_worker j = None"
      "y' = set_job k (j\<lparr>job_worker := Some Wk_created\<rparr>) y"
  | k j wk wk' sv where
      "k < length (sy_jobs y)" "sy_jobs y ! k = j" "job_worker j = Some wk"
      "worker_step pf qa (job_id j) (job_sql j) (wk, sy_service y) = (wk', sv)"
      "y' = set_job k (j\<lparr>job_worker := Some wk'\<rparr>) (y\<lparr>sy_service := sv\<rparr>)"
proof -
  from assms obtain a where a: "system_exec g pf qa a y = Some y'" by (auto simp: system_step_def)
  show ?thesis
  proof (cases a)
    case (Act_submit sql ttl spawn)
    with a that(1) show ?thesis by (auto split: option.splits prod.splits)
  next
    case Act_close
    with a that(2) show ?thesis by (auto split: prod.splits)
  next
    case (Act_call q)
    with a that(3)[of q] show ?thesis by (auto split: if_splits)
  next
    case (Act_resume k ev)
    with a that(4)[of k "sy_jobs y ! k" ev] show ?thesis
      by (auto simp: Let_def split: if_splits option.splits prod.splits)
  next
    case (Act_start k)
    with a that(5)[of k "sy_jobs y ! k"] show ?thesis
      by (auto simp: worker_may_start_def split: if_splits)
  next
    case (Act_step k)
    with a that(6)[of k "sy_jobs y ! k"] show ?thesis
      by (auto simp: Let_def split: if_splits option.splits prod.splits)
  qed
qed

text \<open>Whatever the action, the broker changes by its own calls only.\<close>

lemma system_step_calls:
  assumes "system_step g pf qa y y'"
  shows "(broker_step (pf_env pf))\<^sup>*\<^sup>* (sy_broker y) (sy_broker y')"
  using assms
proof (cases rule: system_step_cases)
  case (submitted spawn sql ttl res x' b')
  with calling.executor_submit_R[OF submitted(1)] show ?thesis by simp
next
  case (closed res x' b')
  with calling.executor_close_R[OF closed(1)] show ?thesis by simp
next
  case (called q b')
  with calling.R_exec[OF called(2)] show ?thesis by simp
next
  case (resumed k j ev ph b')
  with calling.run_step_R[OF resumed(4)] show ?thesis by simp
next
  case (stepped k j wk wk' sv)
  with calling.worker_step_R[OF stepped(4) refl] show ?thesis by (simp add: sy_broker_def)
qed simp

text \<open>A job keeps its request and its statement, and jobs are never removed.\<close>

lemma system_step_jobs:
  assumes "system_step g pf qa y y'" and "k < length (sy_jobs y)"
  shows "k < length (sy_jobs y') \<and> job_id (sy_jobs y' ! k) = job_id (sy_jobs y ! k) \<and>
    job_sql (sy_jobs y' ! k) = job_sql (sy_jobs y ! k)"
  using assms(1)
proof (cases rule: system_step_cases)
  case (stepped m j wk wk' sv)
  with assms(2) show ?thesis by (cases "m = k") auto
next
  case (started m j)
  with assms(2) show ?thesis by (cases "m = k") auto
next
  case (resumed m j ev ph b')
  with assms(2) show ?thesis by (cases "m = k") auto
qed (use assms(2) in \<open>simp_all add: nth_append\<close>)

end
