(* ===== verification/Snowflake_Inv.thy ===== *)
theory Snowflake_Inv
  imports Snowflake_System
begin

text \<open>
  Invariants of the configured service, each an interpretation of the invariant locale on its
  step relation: what the lock protects, where published sources come from, and what reaches
  the driver; then the properties that rest on them.
\<close>

section \<open>What a submission adds\<close>

lemma schedule_tasks:
  "schedule e spawn g w v x b = (res, x', b') \<Longrightarrow>
   exec_tasks x' = exec_tasks x \<or> exec_tasks x' = exec_tasks x @ [(v, w)]"
  by (auto simp: schedule_def split: sum.splits if_splits prod.splits)

lemma executor_submit_tasks:
  assumes "executor_submit e adm spawn sql ttl x b = Some (res, x', b')"
  obtains "exec_tasks x' = exec_tasks x"
  | v governed work where "adm sql = Inr (governed, work)" "exec_tasks x' = exec_tasks x @ [(v, work)]"
proof (cases "\<exists>g w. adm sql = Inr (g, w) \<and> (\<exists>v b1. schedule e spawn g w v x b1 = (res, x', b'))")
  case True
  then show ?thesis using that by (auto dest!: schedule_tasks)
next
  case False
  with assms have "x' = x"
    by (auto simp: executor_submit_def split: if_splits sum.splits option.splits prod.splits)
  with that(1) show ?thesis by simp
qed

section \<open>The lock\<close>

definition job_critical :: "('n, 'c, 's) job \<Rightarrow> bool" where
  "job_critical j = (case job_worker j of None \<Rightarrow> False | Some wk \<Rightarrow> critical wk)"

definition job_connection :: "('n, 'c, 's) job \<Rightarrow> 'n option" where
  "job_connection j = (case job_worker j of None \<Rightarrow> None | Some wk \<Rightarrow> held_connection wk)"

definition job_cursor :: "('n, 'c, 's) job \<Rightarrow> 'c option" where
  "job_cursor j = (case job_worker j of None \<Rightarrow> None | Some wk \<Rightarrow> held_cursor wk)"

lemma job_worker_simps [simp]:
  "job_worker (new_job t) = None"
  "job_critical (new_job t) = False" "job_connection (new_job t) = None" "job_cursor (new_job t) = None"
  "job_critical (j\<lparr>job_run := ph\<rparr>) = job_critical j"
  "job_connection (j\<lparr>job_run := ph\<rparr>) = job_connection j"
  "job_cursor (j\<lparr>job_run := ph\<rparr>) = job_cursor j"
  "job_critical (j\<lparr>job_worker := Some wk\<rparr>) = critical wk"
  "job_connection (j\<lparr>job_worker := Some wk\<rparr>) = held_connection wk"
  "job_cursor (j\<lparr>job_worker := Some wk\<rparr>) = held_cursor wk"
  "job_worker j = Some wk \<Longrightarrow> job_critical j = critical wk"
  "job_worker j = Some wk \<Longrightarrow> job_connection j = held_connection wk"
  "job_worker j = Some wk \<Longrightarrow> job_cursor j = held_cursor wk"
  "job_worker j = None \<Longrightarrow> job_critical j = False"
  "job_worker j = None \<Longrightarrow> job_connection j = None"
  "job_worker j = None \<Longrightarrow> job_cursor j = None"
  by (simp_all add: job_critical_def job_connection_def job_cursor_def new_job_def)

definition tally :: "('a \<Rightarrow> bool) \<Rightarrow> 'a list \<Rightarrow> int" where
  "tally P xs = int (length (filter P xs))"

lemma tally_append [simp]: "tally P (xs @ ys) = tally P xs + tally P ys"
  by (simp add: tally_def)

lemma tally_none: "(\<And>x. x \<in> set xs \<Longrightarrow> \<not> P x) \<Longrightarrow> tally P xs = 0"
  by (simp add: tally_def)

lemma tally_update:
  assumes "k < length xs"
  shows "tally P (xs[k := x]) = tally P xs + of_bool (P x) - of_bool (P (xs ! k))"
  using assms
proof (induction xs arbitrary: k)
  case (Cons y ys)
  then show ?case by (cases k) (auto simp: tally_def)
qed simp

definition lock_inv :: "('n, 'c, 's) system \<Rightarrow> bool" where
  "lock_inv y \<longleftrightarrow>
     tally job_critical (sy_jobs y) = of_bool (sv_active (sy_service y)) \<and>
     (\<forall>n. connection_balance n (conn_log (sy_service y)) =
            tally (\<lambda>j. job_connection j = Some n) (sy_jobs y)) \<and>
     (\<forall>c. cursor_balance c (conn_log (sy_service y)) =
            tally (\<lambda>j. job_cursor j = Some c) (sy_jobs y))"

lemma lock_inv_step:
  assumes "lock_inv y" and "system_step g pf qa y y'"
  shows "lock_inv y'"
  using assms(2)
proof (cases rule: system_step_cases)
  case (submitted spawn sql ttl res x' b')
  with assms(1) show ?thesis by (auto simp: lock_inv_def intro!: tally_none)
next
  case (closed res x' b')
  with assms(1) show ?thesis by (simp add: lock_inv_def)
next
  case (called q b')
  with assms(1) show ?thesis by (simp add: lock_inv_def)
next
  case (resumed k j ev ph b')
  with assms(1) show ?thesis by (simp add: lock_inv_def tally_update)
next
  case (started k j)
  with assms(1) show ?thesis by (simp add: lock_inv_def tally_update)
next
  case (stepped k j wk wk' sv)
  have active: "sv_active (sy_service y)" if "critical wk"
  proof -
    have "j \<in> set (sy_jobs y)" "job_critical j" using that stepped(1-3) by auto
    then have "0 < tally job_critical (sy_jobs y)" by (auto simp: tally_def filter_empty_conv)
    with assms(1) show ?thesis by (cases "sv_active (sy_service y)") (simp_all add: lock_inv_def)
  qed
  have "connection_balance n (conn_log sv) = tally (\<lambda>j. job_connection j = Some n) (sy_jobs y') \<and>
      cursor_balance c (conn_log sv) = tally (\<lambda>j. job_cursor j = Some c) (sy_jobs y')" for n c
    using worker_step_balance(1)[OF stepped(4), of n]
      worker_step_balance(2)[OF stepped(4), of c] assms(1) stepped(1-3,5)
    by (simp add: lock_inv_def tally_update)
  moreover have "tally job_critical (sy_jobs y') = of_bool (sv_active sv)"
    using worker_step_lock[OF stepped(4) active] assms(1) stepped(1-3,5)
    by (simp add: lock_inv_def tally_update)
  ultimately show ?thesis by (simp add: lock_inv_def stepped(5))
qed

lemma lock_inv_initial: "system_initial y \<Longrightarrow> lock_inv y"
  by (simp add: system_initial_def lock_inv_def tally_def)

interpretation locked: invariant system_initial "system_step g pf qa" lock_inv for g pf qa
  by unfold_locales (auto intro: lock_inv_initial lock_inv_step)

section \<open>Where sources come from\<close>

definition job_good ::
  "'q sqlglot \<Rightarrow> ('n, 'c, 'm, 'x) platform \<Rightarrow> ('n, 'c) query_admission \<Rightarrow>
   ('n, 'c, ('m, 'x) batch_source) job \<Rightarrow> bool"
where
  "job_good g pf qa j \<longleftrightarrow>
     (\<exists>sql. authorize g (qa_policy qa) sql = Inr (job_sql j)) \<and>
     (\<forall>wk s. job_worker j = Some wk \<longrightarrow> carried wk = Some s \<longrightarrow>
        admissible (pf_writer pf) (source_schema s) MVP_ARROW_LIMITS (source_batches s)) \<and>
     (\<forall>s. job_run j = Run_settling s \<longrightarrow> job_worker j = Some (Wk_done (Inr s)))"

definition returned :: "('n, 'c, 's) job list \<Rightarrow> string \<Rightarrow> 's \<Rightarrow> bool" where
  "returned js i s \<longleftrightarrow> (\<exists>j \<in> set js. job_id j = i \<and> job_worker j = Some (Wk_done (Inr s)))"

definition source_inv ::
  "'q sqlglot \<Rightarrow> ('n, 'c, 'm, 'x) platform \<Rightarrow> ('n, 'c) query_admission \<Rightarrow>
   ('n, 'c, ('m, 'x) batch_source) system \<Rightarrow> bool"
where
  "source_inv g pf qa y \<longleftrightarrow>
     (\<forall>j \<in> set (sy_jobs y). job_good g pf qa j) \<and>
     (\<forall>i r s. map_of (records (sy_broker y)) i = Some r \<longrightarrow> rec_source r = Some s \<longrightarrow>
        returned (sy_jobs y) i s)"

lemma broker_initial_records: "broker_initial b \<Longrightarrow> records b = []"
  by (auto simp: broker_initial_def broker_init_def split: if_splits)

lemma source_inv_initial: "system_initial y \<Longrightarrow> source_inv g pf qa y"
  by (simp add: system_initial_def source_inv_def broker_initial_records)

text \<open>A finished thread stays finished, so what was returned stays returned.\<close>

lemma returned_update:
  assumes "returned js i s" and "k < length js"
    and "job_id j = job_id (js ! k)"
    and "\<And>s. job_worker (js ! k) = Some (Wk_done (Inr s)) \<Longrightarrow> job_worker j = Some (Wk_done (Inr s))"
  shows "returned (js[k := j]) i s"
proof -
  obtain m where m: "m < length js" "job_id (js ! m) = i" "job_worker (js ! m) = Some (Wk_done (Inr s))"
    using assms(1) by (auto simp: returned_def in_set_conv_nth)
  show ?thesis
  proof (cases "m = k")
    case True
    with m assms show ?thesis by (auto simp: returned_def set_update_memI)
  next
    case False
    with m have "js ! m \<in> set (js[k := j])"
      by (metis length_list_update nth_list_update_neq nth_mem)
    with m show ?thesis by (auto simp: returned_def)
  qed
qed

lemma kept_sources_returned:
  assumes "\<And>i. sources_kept i (sy_broker y) b'" and "source_inv g pf qa y"
    and "\<And>i s. returned (sy_jobs y) i s \<Longrightarrow> returned js i s"
    and "map_of (records b') i = Some r" and "rec_source r = Some s"
  shows "returned js i s"
proof -
  obtain r0 where "map_of (records (sy_broker y)) i = Some r0" "rec_source r0 = Some s"
    using assms(1)[of i] assms(4,5) unfolding sources_kept_def by blast
  with assms(2,3) show ?thesis by (simp add: source_inv_def)
qed

lemma run_step_sources:
  assumes "run_step e i ev (ph, b) = Some (ph', b')"
    and "map_of (records b') k = Some r" and "rec_source r = Some s"
  shows "(\<exists>r0. map_of (records b) k = Some r0 \<and> rec_source r0 = Some s) \<or>
    (k = i \<and> ph = Run_settling s)"
proof -
  have "filled_from {s. k = i \<and> ph = Run_settling s} k b b'"
    by (rule filling.run_step_R[OF assms(1)]) auto
  with assms(2,3) show ?thesis unfolding filled_from_def by blast
qed

lemma source_inv_step:
  assumes inv: "source_inv g pf qa y" and "system_step g pf qa y y'"
  shows "source_inv g pf qa y'"
  using assms(2)
proof (cases rule: system_step_cases)
  case (submitted spawn sql ttl res x' b')
  have new: "job_good g pf qa j"
    if "j \<in> set (map new_job (drop (length (exec_tasks (sy_executor y))) (exec_tasks x')))" for j
    using submitted(1)
  proof (cases rule: executor_submit_tasks)
    case 1
    with that show ?thesis by simp
  next
    case (2 v governed work)
    with that show ?thesis
      by (auto simp: job_good_def new_job_def admission_call_def then_do_Inr_iff)
  qed
  have "returned (sy_jobs y) i s \<Longrightarrow> returned (sy_jobs y') i s" for i s
    by (auto simp: returned_def submitted(2))
  note kept = kept_sources_returned[OF filling.executor_submit_R[OF submitted(1), where S = "{}", simplified] inv this]
  show ?thesis
    unfolding source_inv_def
  proof (intro conjI ballI allI impI)
    fix j assume "j \<in> set (sy_jobs y')"
    with inv new show "job_good g pf qa j" by (auto simp: submitted(2) source_inv_def)
  qed (use kept in \<open>auto simp: submitted(2)\<close>)
next
  case (closed res x' b')
  with inv kept_sources_returned[OF filling.executor_close_R[OF closed(1), where S = "{}", simplified] inv]
  show ?thesis by (auto simp: source_inv_def)
next
  case (called q b')
  have "sources_kept i (sy_broker y) b'" for i
    by (rule broker_exec_sources[OF called(2)]) (use called(1) in auto)
  from called inv kept_sources_returned[OF this inv] show ?thesis by (auto simp: source_inv_def)
next
  case (resumed k j ev ph b')
  then have good: "job_good g pf qa j" using inv by (auto simp: source_inv_def)
  have ret: "returned (sy_jobs y) i s \<Longrightarrow> returned (sy_jobs y') i s" for i s
    using resumed(1,2) by (auto simp: resumed(5) intro: returned_update)
  have "job_good g pf qa (j\<lparr>job_run := ph\<rparr>)"
    using good run_step_settling resumed(3,4)
    by (fastforce simp: job_good_def event_possible_def)
  moreover have "returned (sy_jobs y') i s"
    if "map_of (records b') i = Some r" "rec_source r = Some s" for i r s
  proof -
    from run_step_sources[OF resumed(4) that] consider
      r0 where "map_of (records (sy_broker y)) i = Some r0" "rec_source r0 = Some s"
      | "i = job_id j" "job_run j = Run_settling s" by blast
    then have "returned (sy_jobs y) i s"
    proof cases
      case 1
      with inv show ?thesis by (simp add: source_inv_def)
    next
      case 2
      with good have "job_worker j = Some (Wk_done (Inr s))" by (simp add: job_good_def)
      with 2 resumed(1,2) show ?thesis by (auto simp: returned_def)
    qed
    then show ?thesis by (rule ret)
  qed
  ultimately show ?thesis using inv resumed(1,5)
    by (auto simp: source_inv_def dest!: set_update_subset_insert[THEN subsetD])
next
  case (started k j)
  then have good: "job_good g pf qa j" using inv by (auto simp: source_inv_def)
  have ret: "returned (sy_jobs y) i s \<Longrightarrow> returned (sy_jobs y') i s" for i s
    using started(1-3) by (auto simp: started(4) intro: returned_update)
  have "job_good g pf qa (j\<lparr>job_worker := Some Wk_created\<rparr>)"
    using good started(3) by (auto simp: job_good_def)
  with inv ret started(1,4) show ?thesis
    by (auto simp: source_inv_def dest!: set_update_subset_insert[THEN subsetD])
next
  case (stepped k j wk wk' sv)
  then have good: "job_good g pf qa j" using inv by (auto simp: source_inv_def)
  have stay: "wk' = Wk_done (Inr s)" if "wk = Wk_done (Inr s)" for s
    using stepped(4) that by simp
  have ret: "returned (sy_jobs y) i s \<Longrightarrow> returned (sy_jobs y') i s" for i s
    using stepped(1-3) stay by (auto simp: stepped(5) intro!: returned_update)
  have "job_good g pf qa (j\<lparr>job_worker := Some wk'\<rparr>)"
    using good stepped(3) stay worker_step_carried[OF stepped(4)] by (auto simp: job_good_def)
  moreover have "\<And>i. sources_kept i (sy_broker y) (sy_broker y')"
    using worker_step_sources[OF stepped(4)] by (simp add: stepped(5) sy_broker_def)
  note kept_sources_returned[OF this inv ret]
  ultimately show ?thesis using inv stepped(1)
    by (auto simp: source_inv_def stepped(5) dest!: set_update_subset_insert[THEN subsetD])
qed

interpretation sourced: invariant system_initial "system_step g pf qa" "source_inv g pf qa" for g pf qa
  by unfold_locales (auto intro: source_inv_initial source_inv_step)

section \<open>What reaches the driver\<close>

definition driver_inv :: "('n, 'c, 's) system \<Rightarrow> bool" where
  "driver_inv y \<longleftrightarrow>
     (\<forall>c s t. Executed c s t \<in> set (conn_log (sy_service y)) \<longrightarrow>
        t = MVP_STATEMENT_TIMEOUT_SECONDS \<and> s \<in> job_sql ` set (sy_jobs y)) \<and>
     (\<forall>n. Connected n \<in> set (conn_log (sy_service y)) \<longrightarrow> quiet_logger (conn_logger (sy_service y)))"

lemma driver_inv_step:
  assumes "driver_inv y" and "system_step g pf qa y y'"
  shows "driver_inv y'"
  using assms(2)
proof (cases rule: system_step_cases)
  case (submitted spawn sql ttl res x' b')
  with assms(1) show ?thesis by (auto simp: driver_inv_def image_Un)
next
  case (closed res x' b')
  with assms(1) show ?thesis by (simp add: driver_inv_def)
next
  case (called q b')
  with assms(1) show ?thesis by (simp add: driver_inv_def)
next
  case (resumed k j ev ph b')
  then have "map job_sql (sy_jobs y') = map job_sql (sy_jobs y)"
    by (simp add: map_update list_update_same_conv)
  then have "job_sql ` set (sy_jobs y') = job_sql ` set (sy_jobs y)" by (metis set_map)
  with assms(1) resumed(5) show ?thesis by (simp add: driver_inv_def)
next
  case (started k j)
  then have "map job_sql (sy_jobs y') = map job_sql (sy_jobs y)"
    by (simp add: map_update list_update_same_conv)
  then have "job_sql ` set (sy_jobs y') = job_sql ` set (sy_jobs y)" by (metis set_map)
  with assms(1) started(4) show ?thesis by (simp add: driver_inv_def)
next
  case (stepped k j wk wk' sv)
  then have "map job_sql (sy_jobs y') = map job_sql (sy_jobs y)"
    by (simp add: map_update list_update_same_conv)
  then have same: "job_sql ` set (sy_jobs y') = job_sql ` set (sy_jobs y)" by (metis set_map)
  have "job_sql j \<in> job_sql ` set (sy_jobs y)" using stepped(1,2) by auto
  with assms(1) same stepped(5) worker_step_executed[OF stepped(4)] worker_step_logger[OF stepped(4)]
  show ?thesis by (fastforce simp: driver_inv_def)
qed

lemma driver_inv_initial: "system_initial y \<Longrightarrow> driver_inv y"
  by (simp add: system_initial_def driver_inv_def)

interpretation driven: invariant system_initial "system_step g pf qa" driver_inv for g pf qa
  by unfold_locales (auto intro: driver_inv_initial driver_inv_step)

end
