(* ===== verification/Snowflake_Props.thy ===== *)
theory Snowflake_Props
  imports Snowflake_Inv
begin

text \<open>
  The properties of configured execution: the worker thread computes what \<open>_execute\<close> is written
  to compute and always ends, one connection is open at a time and is closed again, only governed
  SQL reaches the driver, and a viewer is served only admitted results of governed SQL.
\<close>

section \<open>The worker\<close>

text \<open>
  The worker thread, run without interruption, does exactly what the nested blocks
  of \<open>_execute\<close> do: after ten steps it is done, with the same outcome, driver calls, lock, broker
  and output, on every path, exceptions of the cleanups included.
\<close>

lemma worker_runs_the_blocks:
  "worker_run pf qa i sql (10 + m) (Wk_created, st) =
   (case execute_request pf qa i sql st of (r, st') \<Rightarrow> (Wk_done r, st'))"
proof -
  obtain r st' where ex: "execute_request pf qa i sql st = (r, st')" by fastforce
  with execute_request_settles[OF ex] show ?thesis by (simp only: settles_def) simp
qed

text \<open>The thread alone, at each of its steps in whatever state the others left the process.\<close>

fun interleaved ::
  "('n, 'c, 'm, 'x) platform \<Rightarrow> ('n, 'c) query_admission \<Rightarrow> string \<Rightarrow> string \<Rightarrow>
   ('n, 'c, ('m, 'x) batch_source) service list \<Rightarrow> ('n, 'c, ('m, 'x) batch_source) worker \<Rightarrow>
   ('n, 'c, ('m, 'x) batch_source) worker"
where
  "interleaved pf qa i sql [] wk = wk"
| "interleaved pf qa i sql (st # sts) wk = interleaved pf qa i sql sts (fst (worker_step pf qa i sql (wk, st)))"

lemma interleaved_rank:
  "worker_rank (interleaved pf qa i sql sts wk) \<le> worker_rank wk - length sts"
proof (induction sts arbitrary: wk)
  case (Cons st sts)
  obtain wk' st' where w: "worker_step pf qa i sql (wk, st) = (wk', st')" by fastforce
  have "worker_rank wk' \<le> worker_rank wk - 1"
  proof (cases "worker_rank wk")
    case 0
    then obtain r where "wk = Wk_done r" by (cases wk) auto
    with w have "wk' = wk" by simp
    with 0 show ?thesis by simp
  next
    case (Suc k)
    with worker_step_rank[OF w] show ?thesis by simp
  qed
  with Cons.IH[of wk'] w show ?case by simp
qed simp

lemma worker_ends_under_interference:
  assumes "10 \<le> length sts"
  shows "\<exists>r. interleaved pf qa i sql sts Wk_created = Wk_done r"
proof -
  have "worker_rank (interleaved pf qa i sql sts Wk_created) = 0"
    using interleaved_rank[of pf qa i sql sts Wk_created] assms by simp
  then show ?thesis by (cases "interleaved pf qa i sql sts Wk_created") auto
qed

section \<open>A small instance\<close>

definition sample_arrow_table :: "(nat, nat) arrow_table" where
  "sample_arrow_table =
     \<lparr>table_schema = sample_schema, table_num_rows = 6, table_batches = [sample_batch, sample_batch]\<rparr>"

definition sample_result :: "(nat, nat) batch_source" where
  "sample_result = \<lparr>source_schema = sample_schema, source_batches = [sample_batch, sample_batch]\<rparr>"

definition sample_platform :: "(nat, nat, nat, nat) platform" where
  "sample_platform =
     \<lparr>pf_env = steady_env,
      pf_driver =
        \<lparr>dr_import = Inr (), dr_connect = (\<lambda>calls args. Inr 1), dr_cursor = (\<lambda>calls n. Inr 7),
         dr_execute = (\<lambda>calls c s t. Inr ()),
         dr_fetch = (\<lambda>calls c. Inr [Inr (Arrow_table sample_arrow_table)]),
         dr_result_batches = (\<lambda>calls c. Inr None), dr_close_cursor = (\<lambda>calls c. Inr ()),
         dr_close_connection = (\<lambda>calls n. Inr ())\<rparr>,
      pf_writer = sample_writer, pf_stdout = (\<lambda>out. Inr ())\<rparr>"

definition sample_query_admission :: "(nat, nat) query_admission" where
  "sample_query_admission = \<lparr>qa_policy = sample_policy, qa_arguments = [], qa_connect = None\<rparr>"

definition sample_system :: "(nat, nat, (nat, nat) batch_source) system" where
  "sample_system =
     \<lparr>sy_service =
        \<lparr>conn_log = [],
         conn_logger = \<lparr>log_handlers = [], log_level = 0, log_propagate = True\<rparr>,
         sv_broker =
           \<lparr>maximum_ttl = minutes 5, maximum_pending_requests = Some 1, maximum_requests = Some 2,
            records = [], clock_reads = 0, tokens_drawn = 0, trace = []\<rparr>,
         sv_active = False, sv_printed = []\<rparr>,
      sy_executor = executor_init, sy_jobs = []\<rparr>"

definition sample_start :: "(nat, (nat, nat) batch_source) action list" where
  "sample_start =
     [Act_submit ''q'' (seconds 60) (Inr ()), Act_resume 0 (Started (Inr ())), Act_start 0,
      Act_step 0, Act_step 0, Act_step 0, Act_step 0, Act_step 0]"

definition sample_rest :: "(nat, (nat, nat) batch_source) action list" where
  "sample_rest =
     [Act_step 0, Act_step 0, Act_step 0, Act_step 0, Act_step 0, Act_resume 0 (Woken False True),
      Act_resume 0 (Work_ended (Inr sample_result)), Act_resume 0 (Expiry_settled (Inr ()))]"

lemma sample_system_initial: "system_initial sample_system"
proof -
  have "broker_init (minutes 5) (Some 1) (Some 2) = Inr (sy_broker sample_system)"
    by (simp add: broker_init_def sy_broker_def sample_system_def minutes_def seconds_def)
  then have "broker_initial (sy_broker sample_system)" unfolding broker_initial_def by blast
  then show ?thesis by (simp add: system_initial_def sample_system_def)
qed

lemma sample_reachable:
  "system_run sample_sqlglot sample_platform sample_query_admission as sample_system = Some y \<Longrightarrow>
   runs system_initial (system_step sample_sqlglot sample_platform sample_query_admission) y"
  by (rule runs_steps[OF system_run_steps]) (auto intro: runs_init sample_system_initial)

lemma sample_midway:
  obtains y where
    "system_run sample_sqlglot sample_platform sample_query_admission sample_start sample_system = Some y"
    "conn_log (sy_service y) = [Connected 1, Cursor_opened 1 7, Executed 7 ''q limit 51'' 60]"
    "sv_active (sy_service y)"
proof -
  have "map_option (\<lambda>y. (conn_log (sy_service y), sv_active (sy_service y)))
      (system_run sample_sqlglot sample_platform sample_query_admission sample_start sample_system) =
    Some ([Connected 1, Cursor_opened 1 7, Executed 7 ''q limit 51'' 60], True)"
    by code_simp
  with that show ?thesis by auto
qed

lemma sample_finished:
  obtains y where
    "system_run sample_sqlglot sample_platform sample_query_admission (sample_start @ sample_rest)
       sample_system = Some y"
    "fst (open_source steady_env sample_id (sy_broker y)) = Inr sample_result"
proof -
  have "map_option (\<lambda>y. fst (open_source steady_env sample_id (sy_broker y)))
      (system_run sample_sqlglot sample_platform sample_query_admission (sample_start @ sample_rest)
         sample_system) = Some (Inr sample_result)"
    by code_simp
  with that show ?thesis by auto
qed

section \<open>One connection at a time\<close>

lemma holders:
  assumes "lock_inv y" and "\<And>j. P j \<Longrightarrow> job_critical j"
  shows "tally P (sy_jobs y) = of_bool (list_ex P (sy_jobs y))"
    and "P j \<Longrightarrow> P' j' \<Longrightarrow> j \<in> set (sy_jobs y) \<Longrightarrow> j' \<in> set (sy_jobs y) \<Longrightarrow> job_critical j' \<Longrightarrow> j = j'"
proof -
  let ?crit = "filter job_critical (sy_jobs y)"
  have "tally job_critical (sy_jobs y) \<le> 1"
    using assms(1) by (cases "sv_active (sy_service y)") (simp_all add: lock_inv_def)
  then have le: "length ?crit \<le> 1" by (simp add: tally_def)
  have "filter P (sy_jobs y) = filter P ?crit"
    using assms(2) by (auto simp: filter_filter intro!: filter_cong)
  then have "length (filter P (sy_jobs y)) \<le> 1" using le length_filter_le[of P ?crit] by simp
  moreover have "filter P (sy_jobs y) = [] \<longleftrightarrow> \<not> list_ex P (sy_jobs y)"
    by (auto simp: filter_empty_conv list_ex_iff)
  ultimately show "tally P (sy_jobs y) = of_bool (list_ex P (sy_jobs y))"
    by (cases "filter P (sy_jobs y)") (auto simp: tally_def)
  assume j: "P j" "P' j'" "j \<in> set (sy_jobs y)" "j' \<in> set (sy_jobs y)" "job_critical j'"
  then have "j \<in> set ?crit" "j' \<in> set ?crit" using assms(2) by auto
  with le show "j = j'" by (cases ?crit) auto
qed

text \<open>
  Property C4.  At most one connection is open at a time, whoever interleaves.  In every reachable
  state the lock is held exactly when one thread is inside \<open>_execute\<close>; a connection or cursor was
  opened once more than it was closed exactly while that thread holds it, so when no thread is
  inside, everything that was ever opened has been closed, on every path.
\<close>

theorem one_connection_at_a_time:
  assumes "runs system_initial (system_step g pf qa) y"
  shows "length (filter job_critical (sy_jobs y)) = (if sv_active (sy_service y) then 1 else 0) \<and>
    connection_balance n (conn_log (sy_service y)) =
      of_bool (list_ex (\<lambda>j. job_connection j = Some n) (sy_jobs y)) \<and>
    cursor_balance c (conn_log (sy_service y)) =
      of_bool (list_ex (\<lambda>j. job_cursor j = Some c) (sy_jobs y)) \<and>
    (connection_balance n (conn_log (sy_service y)) = 1 \<and>
     connection_balance m (conn_log (sy_service y)) = 1 \<longrightarrow> n = m \<and> sv_active (sy_service y))"
proof -
  have inv: "lock_inv y" by (rule locked.reachable_inv[OF assms])
  have conn: "job_critical j" if "job_connection j = Some k" for j k
    using that critical_iff by (auto simp: job_connection_def job_critical_def split: option.splits)
  have cur: "job_critical j" if "job_cursor j = Some k" for j k
    using that held_cursor_critical by (auto simp: job_cursor_def job_critical_def split: option.splits)
  have count: "int (length (filter job_critical (sy_jobs y))) = of_bool (sv_active (sy_service y))"
    using inv by (simp add: lock_inv_def tally_def)
  then have lock: "length (filter job_critical (sy_jobs y)) = (if sv_active (sy_service y) then 1 else 0)"
    by (cases "sv_active (sy_service y)") auto
  have bal: "connection_balance k (conn_log (sy_service y)) =
      of_bool (list_ex (\<lambda>j. job_connection j = Some k) (sy_jobs y))" for k
    using inv holders(1)[where P = "\<lambda>j. job_connection j = Some k", OF inv conn]
    by (simp only: lock_inv_def)
  have cbal: "cursor_balance c (conn_log (sy_service y)) =
      of_bool (list_ex (\<lambda>j. job_cursor j = Some c) (sy_jobs y))"
    using inv holders(1)[where P = "\<lambda>j. job_cursor j = Some c", OF inv cur]
    by (simp only: lock_inv_def)
  have "n = m \<and> sv_active (sy_service y)"
    if "connection_balance n (conn_log (sy_service y)) = 1" "connection_balance m (conn_log (sy_service y)) = 1"
  proof -
    from that bal obtain j j' where j: "j \<in> set (sy_jobs y)" "job_connection j = Some n"
      "j' \<in> set (sy_jobs y)" "job_connection j' = Some m"
      by (auto simp: list_ex_iff split: if_splits)
    have "j = j'"
      by (rule holders(2)[where P = "\<lambda>j. job_connection j = Some n" and
            P' = "\<lambda>j. job_connection j = Some m", OF inv conn j(2,4,1,3) conn[OF j(4)]])
    moreover have "filter job_critical (sy_jobs y) \<noteq> []"
      using j(1) conn[OF j(2)] by (auto simp: filter_empty_conv)
    with lock have "sv_active (sy_service y)" by (cases "sv_active (sy_service y)") auto
    ultimately show ?thesis using j by simp
  qed
  with lock bal cbal show ?thesis by blast
qed

theorem one_connection_at_a_time_witness:
  "\<exists>y. runs system_initial (system_step sample_sqlglot sample_platform sample_query_admission) y \<and>
     connection_balance 1 (conn_log (sy_service y)) = 1 \<and>
     length (filter job_critical (sy_jobs y)) = 1"
proof -
  obtain y where y:
    "system_run sample_sqlglot sample_platform sample_query_admission sample_start sample_system = Some y"
    "conn_log (sy_service y) = [Connected 1, Cursor_opened 1 7, Executed 7 ''q limit 51'' 60]"
    "sv_active (sy_service y)" by (rule sample_midway)
  from one_connection_at_a_time[OF sample_reachable[OF y(1)], of 1 7 1] sample_reachable[OF y(1)] y
  show ?thesis by auto
qed

section \<open>What the driver executes and what a viewer is served\<close>

text \<open>
  Property C19.  Only governed SQL reaches the driver.  In every reachable state each statement ever
  handed to a cursor had the fixed statement timeout and is a text the policy authorised: it
  parses to one query all of whose row sources are configured views or read no table; and the
  connector's logger was silenced before the first connection was opened.
\<close>

theorem driver_executes_governed_sql_only:
  assumes "runs system_initial (system_step g pf qa) y"
    and "from_view_names names rows = Inr (qa_policy qa)"
    and "Executed c s t \<in> set (conn_log (sy_service y))"
  shows "t = MVP_STATEMENT_TIMEOUT_SECONDS \<and>
    (\<exists>q scopes. parse_query g s = Inr q \<and> sg_scopes g q = Inr (Some scopes) \<and>
       reads_only {v. dotted v \<in> set names \<and> well_formed_view v} scopes) \<and>
    (Connected n \<in> set (conn_log (sy_service y)) \<longrightarrow> quiet_logger (conn_logger (sy_service y)))"
proof -
  have src: "source_inv g pf qa y" by (rule sourced.reachable_inv[OF assms(1)])
  have drv: "driver_inv y" by (rule driven.reachable_inv[OF assms(1)])
  have "t = MVP_STATEMENT_TIMEOUT_SECONDS" "s \<in> job_sql ` set (sy_jobs y)"
    using drv assms(3) unfolding driver_inv_def by blast+
  then obtain j where "j \<in> set (sy_jobs y)" "job_sql j = s" "t = MVP_STATEMENT_TIMEOUT_SECONDS"
    by blast
  moreover from this src obtain sql where "authorize g (qa_policy qa) sql = Inr s"
    by (auto simp: source_inv_def job_good_def)
  from authorized_reads[OF assms(2) this] have
    "\<exists>q scopes. parse_query g s = Inr q \<and> sg_scopes g q = Inr (Some scopes) \<and>
       reads_only {v. dotted v \<in> set names \<and> well_formed_view v} scopes" .
  ultimately show ?thesis using drv by (auto simp: driver_inv_def)
qed

theorem driver_executes_governed_sql_only_witness:
  "\<exists>y. Executed 7 ''q limit 51'' 60 \<in> set (conn_log (sy_service y)) \<and>
     (\<exists>q scopes. parse_query sample_sqlglot ''q limit 51'' = Inr q \<and>
        sg_scopes sample_sqlglot q = Inr (Some scopes) \<and>
        reads_only {v. dotted v \<in> set [''DB.S.ORDERS''] \<and> well_formed_view v} scopes) \<and>
     quiet_logger (conn_logger (sy_service (y :: (nat, nat, (nat, nat) batch_source) system)))"
proof -
  obtain y where y:
    "system_run sample_sqlglot sample_platform sample_query_admission sample_start sample_system = Some y"
    "conn_log (sy_service y) = [Connected 1, Cursor_opened 1 7, Executed 7 ''q limit 51'' 60]"
    "sv_active (sy_service y)" by (rule sample_midway)
  have pol: "from_view_names [''DB.S.ORDERS''] 50 = Inr (qa_policy sample_query_admission)"
    by (simp add: sample_query_admission_def sample_policy_built)
  have ex: "Executed 7 ''q limit 51'' 60 \<in> set (conn_log (sy_service y))" by (simp add: y(2))
  have "Connected 1 \<in> set (conn_log (sy_service y))" by (simp add: y(2))
  with driver_executes_governed_sql_only[OF sample_reachable[OF y(1)] pol ex, of 1] ex
  show ?thesis by blast
qed

text \<open>
  Property C3.  What a viewer is served.  If in any reachable state a request's source can be
  opened, then it is the value returned by the finished thread of a job of that very request,
  whose SQL was authorised by the policy and so reads only configured views, and it meets every
  limit on rows, columns, cells, decoded and serialised bytes.
\<close>

theorem served_results_are_governed_and_admitted:
  assumes "runs system_initial (system_step g pf qa) y"
    and "from_view_names names rows = Inr (qa_policy qa)"
    and "open_source e i (sy_broker y) = (Inr s, b)"
  shows "admissible (pf_writer pf) (source_schema s) MVP_ARROW_LIMITS (source_batches s) \<and>
    (\<exists>j. j \<in> set (sy_jobs y) \<and> job_id j = i \<and> job_worker j = Some (Wk_done (Inr s)) \<and>
       (\<exists>q scopes. parse_query g (job_sql j) = Inr q \<and> sg_scopes g q = Inr (Some scopes) \<and>
          reads_only {v. dotted v \<in> set names \<and> well_formed_view v} scopes))"
proof -
  have src: "source_inv g pf qa y" by (rule sourced.reachable_inv[OF assms(1)])
  obtain r where "map_of (records (sy_broker y)) i = Some r" "rec_source r = Some s"
    using open_source_recorded[OF assms(3)] by blast
  with src have "returned (sy_jobs y) i s" by (simp add: source_inv_def)
  then obtain j where j: "j \<in> set (sy_jobs y)" "job_id j = i" "job_worker j = Some (Wk_done (Inr s))"
    by (auto simp: returned_def)
  with src have good: "job_good g pf qa j" by (simp add: source_inv_def)
  then obtain sql where "authorize g (qa_policy qa) sql = Inr (job_sql j)" by (auto simp: job_good_def)
  from authorized_reads[OF assms(2) this] good j show ?thesis by (auto simp: job_good_def)
qed

theorem served_results_are_governed_and_admitted_witness:
  "\<exists>y b. open_source steady_env sample_id (sy_broker y) = (Inr sample_result, b) \<and>
     (\<exists>j. j \<in> set (sy_jobs y) \<and> job_id j = sample_id \<and>
        job_worker j = Some (Wk_done (Inr sample_result) ::
          (nat, nat, (nat, nat) batch_source) worker)) \<and>
     admissible sample_writer (source_schema sample_result) MVP_ARROW_LIMITS
       (source_batches sample_result)"
proof -
  obtain y where y:
    "system_run sample_sqlglot sample_platform sample_query_admission (sample_start @ sample_rest)
       sample_system = Some y"
    "fst (open_source steady_env sample_id (sy_broker y)) = Inr sample_result" by (rule sample_finished)
  then obtain b where b: "open_source steady_env sample_id (sy_broker y) = (Inr sample_result, b)"
    by (cases "open_source steady_env sample_id (sy_broker y)") auto
  have pol: "from_view_names [''DB.S.ORDERS''] 50 = Inr (qa_policy sample_query_admission)"
    by (simp add: sample_query_admission_def sample_policy_built)
  have "pf_writer sample_platform = sample_writer" by (simp add: sample_platform_def)
  with served_results_are_governed_and_admitted[OF sample_reachable[OF y(1)] pol b] b
  show ?thesis by auto
qed

end
