(* ===== verification/Snowflake_Refines.thy ===== *)
theory Snowflake_Refines
  imports Snowflake_Props Broker_Spec
begin

text \<open>
  The whole service against the abstract store of \<open>Broker_Spec\<close>: each action of the concurrent
  system is matched by the events that action may cause, each of them possible when it happens.
\<close>

section \<open>Submission and shutdown\<close>

lemma new_deadline_mono:
  "new_deadline e ttl b b1 t \<Longrightarrow> clock_reads b1 \<le> clock_reads b' \<Longrightarrow> new_deadline e ttl b b' t"
  by (auto simp: new_deadline_def intro: less_le_trans)

lemma no_submission_events:
  "abs_requests b' = abs_requests b \<Longrightarrow>
   \<exists>evs. submission_events e ttl b b' evs \<and> spec_run D evs (abs_requests b) = Some (abs_requests b')"
  by (auto simp: submission_events_def intro!: exI[of _ "[]"])

text \<open>The request that was just created is failed again when its task cannot be scheduled.\<close>

lemma submitted_then_failed:
  assumes sub: "broker_submit e ttl b = Some (Inr v, b1)" and inv: "broker_inv b"
    and b': "b' = b1 \<or> b' = snd (broker_fail e (view_id v) b1)"
  shows "\<exists>evs. submission_events e ttl b b' evs \<and>
    spec_run (due e b b') evs (abs_requests b) = Some (abs_requests b')"
proof -
  let ?A = "{Ev_expire (view_id v), Ev_fail (view_id v)}"
  have inv1: "broker_inv b1" using broker_exec_inv[of e "Submit ttl", OF _ inv] sub by simp
  have "refines_by e ?A b1 b'"
    using b' refining.call_R(4)[where A = ?A and e = e and i = "view_id v" and b = b1]
    by (auto simp: refining.R_refl)
  then obtain later where later: "clock_reads b1 \<le> clock_reads b'" "set later \<subseteq> ?A"
    "spec_run (due e b1 b') later (abs_requests b1) = Some (abs_requests b')"
    using inv1 by (auto simp: refines_by_def)
  from broker_submit_events[OF sub inv] obtain ids forgotten t where
    c: "clock_reads b \<le> clock_reads b1" and
    f: "forgotten = [] \<or> full_broker b \<and> (\<exists>j. forgotten = [Ev_forget j])" and
    n: "new_deadline e ttl b b1 t" and
    r: "spec_run (due e b b1) (map Ev_expire ids @ forgotten @ [Ev_create (view_id v) t]) (abs_requests b) =
      Some (abs_requests b1)" by auto
  let ?evs = "map Ev_expire ids @ forgotten @ [Ev_create (view_id v) t] @ later"
  have "submission_events e ttl b b' ?evs"
    unfolding submission_events_def
    using f later(2) new_deadline_mono[OF n later(1)]
    by (intro exI[of _ ids] exI[of _ forgotten] exI[of _ "[Ev_create (view_id v) t]"] exI[of _ later]) auto
  moreover have "spec_run (due e b b') ?evs (abs_requests b) = Some (abs_requests b')"
    using spec_run_between[OF r later(3) c later(1)] by simp
  ultimately show ?thesis by blast
qed

lemma executor_submit_events:
  assumes "executor_submit e adm spawn sql ttl x b = Some (res, x', b')" and "broker_inv b"
  shows "\<exists>evs. submission_events e ttl b b' evs \<and>
    spec_run (due e b b') evs (abs_requests b) = Some (abs_requests b')"
proof (cases "\<exists>v b1. broker_submit e ttl b = Some (Inr v, b1) \<and>
    (\<exists>g w. b' = snd (snd (schedule e spawn g w v x b1)))")
  case True
  then obtain v b1 g w where b1: "broker_submit e ttl b = Some (Inr v, b1)"
    "b' = snd (snd (schedule e spawn g w v x b1))" by blast
  have "b' = b1 \<or> b' = snd (broker_fail e (view_id v) b1)"
    using schedule_broker[of e spawn g w v x b1] b1(2) by simp
  from submitted_then_failed[OF b1(1) assms(2) this] show ?thesis .
next
  case False
  with assms(1) have "b' = b \<or> (\<exists>ex. broker_submit e ttl b = Some (Inl ex, b'))"
    by (auto simp: executor_submit_def split: if_splits sum.splits option.splits prod.splits)
      (metis snd_conv)+
  then show ?thesis
  proof
    assume "b' = b"
    then show ?thesis by (simp add: no_submission_events)
  next
    assume "\<exists>ex. broker_submit e ttl b = Some (Inl ex, b')"
    then have "broker_exec e (Submit ttl) b = Some b'" by auto
    from broker_exec_simulated[OF assms(2) this] show ?thesis by (simp add: call_permits_def)
  qed
qed

text \<open>Shutdown cancels only what was pending when it began.\<close>

definition pending_entry :: "('s, 'c) broker \<Rightarrow> string \<Rightarrow> bool" where
  "pending_entry b i \<longleftrightarrow> (\<exists>x. abs_requests b i = Some x \<and> sp_status x = PENDING)"

definition close_events :: "('s, 'c) broker \<Rightarrow> 's spec_event set" where
  "close_events b = range Ev_expire \<union> Ev_cancel ` {i. pending_entry b i}"

lemma listed_pending:
  assumes "list_requests e b = (Inr vs, b')" and "broker_inv b"
    and "v \<in> set vs" and "view_status v = PENDING"
  shows "pending_entry b (view_id v)"
proof -
  have inv': "broker_inv b'" using broker_exec_inv[of e List_all b b'] assms(1,2) by simp
  have "vs = map record_view (rev (vals (records b')))"
    using assms(1) by (auto simp: list_requests_def exit_records_eq split: sum.splits prod.splits)
  then obtain i r where r: "(i, r) \<in> set (records b')" "v = record_view r"
    using assms(3) by auto
  then have r': "map_of (records b') i = Some r" using broker_inv_distinct[OF inv'] by simp
  have "rec_id r = i" using broker_inv_record[OF inv' r'] by simp
  moreover have "store_evolves b b'"
    using op_evolves(7)[OF broker_inv_distinct[OF assms(2)], of e] assms(1) by simp
  then obtain r0 where "map_of (records b) i = Some r0" "rec_evolves r0 r"
    using odict_rel_lookup_back[OF _ r'] by (auto simp: store_evolves_def)
  ultimately show ?thesis using r(2) assms(4)
    by (auto simp: pending_entry_def abs_requests_def entry_of_def record_view_def rec_evolves_def
        dest: advances_to_pending)
qed

lemma executor_close_events:
  assumes "executor_close e x b = (res, x', b')" and "broker_inv b"
  shows "refines_by e (close_events b) b b'"
proof -
  obtain m b1 where lr: "list_requests e b = (m, b1)" by fastforce
  have b1: "refines_by e (close_events b) b b1"
    using refining.call_R(6)[where A = "close_events b" and e = e and b = b] lr
    by (auto simp: close_events_def)
  show ?thesis
  proof (cases m)
    case (Inl ex)
    with assms(1) lr b1 show ?thesis by (simp add: executor_close_def)
  next
    case (Inr vs)
    with assms(1) lr have "cancel_pending e vs b1 = (res, b')"
      by (auto simp: executor_close_def split: prod.splits)
    then have "refines_by e (close_events b) b1 b'"
    proof (rule refining.cancel_pending_R)
      fix v
      assume "v \<in> set vs" "view_status v = PENDING"
      from listed_pending[OF lr[unfolded Inr] assms(2) this]
      show "(\<forall>ttl. Cancel (view_id v) \<noteq> Submit ttl) \<and> call_events (Cancel (view_id v)) \<subseteq> close_events b"
        by (auto simp: close_events_def)
    qed
    with b1 show ?thesis by (rule refines_by_trans)
  qed
qed

section \<open>The system\<close>

text \<open>
  The events of an action.  A submission has those of a submission to the broker.  Shutdown may
  cancel the requests then pending; a call of a viewer or an agent has the events of that call; a
  task may fail its own request and, holding a result, complete it with that very result; a thread
  step changes no request except that it may find its own overdue; starting a thread changes none.
\<close>

definition action_permits ::
  "env \<Rightarrow> ('c, 's) action \<Rightarrow> ('n, 'c, 's) system \<Rightarrow> ('n, 'c, 's) system \<Rightarrow> 's spec_event list \<Rightarrow> bool"
where
  "action_permits e a y y' evs \<longleftrightarrow>
     (case a of
        Act_submit sql ttl spawn \<Rightarrow> submission_events e ttl (sy_broker y) (sy_broker y') evs
      | Act_close \<Rightarrow> set evs \<subseteq> close_events (sy_broker y)
      | Act_call q \<Rightarrow> set evs \<subseteq> call_events q
      | Act_resume k ev \<Rightarrow>
          set evs \<subseteq> {Ev_expire (job_id (sy_jobs y ! k)), Ev_fail (job_id (sy_jobs y ! k))} \<union>
            {Ev_complete (job_id (sy_jobs y ! k)) s |s. job_run (sy_jobs y ! k) = Run_settling s}
      | Act_start k \<Rightarrow> evs = []
      | Act_step k \<Rightarrow> set evs \<subseteq> {Ev_expire (job_id (sy_jobs y ! k))})"

lemma broker_initial_inv: "broker_initial b \<Longrightarrow> broker_inv b"
  by (auto simp: broker_initial_def intro: broker_init_inv)

lemma refines_byD:
  "refines_by e A b b' \<Longrightarrow> broker_inv b \<Longrightarrow>
   \<exists>evs. set evs \<subseteq> A \<and> spec_run (due e b b') evs (abs_requests b) = Some (abs_requests b')"
  unfolding refines_by_def by blast

lemma system_exec_events:
  assumes "broker_inv (sy_broker y)" and "system_exec g pf qa a y = Some y'"
  shows "\<exists>evs. action_permits (pf_env pf) a y y' evs \<and>
    spec_run (due (pf_env pf) (sy_broker y) (sy_broker y')) evs (abs_requests (sy_broker y)) =
      Some (abs_requests (sy_broker y'))"
proof (cases a)
  case (Act_submit sql ttl spawn)
  with assms(2) obtain res x' b' where "executor_submit (pf_env pf) (admission_call g qa) spawn sql ttl
      (sy_executor y) (sy_broker y) = Some (res, x', b')" "sy_broker y' = b'"
    by (auto split: option.splits)
  with executor_submit_events[OF this(1) assms(1)] show ?thesis
    by (simp add: action_permits_def Act_submit)
next
  case Act_close
  with assms(2) obtain res x' where
    "executor_close (pf_env pf) (sy_executor y) (sy_broker y) = (res, x', sy_broker y')"
    by (auto split: prod.splits)
  from refines_byD[OF executor_close_events[OF this assms(1)] assms(1)] show ?thesis
    by (simp add: action_permits_def Act_close)
next
  case (Act_call q)
  with assms(2) have q: "\<not> executor_only q" "broker_exec (pf_env pf) q (sy_broker y) = Some (sy_broker y')"
    by (auto split: if_splits)
  from q(1) have "q \<noteq> Submit ttl" for ttl by auto
  with call_exec_events[OF q(2) _ broker_inv_distinct[OF assms(1)]] show ?thesis
    by (simp add: action_permits_def Act_call)
next
  case (Act_resume k ev)
  let ?j = "sy_jobs y ! k"
  let ?A = "{Ev_expire (job_id ?j), Ev_fail (job_id ?j)} \<union>
    {Ev_complete (job_id ?j) s |s. job_run ?j = Run_settling s}"
  from Act_resume assms(2) obtain ph where
    "run_step (pf_env pf) (job_id ?j) ev (job_run ?j, sy_broker y) = Some (ph, sy_broker y')"
    by (auto simp: Let_def split: if_splits option.splits)
  then have "refines_by (pf_env pf) ?A (sy_broker y) (sy_broker y')"
    by (rule refining.run_step_R) auto
  from refines_byD[OF this assms(1)] show ?thesis by (simp add: action_permits_def Act_resume)
next
  case (Act_start k)
  with assms(2) have "sy_broker y' = sy_broker y" by (auto split: if_splits)
  with Act_start show ?thesis by (simp add: action_permits_def)
next
  case (Act_step k)
  let ?A = "{Ev_expire (job_id (sy_jobs y ! k))}"
  from Act_step assms(2) obtain wk wk' sv where
    st: "worker_step pf qa (job_id (sy_jobs y ! k)) (job_sql (sy_jobs y ! k)) (wk, sy_service y) = (wk', sv)"
    and b': "sy_broker y' = sv_broker sv"
    by (auto simp: Let_def sy_broker_def split: if_splits option.splits prod.splits)
  have "refines_by (pf_env pf) ?A (sy_broker y) (sy_broker y')"
    using refining.worker_step_R[OF st refl, where A = ?A] by (simp add: b' [unfolded sy_broker_def] sy_broker_def)
  from refines_byD[OF this assms(1)] show ?thesis by (simp add: action_permits_def Act_step)
qed

interpretation service: simulation system_initial "system_step g pf qa"
    "\<lambda>y. broker_inv (sy_broker y)" "system_exec g pf qa" "\<lambda>y. abs_requests (sy_broker y)" Map.empty
    "action_permits (pf_env pf)"
    "\<lambda>y y'. spec_run (due (pf_env pf) (sy_broker y) (sy_broker y'))" for g pf qa
proof unfold_locales
  show "broker_inv (sy_broker y)" if "system_initial y" for y :: "('a, 'b, ('c, 'd) batch_source) system"
    using that by (simp add: system_initial_def broker_initial_inv)
  show "broker_inv (sy_broker y')" if "broker_inv (sy_broker y)" "system_step g pf qa y y'" for y y'
    using brk.steps_inv[OF system_step_calls[OF that(2)] that(1)] .
  show "abs_requests (sy_broker y) = Map.empty" if "system_initial y"
    for y :: "('a, 'b, ('c, 'd) batch_source) system"
    using that by (auto simp: system_initial_def intro: brk_spec.start_view)
qed (auto simp: system_step_def intro: system_exec_events)

text \<open>
  Property C2.  The concurrent service refines the store of requests, event by event.  In every
  state reachable from a fresh process by any interleaving of submissions, shutdown, viewer calls,
  task steps and thread steps, whatever action is taken next changes the requests, their deadlines
  and their sources by a sequence of events which that action may cause and each of which is
  possible when it happens: a request is created pending under an unused identifier; it is
  completed or failed only while pending, and completed only by its own task with the result that
  task holds; cancelled only while pending or complete; expired only when a clock reading of this
  action is at or after its deadline; and forgotten only when it has ended, by a submission to a
  full broker.  A fresh process starts from the empty store.
\<close>

theorem service_refines_lifecycle:
  assumes "runs system_initial (system_step g pf qa) y" and "system_exec g pf qa a y = Some y'"
  shows "\<exists>evs. action_permits (pf_env pf) a y y' evs \<and>
    spec_run (due (pf_env pf) (sy_broker y) (sy_broker y')) evs (abs_requests (sy_broker y)) =
      Some (abs_requests (sy_broker y'))"
  using service.reachable_events[OF assms] by blast

text \<open>
  In the sample run the task publishes its result: the events that lead from the pending request
  to the complete one can only be its completion with that result.
\<close>

theorem service_refines_lifecycle_witness:
  "\<exists>y y' evs a. runs system_initial (system_step sample_sqlglot sample_platform sample_query_admission) y \<and>
     system_exec sample_sqlglot sample_platform sample_query_admission a y = Some y' \<and>
     map_option sp_status (abs_requests (sy_broker y) sample_id) = Some PENDING \<and>
     map_option sp_source (abs_requests (sy_broker y') sample_id) = Some (Some sample_result) \<and>
     Ev_complete sample_id sample_result \<in> set evs \<and>
     spec_run (due steady_env (sy_broker y) (sy_broker y')) evs (abs_requests (sy_broker y)) =
       Some (abs_requests (sy_broker y'))"
proof -
  let ?a = "Act_resume 0 (Expiry_settled (Inr ()))"
  have "map_option (\<lambda>y. (map_option (\<lambda>p. (sp_status p, sp_source p)) (abs_requests (sy_broker y) sample_id),
      map_option (\<lambda>y'. map_option sp_source (abs_requests (sy_broker y') sample_id))
        (system_exec sample_sqlglot sample_platform sample_query_admission ?a y)))
    (system_run sample_sqlglot sample_platform sample_query_admission (sample_start @ butlast sample_rest)
       sample_system) = Some (Some (PENDING, None), Some (Some (Some sample_result)))"
    by code_simp
  then obtain y y' p p' where
    y: "system_run sample_sqlglot sample_platform sample_query_admission (sample_start @ butlast sample_rest)
      sample_system = Some y"
    and y': "system_exec sample_sqlglot sample_platform sample_query_admission ?a y = Some y'"
    and p: "abs_requests (sy_broker y) sample_id = Some p" "sp_status p = PENDING" "sp_source p = None"
    and p': "abs_requests (sy_broker y') sample_id = Some p'" "sp_source p' = Some sample_result"
    by (auto simp del: system_run.simps system_exec.simps)
  have env: "pf_env sample_platform = steady_env" by (simp add: sample_platform_def)
  from service_refines_lifecycle[OF sample_reachable[OF y] y'] obtain evs where
    evs: "action_permits steady_env ?a y y' evs"
    "spec_run (due steady_env (sy_broker y) (sy_broker y')) evs (abs_requests (sy_broker y)) =
       Some (abs_requests (sy_broker y'))" unfolding env by blast
  have "\<exists>q. abs_requests (sy_broker y') sample_id = Some q \<and>
      fate (due steady_env (sy_broker y) (sy_broker y')) (set evs) sample_id p q"
    by (rule spec_run_fate[OF evs(2) subset_refl _ _ p(1)])
      (use evs(1) in \<open>auto simp: action_permits_def\<close>)
  with p p' have "Ev_complete sample_id sample_result \<in> set evs" by (auto simp: fate_def)
  with sample_reachable[OF y] y' p p' evs(2) show ?thesis
    by (intro exI[of _ y] exI[of _ y'] exI[of _ evs] exI[of _ ?a]) simp
qed

end
