(* ===== verification/Snowflake_Live.thy ===== *)
theory Snowflake_Live
  imports Snowflake_Refines
begin

text \<open>
  The liveness of the configured service: every action lowers or keeps the rank of each job, so
  under fair scheduling every job ends; and a pending request always has a job that has not ended,
  so no request stays pending for ever.
\<close>

section \<open>The rank of a job\<close>

text \<open>
  The suspensions a task still has before it, and with the steps of its thread (ten at most, and
  one for starting it) the rank of the job: at most fifteen.
\<close>

fun run_rank :: "'s run_phase \<Rightarrow> nat" where
  "run_rank Run_created = 4"
| "run_rank Run_waiting = 3"
| "run_rank Run_awaiting = 2"
| "run_rank (Run_settling s) = 1"
| "run_rank Run_done = 0"
| "run_rank Run_abandoned = 0"

fun thread_rank :: "('n, 'c, 's) worker option \<Rightarrow> nat" where
  "thread_rank None = 11"
| "thread_rank (Some wk) = worker_rank wk"

definition job_rank :: "('n, 'c, 's) job \<Rightarrow> nat" where
  "job_rank j = run_rank (job_run j) + thread_rank (job_worker j)"

text \<open>A job is over when its task is and no thread is running for it.\<close>

definition job_over :: "('n, 'c, 's) job \<Rightarrow> bool" where
  "job_over j \<longleftrightarrow> run_rank (job_run j) = 0 \<and> work_over (job_worker j)"

text \<open>
  What the runtime does next for a job that nobody interrupts: the thread runs before the task is
  resumed with its outcome.
\<close>

definition next_action :: "nat \<Rightarrow> ('n, 'c, 's) job \<Rightarrow> ('c, 's) action" where
  "next_action k j =
     (case job_run j of
        Run_created \<Rightarrow> Act_resume k (Started (Inr ()))
      | Run_settling s \<Rightarrow> Act_resume k (Expiry_settled (Inl CancelledError))
      | Run_waiting \<Rightarrow>
          (case job_worker j of
             None \<Rightarrow> Act_start k
           | Some wk \<Rightarrow> if work_over (Some wk) then Act_resume k (Woken False True) else Act_step k)
      | Run_awaiting \<Rightarrow>
          (case job_worker j of
             None \<Rightarrow> Act_start k
           | Some wk \<Rightarrow> (case wk of Wk_done r \<Rightarrow> Act_resume k (Work_ended r) | _ \<Rightarrow> Act_step k))
      | _ \<Rightarrow> Act_step k)"

lemma run_step_rank:
  assumes "run_step e i ev (ph, b) = Some (ph', b')"
  shows "run_rank ph' < run_rank ph"
proof (cases ev)
  case (Started r)
  with assms show ?thesis by (cases r; cases ph) (auto simp: run_abort_def)
next
  case (Woken p q)
  with assms show ?thesis
    by (cases ph) (auto simp: run_abort_def split: if_splits prod.splits sum.splits)
next
  case (Work_ended r)
  with assms show ?thesis by (cases r; cases ph) (auto simp: run_abort_def)
next
  case (Expiry_settled r)
  with assms show ?thesis
    by (cases ph) (auto simp: run_abort_def split: if_splits prod.splits sum.splits)
next
  case (Interrupted x)
  with assms show ?thesis by (cases ph) (auto simp: run_abort_def)
qed

lemma work_over_rank: "\<not> work_over (Some wk) \<longleftrightarrow> 0 < worker_rank wk"
  by (cases wk) simp_all

lemma worker_step_lowers:
  assumes "worker_step pf qa i sql (wk, st) = (wk', st')"
  shows "wk' = wk \<or> worker_rank wk' < worker_rank wk"
proof (cases "worker_rank wk")
  case 0
  then obtain r where "wk = Wk_done r" by (cases wk) simp_all
  with assms show ?thesis by simp
qed (use worker_step_rank[OF assms] in simp)

lemma job_rank_bound: "job_rank j \<le> 15"
proof -
  have "thread_rank (job_worker j) \<le> 11"
  proof (cases "job_worker j")
    case (Some wk)
    then show ?thesis by (cases wk) simp_all
  qed simp
  moreover have "run_rank (job_run j) \<le> 4" by (cases "job_run j") simp_all
  ultimately show ?thesis by (simp add: job_rank_def)
qed

text \<open>No action raises the rank of a job; one that changes the job lowers it.\<close>

lemma job_rank_falls:
  assumes "system_step g pf qa y y'" and "k < length (sy_jobs y)"
  shows "sy_jobs y' ! k = sy_jobs y ! k \<or> job_rank (sy_jobs y' ! k) < job_rank (sy_jobs y ! k)"
  using assms(1)
proof (cases rule: system_step_cases)
  case (submitted spawn sql ttl res x' b')
  with assms(2) show ?thesis by (simp add: nth_append)
next
  case (resumed m j ev ph b')
  with assms(2) run_step_rank[OF resumed(4)] show ?thesis
    by (cases "m = k") (auto simp: job_rank_def)
next
  case (started m j)
  with assms(2) show ?thesis by (cases "m = k") (auto simp: job_rank_def)
next
  case (stepped m j wk wk' sv)
  show ?thesis
  proof (cases "m = k \<and> wk' \<noteq> wk")
    case True
    with worker_step_lowers[OF stepped(4)] stepped assms(2) show ?thesis
      by (auto simp: job_rank_def)
  next
    case False
    then have "sy_jobs y' ! k = sy_jobs y ! k"
      using stepped assms(2) by (cases "m = k") auto
    then show ?thesis ..
  qed
qed simp_all

lemma system_exec_resume:
  assumes "k < length (sy_jobs y)" and "sy_jobs y ! k = j" and "event_possible ev j"
    and "run_step (pf_env pf) (job_id j) ev (job_run j, sy_broker y) \<noteq> None"
  shows "\<exists>ph b'. system_exec g pf qa (Act_resume k ev) y =
      Some (set_job k (j\<lparr>job_run := ph\<rparr>) (with_broker b' y)) \<and> run_rank ph < run_rank (job_run j)"
  using assms run_step_rank by (fastforce simp: Let_def)

lemma system_exec_thread:
  assumes "k < length (sy_jobs y)" and "sy_jobs y ! k = j" and "job_worker j = Some wk"
    and "\<not> work_over (Some wk)"
  shows "\<exists>wk' sv. system_exec g pf qa (Act_step k) y =
      Some (set_job k (j\<lparr>job_worker := Some wk'\<rparr>) (y\<lparr>sy_service := sv\<rparr>)) \<and>
    worker_rank wk' < worker_rank wk"
  using assms worker_step_rank by (fastforce simp: Let_def work_over_rank split: prod.splits)

lemma next_action_lowers:
  assumes k: "k < length (sy_jobs y)" and "\<not> job_over (sy_jobs y ! k)"
  shows "\<exists>y'. system_exec g pf qa (next_action k (sy_jobs y ! k)) y = Some y' \<and>
    job_rank (sy_jobs y' ! k) < job_rank (sy_jobs y ! k)"
proof -
  let ?j = "sy_jobs y ! k"
  have resume: ?thesis
    if "next_action k ?j = Act_resume k ev" "event_possible ev ?j"
      "run_step (pf_env pf) (job_id ?j) ev (job_run ?j, sy_broker y) \<noteq> None" for ev
  proof -
    from system_exec_resume[OF k refl that(2,3)] obtain ph b' where
      "system_exec g pf qa (Act_resume k ev) y =
        Some (set_job k (?j\<lparr>job_run := ph\<rparr>) (with_broker b' y))" "run_rank ph < run_rank (job_run ?j)"
      by blast
    with k that(1) show ?thesis by (simp add: job_rank_def)
  qed
  have start: ?thesis if "next_action k ?j = Act_start k" "worker_may_start ?j"
    using k that by (auto simp: job_rank_def worker_may_start_def)
  have thread: ?thesis
    if "next_action k ?j = Act_step k" "job_worker ?j = Some wk" "\<not> work_over (Some wk)" for wk
  proof -
    from system_exec_thread[OF k refl that(2,3)] obtain wk' sv where
      "system_exec g pf qa (Act_step k) y =
        Some (set_job k (?j\<lparr>job_worker := Some wk'\<rparr>) (y\<lparr>sy_service := sv\<rparr>))"
      "worker_rank wk' < worker_rank wk" by blast
    with k that(1,2) show ?thesis by (simp add: job_rank_def)
  qed
  show ?thesis
  proof (cases "job_run ?j")
    case Run_created
    show ?thesis by (rule resume[of "Started (Inr ())"])
      (simp_all add: next_action_def Run_created event_possible_def)
  next
    case Run_waiting
    show ?thesis
    proof (cases "job_worker ?j")
      case None
      with Run_waiting start show ?thesis by (simp add: next_action_def worker_may_start_def)
    next
      case (Some wk)
      with Run_waiting resume[of "Woken False True"] thread[of wk] show ?thesis
        by (cases "work_over (Some wk)") (simp_all add: next_action_def event_possible_def)
    qed
  next
    case Run_awaiting
    show ?thesis
    proof (cases "job_worker ?j")
      case None
      with Run_awaiting start show ?thesis by (simp add: next_action_def worker_may_start_def)
    next
      case (Some wk)
      show ?thesis
      proof (cases "\<exists>r. wk = Wk_done r")
        case True
        then obtain r where "wk = Wk_done r" ..
        with Run_awaiting Some resume[of "Work_ended r"] show ?thesis
          by (cases r) (simp_all add: next_action_def event_possible_def)
      next
        case False
        with Run_awaiting Some thread[of wk] show ?thesis
          by (cases wk) (simp_all add: next_action_def)
      qed
    qed
  next
    case (Run_settling s)
    show ?thesis by (rule resume[of "Expiry_settled (Inl CancelledError)"])
      (auto simp: next_action_def Run_settling event_possible_def split: prod.splits sum.splits)
  next
    case Run_done
    with assms(2) thread show ?thesis
      by (cases "job_worker ?j") (auto simp: next_action_def job_over_def)
  next
    case Run_abandoned
    with assms(2) thread show ?thesis
      by (cases "job_worker ?j") (auto simp: next_action_def job_over_def)
  qed
qed

section \<open>Fair runs\<close>

text \<open>
  An endless schedule with the states it goes through.  It is fair when no job that is not over
  waits for ever: again and again either the job is over or its next action is the one taken.
\<close>

definition schedule_runs ::
  "'q sqlglot \<Rightarrow> ('n, 'c, 'm, 'x) platform \<Rightarrow> ('n, 'c) query_admission \<Rightarrow>
   (nat \<Rightarrow> ('c, ('m, 'x) batch_source) action) \<Rightarrow>
   (nat \<Rightarrow> ('n, 'c, ('m, 'x) batch_source) system) \<Rightarrow> bool"
where
  "schedule_runs g pf qa sched ys \<longleftrightarrow> (\<forall>n. system_exec g pf qa (sched n) (ys n) = Some (ys (Suc n)))"

definition fair ::
  "(nat \<Rightarrow> ('c, 's) action) \<Rightarrow> (nat \<Rightarrow> ('n, 'c, 's) system) \<Rightarrow> bool" where
  "fair sched ys \<longleftrightarrow>
     (\<forall>m k. k < length (sy_jobs (ys m)) \<longrightarrow>
        (\<exists>n \<ge> m. job_over (sy_jobs (ys n) ! k) \<or> sched n = next_action k (sy_jobs (ys n) ! k)))"

lemma schedule_step: "schedule_runs g pf qa sched ys \<Longrightarrow> system_step g pf qa (ys n) (ys (Suc n))"
  by (auto simp: schedule_runs_def system_step_def)

lemma schedule_jobs:
  assumes "schedule_runs g pf qa sched ys" and "k < length (sy_jobs (ys m))" and "m \<le> n"
  shows "k < length (sy_jobs (ys n)) \<and> job_id (sy_jobs (ys n) ! k) = job_id (sy_jobs (ys m) ! k)"
  using assms(3)
proof (induction rule: dec_induct)
  case base
  then show ?case using assms(2) by simp
next
  case (step n)
  with system_step_jobs[OF schedule_step[OF assms(1)], of k n] show ?case by simp
qed

text \<open>Once the rank of a job has reached its least value the job no longer changes.\<close>

lemma fair_job_over:
  assumes run: "schedule_runs g pf qa sched ys" and "fair sched ys" and "k < length (sy_jobs (ys m))"
  shows "\<exists>n \<ge> m. \<forall>n' \<ge> n. job_over (sy_jobs (ys n') ! k)"
proof -
  define rank where "rank n = job_rank (sy_jobs (ys n) ! k)" for n
  obtain n where n: "m \<le> n" "\<And>n'. m \<le> n' \<Longrightarrow> rank n \<le> rank n'"
    using ex_has_least_nat[of "\<lambda>n. m \<le> n" m rank] by auto
  have still: "sy_jobs (ys n') ! k = sy_jobs (ys n) ! k" if "n \<le> n'" for n'
    using that
  proof (induction rule: dec_induct)
    case (step n')
    have "k < length (sy_jobs (ys n'))"
      using schedule_jobs[OF run assms(3)] n(1) step.hyps by simp
    from job_rank_falls[OF schedule_step[OF run] this] show ?case
      using n(2)[of "Suc n'"] n(1) step by (auto simp: rank_def)
  qed simp
  have k: "k < length (sy_jobs (ys n))" using schedule_jobs[OF run assms(3) n(1)] by simp
  then obtain n' where n': "n \<le> n'"
    "job_over (sy_jobs (ys n') ! k) \<or> sched n' = next_action k (sy_jobs (ys n') ! k)"
    using assms(2) unfolding fair_def by blast
  have "job_over (sy_jobs (ys n') ! k)"
  proof (rule ccontr)
    assume over: "\<not> job_over (sy_jobs (ys n') ! k)"
    have "k < length (sy_jobs (ys n'))" using schedule_jobs[OF run k n'(1)] by simp
    from next_action_lowers[OF this over, of g pf qa] obtain y' where
      "system_exec g pf qa (next_action k (sy_jobs (ys n') ! k)) (ys n') = Some y'"
      "job_rank (sy_jobs y' ! k) < rank n'" unfolding rank_def by blast
    moreover have "sched n' = next_action k (sy_jobs (ys n') ! k)" using n'(2) over by blast
    ultimately have "rank (Suc n') < rank n'"
      using run unfolding schedule_runs_def rank_def by (metis option.inject)
    with still[OF n'(1)] n(2)[of "Suc n'"] n(1) n'(1) show False by (simp add: rank_def)
  qed
  then show ?thesis using n(1) still n'(1) by metis
qed

section \<open>Pending requests are worked on\<close>

definition pending_in :: "('s, 'c) broker \<Rightarrow> string \<Rightarrow> bool" where
  "pending_in b i \<longleftrightarrow> (\<exists>r. map_of (records b) i = Some r \<and> rec_status r = PENDING)"

lemma calm_pending: "calm b b' \<Longrightarrow> broker_inv b \<Longrightarrow> pending_in b' i \<Longrightarrow> pending_in b i"
  by (auto simp: calm_def no_new_pending_def pending_in_def)

text \<open>\<open>create_task\<close> raises ordinary exceptions only.\<close>

fun ordinary :: "('c, 's) action \<Rightarrow> bool" where
  "ordinary (Act_submit sql ttl (Inl ex)) \<longleftrightarrow> is_Exception ex"
| "ordinary a \<longleftrightarrow> True"

definition ordinary_step ::
  "'q sqlglot \<Rightarrow> ('n, 'c, 'm, 'x) platform \<Rightarrow> ('n, 'c) query_admission \<Rightarrow>
   ('n, 'c, ('m, 'x) batch_source) system \<Rightarrow> ('n, 'c, ('m, 'x) batch_source) system \<Rightarrow> bool"
where
  "ordinary_step g pf qa y y' \<longleftrightarrow> (\<exists>a. ordinary a \<and> system_exec g pf qa a y = Some y')"

lemma ordinary_step_step: "ordinary_step g pf qa y y' \<Longrightarrow> system_step g pf qa y y'"
  by (auto simp: ordinary_step_def system_step_def)

text \<open>Unless the action is a submission, whatever is pending afterwards was pending before.\<close>

lemma system_exec_calm:
  assumes "system_exec g pf qa a y = Some y'" and "\<nexists>sql ttl spawn. a = Act_submit sql ttl spawn"
  shows "calm (sy_broker y) (sy_broker y')"
proof (cases a)
  case Act_close
  with assms(1) show ?thesis by (auto split: prod.splits dest!: calming.executor_close_R)
next
  case (Act_call q)
  with assms(1) have "broker_exec (pf_env pf) q (sy_broker y) = Some (sy_broker y')" "\<not> is_submit q"
    by (cases q; auto split: if_splits)+
  then show ?thesis by (rule calming.R_exec)
next
  case (Act_resume k ev)
  with assms(1) obtain ph b' where
    "run_step (pf_env pf) (job_id (sy_jobs y ! k)) ev (job_run (sy_jobs y ! k), sy_broker y) = Some (ph, b')"
    "sy_broker y' = b'"
    by (auto simp: Let_def split: if_splits option.splits)
  with calming.run_step_R[OF this(1)] show ?thesis by simp
next
  case (Act_step k)
  with assms(1) obtain wk wk' sv where
    "worker_step pf qa (job_id (sy_jobs y ! k)) (job_sql (sy_jobs y ! k)) (wk, sy_service y) = (wk', sv)"
    "sy_broker y' = sv_broker sv"
    by (auto simp: Let_def sy_broker_def split: if_splits option.splits prod.splits)
  with calming.worker_step_R[OF this(1) refl] show ?thesis by (simp add: sy_broker_def)
qed (use assms calming.R_refl in \<open>auto split: if_splits\<close>)

abbreviation aware :: "('n, 'c, 'm, 'x) platform \<Rightarrow> bool" where
  "aware pf \<equiv> (\<forall>n. tz_aware (clock_at (pf_env pf) n))"

lemma submit_pending:
  assumes "system_exec g pf qa (Act_submit sql ttl spawn) y = Some y'"
    and "ordinary (Act_submit sql ttl spawn :: ('c, 's) action)"
    and "broker_inv (sy_broker y)" and "aware pf" and "pending_in (sy_broker y') i"
  shows "pending_in (sy_broker y) i \<or> (\<exists>j \<in> set (sy_jobs y'). job_id j = i \<and> job_run j = Run_created)"
proof -
  obtain res x' b' where sub: "executor_submit (pf_env pf) (admission_call g qa) spawn sql ttl
      (sy_executor y) (sy_broker y) = Some (res, x', b')"
    and y': "y' = with_broker b' y\<lparr>sy_executor := x', sy_jobs := sy_jobs y @
         map new_job (drop (length (exec_tasks (sy_executor y))) (exec_tasks x'))\<rparr>"
    using assms(1) by (auto split: option.splits)
  have exc: "is_Exception ex" if "spawn = Inl ex" for ex using assms(2) that by simp
  have clock: "tz_aware (clock_at (pf_env pf) n)" for n using assms(4) by simp
  note facts = executor_submit_atomic_facts[OF sub assms(3) clock exc]
  show ?thesis
  proof (cases res)
    case (Inl ex)
    with facts assms(5) show ?thesis by (auto simp: y' no_new_pending_def pending_in_def)
  next
    case (Inr v)
    with facts obtain work where new: "broker_submit (pf_env pf) ttl (sy_broker y) = Some (Inr (sub_request v), b')"
      "exec_tasks x' = exec_tasks (sy_executor y) @ [(sub_request v, work)]" by auto
    obtain rs r b1 where rs: "records b' = rs @ [(view_id (sub_request v), r)]" "records b1 = rs"
      "no_new_pending (sy_broker y) b1" using submit_registered[OF new(1)] by metis
    show ?thesis
    proof (cases "i = view_id (sub_request v)")
      case True
      then show ?thesis by (auto simp: y' new(2) new_job_def)
    next
      case False
      with assms(5) rs show ?thesis
        by (auto simp: y' pending_in_def no_new_pending_def map_add_Some_iff)
    qed
  qed
qed

text \<open>While its request is pending, a task that has not ended does not end.\<close>

lemma pending_task_goes_on:
  assumes "system_step g pf qa y y'" and "broker_inv (sy_broker y)" and "aware pf"
    and k: "k < length (sy_jobs y)" and "job_run (sy_jobs y ! k) \<noteq> Run_done"
    and "pending_in (sy_broker y') (job_id (sy_jobs y ! k))"
  shows "job_run (sy_jobs y' ! k) \<noteq> Run_done"
  using assms(1)
proof (cases rule: system_step_cases)
  case (submitted spawn sql ttl res x' b')
  with assms(5) k show ?thesis by (simp add: nth_append)
next
  case (resumed m j ev ph b')
  have "ph \<noteq> Run_done" if "m = k"
  proof
    assume "ph = Run_done"
    have clock: "tz_aware (clock_at (pf_env pf) n)" for n using assms(3) by simp
    from finishing_step_not_pending[OF resumed(4)[unfolded \<open>ph = Run_done\<close>] assms(2) clock]
    show False using assms(6) resumed(2,5) that by (auto simp: pending_in_def)
  qed
  with resumed k assms(5) show ?thesis by (cases "m = k") auto
next
  case (started m j)
  with k assms(5) show ?thesis by (cases "m = k") auto
next
  case (stepped m j wk wk' sv)
  with k assms(5) show ?thesis by (cases "m = k") auto
qed (use assms(5) in simp_all)

definition worked_on :: "('n, 'c, 's) system \<Rightarrow> bool" where
  "worked_on y \<longleftrightarrow>
     (\<forall>i. pending_in (sy_broker y) i \<longrightarrow>
        (\<exists>k < length (sy_jobs y). job_id (sy_jobs y ! k) = i \<and> job_run (sy_jobs y ! k) \<noteq> Run_done))"

lemma worked_on_step:
  assumes "ordinary_step g pf qa y y'" and "broker_inv (sy_broker y)" and "aware pf" and "worked_on y"
  shows "worked_on y'"
  unfolding worked_on_def
proof (intro allI impI)
  fix i
  assume pend: "pending_in (sy_broker y') i"
  obtain a where a: "ordinary a" "system_exec g pf qa a y = Some y'"
    using assms(1) by (auto simp: ordinary_step_def)
  note step = ordinary_step_step[OF assms(1)]
  show "\<exists>k < length (sy_jobs y'). job_id (sy_jobs y' ! k) = i \<and> job_run (sy_jobs y' ! k) \<noteq> Run_done"
  proof (cases "pending_in (sy_broker y) i")
    case True
    with assms(4) obtain k where k: "k < length (sy_jobs y)" "job_id (sy_jobs y ! k) = i"
      "job_run (sy_jobs y ! k) \<noteq> Run_done" by (auto simp: worked_on_def)
    with pending_task_goes_on[OF step assms(2,3) k(1,3)] pend system_step_jobs[OF step k(1)]
    show ?thesis by auto
  next
    case False
    then have "\<not> calm (sy_broker y) (sy_broker y')" using calm_pending assms(2) pend by blast
    then obtain sql ttl spawn where sub: "a = Act_submit sql ttl spawn"
      using system_exec_calm[OF a(2)] by blast
    from submit_pending[OF a(2)[unfolded sub] a(1)[unfolded sub] assms(2,3) pend] False
    obtain j where "j \<in> set (sy_jobs y')" "job_id j = i" "job_run j = Run_created" by blast
    then show ?thesis by (metis in_set_conv_nth run_phase.distinct(7))
  qed
qed

interpretation worked: invariant system_initial "ordinary_step g pf qa"
    "\<lambda>y. aware pf \<longrightarrow> broker_inv (sy_broker y) \<and> worked_on y" for g pf qa
proof unfold_locales
  show "aware pf \<longrightarrow> broker_inv (sy_broker y) \<and> worked_on y"
    if "system_initial y" for y :: "('a, 'b, ('c, 'd) batch_source) system"
    using that
    by (auto simp: system_initial_def broker_initial_inv worked_on_def pending_in_def
        dest!: broker_initial_records)
  show "aware pf \<longrightarrow> broker_inv (sy_broker y') \<and> worked_on y'"
    if "aware pf \<longrightarrow> broker_inv (sy_broker y) \<and> worked_on y" "ordinary_step g pf qa y y'" for y y'
    using that worked_on_step[OF that(2)] service.step_inv[OF _ ordinary_step_step[OF that(2)]] by blast
qed

section \<open>Liveness\<close>

text \<open>
  Property C20.  Every job of the service makes progress and only so much of it.  Its rank starts
  at fifteen at most; no action of anybody raises it, and an action that changes the job at all
  lowers it; and as long as the task is not over or its thread is still running, the job has a
  next action, which is possible whatever the others did to the broker, the driver and the lock,
  and lowers the rank.
\<close>

theorem jobs_progress:
  assumes "k < length (sy_jobs y)"
  shows "job_rank (sy_jobs y ! k) \<le> 15 \<and>
    (\<forall>a y'. system_exec g pf qa a y = Some y' \<longrightarrow>
       sy_jobs y' ! k = sy_jobs y ! k \<or> job_rank (sy_jobs y' ! k) < job_rank (sy_jobs y ! k)) \<and>
    (\<not> job_over (sy_jobs y ! k) \<longrightarrow>
       (\<exists>y'. system_exec g pf qa (next_action k (sy_jobs y ! k)) y = Some y' \<and>
          job_rank (sy_jobs y' ! k) < job_rank (sy_jobs y ! k)))"
  using job_rank_bound job_rank_falls[OF _ assms, of g pf qa] next_action_lowers[OF assms, of g pf qa]
  by (auto simp: system_step_def)

lemma pending_stays_with_job:
  assumes run: "schedule_runs g pf qa sched ys" and "\<forall>m. broker_inv (sy_broker (ys m))" and "aware pf"
    and k: "k < length (sy_jobs (ys n))" "job_run (sy_jobs (ys n) ! k) \<noteq> Run_done"
    and pend: "\<forall>m \<ge> n. pending_in (sy_broker (ys m)) (job_id (sy_jobs (ys n) ! k))" and "n \<le> m"
  shows "job_run (sy_jobs (ys m) ! k) \<noteq> Run_done"
  using assms(7)
proof (induction rule: dec_induct)
  case base
  then show ?case by (rule k(2))
next
  case (step m)
  have len: "k < length (sy_jobs (ys m))" and same: "job_id (sy_jobs (ys m) ! k) = job_id (sy_jobs (ys n) ! k)"
    using schedule_jobs[OF run k(1) step.hyps(1)] by simp_all
  have "pending_in (sy_broker (ys (Suc m))) (job_id (sy_jobs (ys m) ! k))"
    using pend step.hyps(1) by (simp add: same)
  from pending_task_goes_on[OF schedule_step[OF run] _ assms(3) len step.IH this] assms(2)
  show ?case by blast
qed

text \<open>
  Property C6.  No request stays pending for ever.  In every endless run of the service from a
  fresh process under an aware clock, with the actions in any order as long as no unfinished job
  waits for ever, a request that is pending at some point later ends, completes or is forgotten,
  unless its task was cancelled before its first step.  Creating a task is taken to fail with
  nothing but an \<open>Exception\<close>.
\<close>

theorem every_pending_request_ends:
  assumes "system_initial (ys 0)" and "schedule_runs g pf qa sched ys" and "fair sched ys"
    and "\<forall>m. ordinary (sched m)" and "\<forall>m. tz_aware (clock_at (pf_env pf) m)"
    and "pending_in (sy_broker (ys n)) i"
  shows "\<exists>m \<ge> n. \<not> pending_in (sy_broker (ys m)) i \<or>
    (\<exists>j \<in> set (sy_jobs (ys m)). job_id j = i \<and> job_run j = Run_abandoned)"
proof (rule ccontr)
  assume "\<not> ?thesis"
  then have pend: "\<forall>m \<ge> n. pending_in (sy_broker (ys m)) i"
    and live: "\<forall>m \<ge> n. \<forall>j \<in> set (sy_jobs (ys m)). job_id j = i \<longrightarrow> job_run j \<noteq> Run_abandoned" by blast+
  have "runs system_initial (ordinary_step g pf qa) (ys m)" for m
  proof (induction m)
    case 0
    from assms(1) show ?case by (rule runs_init)
  next
    case (Suc m)
    have "ordinary_step g pf qa (ys m) (ys (Suc m))"
      using assms(2,4) by (auto simp: ordinary_step_def schedule_runs_def)
    with Suc show ?case by (rule runs_step)
  qed
  from worked.reachable_inv[OF this] assms(5)
  have inv: "broker_inv (sy_broker (ys m))" "worked_on (ys m)" for m by blast+
  then obtain k where k: "k < length (sy_jobs (ys n))" "job_id (sy_jobs (ys n) ! k) = i"
    "job_run (sy_jobs (ys n) ! k) \<noteq> Run_done" using assms(6) unfolding worked_on_def by blast
  from fair_job_over[OF assms(2,3) k(1)] obtain m where m: "n \<le> m"
    "job_over (sy_jobs (ys m) ! k)" by blast
  have "job_run (sy_jobs (ys m) ! k) \<noteq> Run_done"
    by (rule pending_stays_with_job[OF assms(2) _ assms(5) k(1,3) _ m(1)]) (use inv pend k(2) in auto)
  moreover have "job_run (sy_jobs (ys m) ! k) \<noteq> Run_abandoned"
    using live m(1) schedule_jobs[OF assms(2) k(1) m(1)] k(2) by auto
  ultimately show False
    using m(2) by (cases "job_run (sy_jobs (ys m) ! k)") (auto simp: job_over_def)
qed

text \<open>Concrete endless runs: some actions to the end of every job, then a viewer that keeps listing.\<close>

definition then_listing ::
  "(nat, (nat, nat) batch_source) action list \<Rightarrow> nat \<Rightarrow> (nat, (nat, nat) batch_source) action"
where
  "then_listing as n = (if n < length as then as ! n else Act_call List_all)"

abbreviation sample_exec ::
  "(nat, (nat, nat) batch_source) action \<Rightarrow> (nat, nat, (nat, nat) batch_source) system \<Rightarrow>
   (nat, nat, (nat, nat) batch_source) system option" where
  "sample_exec \<equiv> system_exec sample_sqlglot sample_platform sample_query_admission"

abbreviation sample_exec_all ::
  "(nat, (nat, nat) batch_source) action list \<Rightarrow> (nat, nat, (nat, nat) batch_source) system \<Rightarrow>
   (nat, nat, (nat, nat) batch_source) system option" where
  "sample_exec_all \<equiv> system_run sample_sqlglot sample_platform sample_query_admission"

fun states_under ::
  "(nat \<Rightarrow> (nat, (nat, nat) batch_source) action) \<Rightarrow> nat \<Rightarrow> (nat, nat, (nat, nat) batch_source) system"
where
  "states_under sched 0 = sample_system"
| "states_under sched (Suc n) =
     (case sample_exec (sched n) (states_under sched n) of None \<Rightarrow> states_under sched n | Some y \<Rightarrow> y)"

lemma states_under_run:
  "sample_exec_all as y = Some y' \<Longrightarrow> states_under sched n = y \<Longrightarrow>
   (\<And>m. m < length as \<Longrightarrow> sched (n + m) = as ! m) \<Longrightarrow>
   states_under sched (n + length as) = y' \<and>
   (\<forall>m < length as. sample_exec (sched (n + m)) (states_under sched (n + m)) =
      Some (states_under sched (Suc (n + m))))"
proof (induction as arbitrary: y n)
  case Nil
  then show ?case by simp
next
  case (Cons a as)
  then obtain y1 where y1: "sample_exec a y = Some y1" "sample_exec_all as y1 = Some y'"
    by (auto split: option.splits)
  have head: "sched n = a" using Cons.prems(3)[of 0] by simp
  then have first: "states_under sched (Suc n) = y1" using y1(1) Cons.prems(2) by simp
  have "sched (Suc n + m) = as ! m" if "m < length as" for m
    using Cons.prems(3)[of "Suc m"] that by simp
  from Cons.IH[OF y1(2) first this] first y1(1) Cons.prems(2) head
  show ?case by (auto simp: less_Suc_eq_0_disj simp del: states_under.simps)
qed

lemma then_listing_run:
  assumes "sample_exec_all as sample_system = Some y" and "list_all job_over (sy_jobs y)"
  shows then_listing_runs: "schedule_runs sample_sqlglot sample_platform sample_query_admission
        (then_listing as) (states_under (then_listing as))"
    and then_listing_jobs: "length as \<le> n \<Longrightarrow> sy_jobs (states_under (then_listing as) n) = sy_jobs y"
    and then_listing_fair: "fair (then_listing as) (states_under (then_listing as))"
proof -
  let ?sched = "then_listing as"
  let ?ys = "states_under ?sched"
  have head: "?sched (0 + m) = as ! m" if "m < length as" for m
    using that by (simp add: then_listing_def)
  note finite = states_under_run[OF assms(1) states_under.simps(1) head, unfolded add_0]
  have tail: "sample_exec (?sched n) (?ys n) = Some (?ys (Suc n)) \<and> sy_jobs (?ys (Suc n)) = sy_jobs (?ys n)"
    if "length as \<le> n" for n
    using that by (simp add: then_listing_def)
  show runs: "schedule_runs sample_sqlglot sample_platform sample_query_admission ?sched ?ys"
    unfolding schedule_runs_def
  proof
    fix n
    show "sample_exec (?sched n) (?ys n) = Some (?ys (Suc n))"
      using finite tail[of n] by (cases "n < length as") simp_all
  qed
  have jobs: "sy_jobs (?ys n) = sy_jobs y" if "length as \<le> n" for n
    using that
  proof (induction rule: dec_induct)
    case base
    show ?case using finite by simp
  qed (use tail in simp)
  then show "length as \<le> n \<Longrightarrow> sy_jobs (?ys n) = sy_jobs y" .
  show "fair ?sched ?ys"
    unfolding fair_def
  proof (intro allI impI)
    fix m k
    assume "k < length (sy_jobs (?ys m))"
    from schedule_jobs[OF runs this, of "max (length as) m"] assms(2)
    show "\<exists>n \<ge> m. job_over (sy_jobs (?ys n) ! k) \<or> ?sched n = next_action k (sy_jobs (?ys n) ! k)"
      using jobs[of "max (length as) m"]
      by (intro exI[of _ "max (length as) m"]) (simp add: list_all_length)
  qed
qed

abbreviation sample_sched :: "nat \<Rightarrow> (nat, (nat, nat) batch_source) action" where
  "sample_sched \<equiv> then_listing (sample_start @ sample_rest)"

lemma sample_schedule_run:
  obtains y where "sample_exec_all (sample_start @ sample_rest) sample_system = Some y"
    "list_all job_over (sy_jobs y)"
proof -
  have "map_option (\<lambda>y. list_all job_over (sy_jobs y))
    (sample_exec_all (sample_start @ sample_rest) sample_system) = Some True" by code_simp
  with that show ?thesis by auto
qed

lemma sample_schedule_pending: "pending_in (sy_broker (states_under sample_sched 1)) sample_id"
proof -
  have "map_option (\<lambda>y. map_option rec_status (map_of (records (sy_broker y)) sample_id))
    (sample_exec (sample_start ! 0) sample_system) = Some (Some PENDING)" by code_simp
  moreover have "sample_sched 0 = sample_start ! 0"
    by (simp add: then_listing_def nth_append sample_start_def)
  ultimately show ?thesis by (auto simp: pending_in_def simp del: system_exec.simps)
qed

lemma sample_schedule_ordinary: "ordinary (sample_sched n)"
proof -
  have "list_all ordinary (sample_start @ sample_rest)" by (simp add: sample_start_def sample_rest_def)
  then show ?thesis by (simp add: then_listing_def list_all_length)
qed

theorem every_pending_request_ends_witness:
  "pending_in (sy_broker (states_under sample_sched 1)) sample_id \<and>
   (\<exists>m \<ge> 1. \<not> pending_in (sy_broker (states_under sample_sched m)) sample_id \<or>
      (\<exists>j \<in> set (sy_jobs (states_under sample_sched m)). job_id j = sample_id \<and> job_run j = Run_abandoned))"
proof
  have initial: "system_initial (states_under sample_sched 0)" using sample_system_initial by simp
  have clock: "\<forall>m. tz_aware (clock_at (pf_env sample_platform) m)"
    by (simp add: sample_platform_def steady_env_def)
  obtain y where y: "sample_exec_all (sample_start @ sample_rest) sample_system = Some y"
    "list_all job_over (sy_jobs y)" by (rule sample_schedule_run)
  show "pending_in (sy_broker (states_under sample_sched 1)) sample_id" by (rule sample_schedule_pending)
  from every_pending_request_ends[OF initial then_listing_runs[OF y] then_listing_fair[OF y] _ clock this]
  show "\<exists>m \<ge> 1. \<not> pending_in (sy_broker (states_under sample_sched m)) sample_id \<or>
      (\<exists>j \<in> set (sy_jobs (states_under sample_sched m)). job_id j = sample_id \<and> job_run j = Run_abandoned)"
    using sample_schedule_ordinary by blast
qed

theorem jobs_progress_witness:
  "\<exists>y y'. length (sy_jobs y) = 1 \<and> job_rank (sy_jobs y ! 0) \<le> 15 \<and> \<not> job_over (sy_jobs y ! 0) \<and>
     system_exec sample_sqlglot sample_platform sample_query_admission
       (next_action 0 (sy_jobs y ! 0)) y = Some y' \<and>
     job_rank (sy_jobs y' ! 0) < job_rank (sy_jobs y ! 0)"
proof -
  have "map_option (\<lambda>y. (length (sy_jobs y), map job_over (sy_jobs y)))
    (system_run sample_sqlglot sample_platform sample_query_admission sample_start sample_system) =
    Some (1, [False])" by code_simp
  then obtain y where
    "system_run sample_sqlglot sample_platform sample_query_admission sample_start sample_system = Some y"
    and jobs: "length (sy_jobs y) = 1" "map job_over (sy_jobs y) = [False]"
    by (auto simp del: system_run.simps)
  from jobs have y: "length (sy_jobs y) = 1" "\<not> job_over (sy_jobs y ! 0)" "0 < length (sy_jobs y)"
    by (cases "sy_jobs y"; simp)+
  from jobs_progress[OF y(3), of sample_sqlglot sample_platform sample_query_admission] y
  show ?thesis by blast
qed

end
