(* ===== verification/Broker_Live.thy ===== *)
theory Broker_Live
  imports Broker_Inv
begin

text \<open>
  Requests before their deadline.  While the clock stays before it, no call changes a complete
  request except its cancellation, and a call on a pending one does just what its body says.
\<close>

section \<open>Before the deadline\<close>

definition before_deadline :: "env \<Rightarrow> ('s, 'c) request_record \<Rightarrow> bool" where
  "before_deadline e r \<longleftrightarrow>
     (\<forall>n. tz_aware (clock_at e n) \<and> instant_of (clock_at e n) < rec_expires_at r)"

lemma before_deadline_clock [simp]:
  assumes "before_deadline e r"
  shows "tz_aware (clock_at e n)" and "\<not> rec_expires_at r \<le> instant_of (clock_at e n)"
  using assms by (simp_all add: before_deadline_def not_le)

lemma before_deadline_expire:
  "before_deadline e r \<Longrightarrow> \<exists>n'. expire e r n = (Inr None, r, n')"
  by (simp add: expire_def now_def)

lemma locked_record_live:
  assumes "map_of (records b) i = Some r" and "before_deadline e r"
    and "rec_status r = PENDING \<or> rec_status r = COMPLETE"
  shows "locked_record e i body b =
    (fst (body r), b\<lparr>records := AList.update i (snd (body r)) (records b),
       clock_reads := Suc (clock_reads b), trace := trace b @ [Lock_acquired, Lock_released]\<rparr>)"
proof -
  have "expire e r (clock_reads b) = (Inr None, r, Suc (clock_reads b))"
    using assms(2,3) by (auto simp: expire_def now_def)
  with assms(1) show ?thesis
    by (cases "body r") (simp add: locked_record_def Let_def log_event_def cancel_opt_def)
qed

text \<open>A call through the lock on another key, or whose body leaves the record, keeps it.\<close>

lemma locked_record_keeps:
  assumes "locked_record e j body b = (res, b')" and "map_of (records b) i = Some r"
    and "before_deadline e r" and "j = i \<Longrightarrow> snd (body r) = r"
  shows "map_of (records b') i = Some r"
  using assms(1)
proof (cases rule: locked_record_cases)
  case (ran r0 c r1 n r2)
  show ?thesis
  proof (cases "j = i")
    case True
    with ran(1,2) assms(2) before_deadline_expire[OF assms(3), of "clock_reads b"]
    have "r1 = r" by auto
    with True ran(3,4) assms(4) show ?thesis by (cases "body r") (auto simp: AList.update_conv')
  next
    case False
    with ran(4) assms(2) show ?thesis by (simp add: AList.update_conv')
  qed
qed (use assms(2) in simp_all)

lemma expire_all_keeps:
  "expire_all e rs n = (res, rs', n') \<Longrightarrow> map_of rs i = Some r \<Longrightarrow> before_deadline e r \<Longrightarrow>
   map_of rs' i = Some r"
proof (induction rs arbitrary: n res rs' n')
  case (Cons p rs)
  obtain j r0 where p: "p = (j, r0)" by fastforce
  obtain m r1 n1 where ex: "expire e r0 n = (m, r1, n1)" by (cases "expire e r0 n") auto
  have head: "r1 = r" if "j = i"
    using that Cons.prems(2,3) ex before_deadline_expire[of e r n] by (auto simp: p)
  show ?case
  proof (cases "j = i")
    case True
    with head Cons.prems(1) ex show ?thesis by (auto simp: p split: sum.splits prod.splits)
  next
    case False
    with Cons.prems(2) have r: "map_of rs i = Some r" by (simp add: p)
    obtain m2 rs2 n2 where rest: "expire_all e rs n1 = (m2, rs2, n2)"
      by (cases "expire_all e rs n1") auto
    from Cons.IH[OF rest r Cons.prems(3)] r Cons.prems(1) ex rest False show ?thesis
      by (auto simp: p split: sum.splits prod.splits)
  qed
qed simp

section \<open>Complete requests\<close>

definition complete_at :: "env \<Rightarrow> string \<Rightarrow> ('s, 'c) request_record \<Rightarrow> ('s, 'c) broker \<Rightarrow> bool" where
  "complete_at e i r b \<longleftrightarrow>
     map_of (records b) i = Some r \<and> rec_status r = COMPLETE \<and> before_deadline e r"

lemma enter_records_keeps:
  assumes "enter_records e b = (res, b')" and "complete_at e i r b"
  shows "complete_at e i r b'"
  using assms expire_all_keeps[of e "records b" "clock_reads b" _ _ _ i r]
  by (auto simp: enter_records_eq complete_at_def split: prod.splits)

lemma complete_at_exit [simp]: "complete_at e i r (exit_records cs b) \<longleftrightarrow> complete_at e i r b"
  by (simp add: complete_at_def exit_records_eq)

lemma make_room_keeps:
  assumes "make_room b = (res, b')" and "complete_at e i r b" and "distinct (keys (records b))"
  shows "complete_at e i r b'"
  using assms(1)
proof (cases rule: make_room_cases)
  case (evicted j r0)
  have "j \<noteq> i"
  proof
    assume "j = i"
    with evicted(4) assms(2,3) have "r0 = r" by (auto simp: complete_at_def dest: map_of_is_SomeI)
    with evicted(5) assms(2) show False by (simp add: evictable_def complete_at_def)
  qed
  with evicted(2) assms(2) show ?thesis by (simp add: complete_at_def delete_conv')
qed (use assms(2) in simp_all)

lemma submit_body_keeps:
  assumes "submit_body e ttl b = Some (res, b')" and "complete_at e i r b" and "distinct (keys (records b))"
  shows "complete_at e i r b'"
proof -
  obtain m b1 where mr: "make_room b = (m, b1)" by fastforce
  note b1 = make_room_keeps[OF mr assms(2,3)]
  have "complete_at e i r b'"
    if "insert_pending e ttl j (b1\<lparr>tokens_drawn := k\<rparr>) = (res, b')" "j \<notin> set (keys (records b1))" for j k
  proof -
    have "j \<noteq> i" using that(2) b1 by (auto simp: complete_at_def dest: map_of_in_keys)
    with that(1) b1 show ?thesis
      by (auto simp: insert_pending_def Let_def complete_at_def AList.update_conv'
          split: prod.splits sum.splits)
  qed
  with assms(1,2) mr b1 show ?thesis
    by (auto simp: submit_body_def split: if_splits sum.splits option.splits
        dest!: new_request_id_fresh)
qed

lemma body_keeps_complete [simp]:
  assumes "rec_status r = COMPLETE"
  shows "snd (register_body c r) = r" "snd (release_body c r) = r" "snd (publish_body s r) = r"
    "snd (fail_body r) = r" "snd (open_body r) = r"
  using assms by (simp_all add: broker_bodies split: option.splits)

lemma locked_keeps_complete:
  assumes "complete_at e i r b" and "\<And>r. rec_status r = COMPLETE \<Longrightarrow> snd (body r) = r"
  shows "complete_at e i r (snd (locked_record e j body b))"
proof -
  obtain res b' where lr: "locked_record e j body b = (res, b')" by fastforce
  with locked_record_keeps[OF lr] assms show ?thesis by (auto simp: complete_at_def)
qed

lemma complete_at_cancelled [simp]:
  "complete_at e i r (cancel_quietly c b) \<longleftrightarrow> complete_at e i r b"
  "complete_at e i r (cancel_opt c' b) \<longleftrightarrow> complete_at e i r b"
  by (auto simp: complete_at_def cancel_opt_def cancel_quietly_def log_event_def split: option.splits)

lemma broker_submit_keeps:
  assumes "broker_submit e ttl b = Some (res, b')" and "complete_at e i r b" and "broker_inv b"
  shows "complete_at e i r b'"
proof (cases "ttl \<le> 0")
  case True
  with assms show ?thesis by (simp add: broker_submit_def)
next
  case False
  obtain m b1 where en: "enter_records e b = (m, b1)" by fastforce
  note b1 = enter_records_keeps[OF en assms(2)]
  have "distinct (keys (records b1))"
    using enter_records_store_inv[OF en] assms(3) by (auto simp: broker_inv_def store_inv_def)
  with assms(1) False en b1 show ?thesis
    by (auto simp: broker_submit_def dest: submit_body_keeps split: sum.splits)
qed

lemma broker_exec_keeps:
  assumes "broker_exec e q b = Some b'" and "q \<noteq> Cancel i" and "complete_at e i r b" and "broker_inv b"
  shows "complete_at e i r b'"
proof (cases q)
  case (Submit ttl)
  with assms show ?thesis by (auto intro: broker_submit_keeps)
next
  case (Register j c)
  obtain res b1 where lr: "locked_record e j (register_body c) b = (res, b1)" by fastforce
  with locked_keeps_complete[OF assms(3), of "register_body c" j] have "complete_at e i r b1" by simp
  with assms(1) Register lr show ?thesis
    by (auto simp: register_cursor_def split: sum.splits option.splits if_splits)
next
  case (Release j c)
  with assms(1) locked_keeps_complete[OF assms(3), of "release_body c" j] show ?thesis
    by (auto simp: release_cursor_def)
next
  case (Publish j s)
  with assms(1) locked_keeps_complete[OF assms(3), of "publish_body s" j] show ?thesis
    by (auto simp: publish_def)
next
  case (Fail j)
  obtain res b1 where lr: "locked_record e j fail_body b = (res, b1)" by fastforce
  with locked_keeps_complete[OF assms(3), of fail_body j] have "complete_at e i r b1" by simp
  with assms(1) Fail lr show ?thesis
    by (auto simp: broker_fail_def with_cursor_cancelled_def split: sum.splits prod.splits)
next
  case (Cancel j)
  obtain res b1 where lr: "locked_record e j cancel_body b = (res, b1)" by fastforce
  have "complete_at e i r b1"
    using locked_record_keeps[OF lr] assms(2,3) Cancel by (auto simp: complete_at_def)
  with assms(1) Cancel lr show ?thesis
    by (auto simp: broker_cancel_def with_cursor_cancelled_def split: sum.splits prod.splits)
next
  case List_all
  with assms(1,3) show ?thesis
    by (auto simp: list_requests_def dest: enter_records_keeps split: sum.splits prod.splits)
next
  case (Get j)
  with assms(1) locked_keeps_complete[OF assms(3), of "\<lambda>r. (Inr (record_view r), r)" j] show ?thesis
    by (auto simp: get_request_def)
next
  case (Open j)
  with assms(1) locked_keeps_complete[OF assms(3), of open_body j] show ?thesis
    by (auto simp: open_source_def)
qed

text \<open>So whatever others do, short of cancelling it, a complete request stays as it is.\<close>

definition complete_kept :: "env \<Rightarrow> string \<Rightarrow> ('s, 'c) broker \<Rightarrow> ('s, 'c) broker \<Rightarrow> bool" where
  "complete_kept e i b b' \<longleftrightarrow>
     (broker_inv b \<longrightarrow> broker_inv b' \<and> (\<forall>r. complete_at e i r b \<longrightarrow> complete_at e i r b'))"

interpretation completing: call_relation e "complete_kept e i" "\<lambda>q. q \<noteq> Cancel i" for e i
proof unfold_locales
  show "complete_kept e i b b'" if "broker_exec e q b = Some b'" "q \<noteq> Cancel i" for q b b'
    using broker_exec_inv[OF that(1)] broker_exec_keeps[OF that] by (simp add: complete_kept_def)
qed (auto simp: complete_kept_def)

lemma open_complete:
  assumes "complete_at e i r b" and "rec_source r = Some s"
  obtains b' where "open_source e i b = (Inr s, b')" "complete_at e i r b'"
proof -
  obtain res b' where op: "open_source e i b = (res, b')" by fastforce
  moreover have "res = Inr s"
    using assms op locked_record_live[of b i r e open_body]
    by (auto simp: complete_at_def open_source_def open_body_def)
  moreover have "complete_at e i r b'"
    using locked_keeps_complete[OF assms(1), of open_body i] op by (simp add: open_source_def)
  ultimately show ?thesis using that by simp
qed

text \<open>A clock that stands still.\<close>

definition frozen_env :: env where
  "frozen_env = steady_env\<lparr>clock_at := \<lambda>n. \<lparr>instant_of = 0, tz_aware = True\<rparr>\<rparr>"

end
