(* ===== verification/Snowflake_Serve.thy ===== *)
theory Snowflake_Serve
  imports Snowflake_Live Broker_Live
begin

text \<open>
  What a query that meets no obstacle comes to: the result that is fetched is the driver's tables,
  batch for batch; and a submission whose driver calls succeed ends with that result in front of
  the viewer.
\<close>

section \<open>The fetched result\<close>

abbreviation yielded :: "('m, 'x) arrow_table list \<Rightarrow> ('m, 'x) table_object result list" where
  "yielded \<equiv> map (\<lambda>t. Inr (Arrow_table t))"

text \<open>
  The tables a fetch delivers: those the driver yields, the first of them first; or, when it
  yields none (or \<open>None\<close> in the first place), the empty table of its first result batch.
\<close>

definition delivered ::
  "('n, 'c, 'm, 'x) driver \<Rightarrow> ('n, 'c) driver_log \<Rightarrow> 'c \<Rightarrow> ('m, 'x) table_object result list \<Rightarrow>
   ('m, 'x) arrow_table list \<Rightarrow> bool"
where
  "delivered d calls c tables ts \<longleftrightarrow>
     (ts \<noteq> [] \<and> tables = yielded ts) \<or>
     (\<exists>t us. ts = t # us \<and> empty_result_table d calls c = Inr t \<and>
        (tables = [] \<and> us = [] \<or> tables = Inr None_object # yielded us))"

lemma as_items_append:
  "as_items bs @ items = as_items cs \<longleftrightarrow> (\<exists>ds. cs = bs @ ds \<and> items = as_items ds)"
proof (induction bs arbitrary: cs)
  case (Cons b bs)
  then show ?case by (cases cs) auto
qed simp

lemma record_batches_items:
  "record_batches s items = as_items bs \<longleftrightarrow>
     (\<exists>ts. items = yielded ts \<and> (\<forall>t \<in> set ts. table_schema t = s) \<and> bs = concat (map table_batches ts))"
proof (induction items arbitrary: bs)
  case Nil
  then show ?case by auto
next
  case (Cons item items)
  show ?case
  proof (cases "\<exists>t. item = Inr (Arrow_table t)")
    case False
    then have "record_batches s (item # items) = [Inl (case item of Inl x \<Rightarrow> x | Inr obj \<Rightarrow> ArrowAdmissionError)]"
      by (cases item; cases "projr item") auto
    with False show ?thesis by (auto simp: Cons_eq_map_conv map_eq_Cons_conv)
  next
    case True
    then obtain t where item: "item = Inr (Arrow_table t)" by blast
    show ?thesis
    proof (cases "table_schema t = s")
      case False
      then show ?thesis by (auto simp: item Cons_eq_map_conv map_eq_Cons_conv)
    next
      case True
      have "record_batches s (item # items) = as_items bs \<longleftrightarrow>
          (\<exists>cs. bs = table_batches t @ cs \<and> record_batches s items = as_items cs)"
        using True as_items_append[of "table_batches t" "record_batches s items" bs] by (simp add: item)
      also have "\<dots> \<longleftrightarrow> (\<exists>us. items = yielded us \<and> (\<forall>t \<in> set us. table_schema t = s) \<and>
          bs = table_batches t @ concat (map table_batches us))"
        unfolding Cons.IH by blast
      also have "\<dots> \<longleftrightarrow> (\<exists>ts. item # items = yielded ts \<and> (\<forall>t \<in> set ts. table_schema t = s) \<and>
          bs = concat (map table_batches ts))"
      proof
        assume "\<exists>us. items = yielded us \<and> (\<forall>t \<in> set us. table_schema t = s) \<and>
          bs = table_batches t @ concat (map table_batches us)"
        then obtain us where "items = yielded us" "\<forall>t \<in> set us. table_schema t = s"
          "bs = table_batches t @ concat (map table_batches us)" by blast
        with True show "\<exists>ts. item # items = yielded ts \<and> (\<forall>t \<in> set ts. table_schema t = s) \<and>
          bs = concat (map table_batches ts)" by (intro exI[of _ "t # us"]) (simp add: item)
      qed (auto simp: item Cons_eq_map_conv)
      finally show ?thesis .
    qed
  qed
qed

lemma first_table_delivered:
  "first_table d calls c tables = Inr (first, yielded us) \<longleftrightarrow> delivered d calls c tables (first # us)"
proof (cases tables)
  case Nil
  then show ?thesis by (auto simp: first_table_def delivered_def then_do_Inr_iff)
next
  case (Cons item items)
  show ?thesis
  proof (cases item)
    case (Inl x)
    with Cons show ?thesis by (auto simp: first_table_def delivered_def)
  next
    case (Inr obj)
    with Cons show ?thesis
      by (cases obj) (auto simp: first_table_def delivered_def then_do_Inr_iff)
  qed
qed

lemma fetched_iff:
  assumes "dr_fetch (pf_driver pf) calls c = Inr tables"
  shows "fetch_admitted_result pf calls c = Inr src \<longleftrightarrow>
    (\<exists>ts. delivered (pf_driver pf) (calls @ [Fetched c]) c tables ts \<and>
       (\<forall>t \<in> set ts. table_schema t = source_schema src) \<and>
       source_batches src = concat (map table_batches ts) \<and>
       admissible (pf_writer pf) (source_schema src) MVP_ARROW_LIMITS (source_batches src))"
proof -
  let ?first = "first_table (pf_driver pf) (calls @ [Fetched c]) c tables"
  have "fetch_admitted_result pf calls c = Inr src \<longleftrightarrow>
      (\<exists>t us. ?first = Inr (t, yielded us) \<and> source_schema src = table_schema t \<and>
        (\<forall>u \<in> set us. table_schema u = table_schema t) \<and>
        source_batches src = concat (map table_batches (t # us)) \<and>
        admissible (pf_writer pf) (table_schema t) MVP_ARROW_LIMITS (source_batches src))"
  proof -
    have items: "record_batches (table_schema t) (Inr (Arrow_table t) # rest) = as_items bs \<longleftrightarrow>
        (\<exists>us. rest = yielded us \<and> (\<forall>u \<in> set us. table_schema u = table_schema t) \<and>
           bs = concat (map table_batches (t # us)))" for t rest bs
      by (auto simp: as_items_append record_batches_items)
    have "fetch_admitted_result pf calls c = Inr src \<longleftrightarrow>
      (\<exists>t rest. ?first = Inr (t, rest) \<and>
         fst (admit_record_batches (pf_writer pf) (table_schema t)
           (record_batches (table_schema t) (Inr (Arrow_table t) # rest)) MVP_ARROW_LIMITS) = Inr src)"
      by (simp add: fetch_admitted_result_def assms then_do_Inr_iff)
    also have "\<dots> \<longleftrightarrow> (\<exists>t rest. ?first = Inr (t, rest) \<and> source_schema src = table_schema t \<and>
        record_batches (table_schema t) (Inr (Arrow_table t) # rest) = as_items (source_batches src) \<and>
        admissible (pf_writer pf) (table_schema t) MVP_ARROW_LIMITS (source_batches src))"
      unfolding admission_exact_iff[OF MVP_ARROW_LIMITS_built] ..
    finally show ?thesis unfolding items by blast
  qed
  also have "\<dots> \<longleftrightarrow> (\<exists>t us. delivered (pf_driver pf) (calls @ [Fetched c]) c tables (t # us) \<and>
        (\<forall>u \<in> set (t # us). table_schema u = source_schema src) \<and>
        source_batches src = concat (map table_batches (t # us)) \<and>
        admissible (pf_writer pf) (source_schema src) MVP_ARROW_LIMITS (source_batches src))"
    unfolding first_table_delivered by (intro ex_cong1) auto
  also have "\<dots> \<longleftrightarrow> (\<exists>ts. delivered (pf_driver pf) (calls @ [Fetched c]) c tables ts \<and>
       (\<forall>t \<in> set ts. table_schema t = source_schema src) \<and>
       source_batches src = concat (map table_batches ts) \<and>
       admissible (pf_writer pf) (source_schema src) MVP_ARROW_LIMITS (source_batches src))"
  proof -
    have "\<not> delivered (pf_driver pf) (calls @ [Fetched c]) c tables []" by (simp add: delivered_def)
    then show ?thesis by (metis neq_Nil_conv)
  qed
  finally show ?thesis .
qed

text \<open>
  Property C11.  The result that is fetched is what the driver delivered, all of it and nothing
  else.  Once the driver has answered the fetch, a source is returned exactly when every table it
  yields has the schema of the first, the batches of all tables together meet every limit, and
  the source is made of exactly these batches in their order; a result without any table is the
  empty table of the driver's first result batch.
\<close>

theorem fetched_result_exact:
  assumes "dr_fetch (pf_driver pf) calls c = Inr tables"
  shows "fetch_admitted_result pf calls c = Inr src \<longleftrightarrow>
    (\<exists>ts. delivered (pf_driver pf) (calls @ [Fetched c]) c tables ts \<and>
       (\<forall>t \<in> set ts. table_schema t = source_schema src) \<and>
       source_batches src = concat (map table_batches ts) \<and>
       admissible (pf_writer pf) (source_schema src) MVP_ARROW_LIMITS (source_batches src))"
  using assms by (rule fetched_iff)

theorem fetched_result_exact_witness:
  "fetch_admitted_result sample_platform [] 7 = Inr sample_result \<and>
   source_batches sample_result = concat (map table_batches [sample_arrow_table])"
proof -
  have fetch: "dr_fetch (pf_driver sample_platform) [] 7 = Inr (yielded [sample_arrow_table])"
    by (simp add: sample_platform_def)
  have "delivered (pf_driver sample_platform) ([] @ [Fetched 7]) 7 (yielded [sample_arrow_table])
      [sample_arrow_table]" by (simp add: delivered_def)
  then have "fetch_admitted_result sample_platform [] 7 = Inr sample_result"
    unfolding fetched_result_exact[OF fetch] using sample_admissible
    by (intro exI[of _ "[sample_arrow_table]"])
      (simp add: sample_arrow_table_def sample_result_def sample_platform_def)
  then show ?thesis by (simp add: sample_arrow_table_def sample_result_def)
qed

section \<open>An undisturbed execution\<close>

text \<open>A driver all of whose calls succeed, and a standard output that can be written.\<close>

definition obliging :: "('n, 'c, 'm, 'x) platform \<Rightarrow> ('n, 'c) query_admission \<Rightarrow> bool" where
  "obliging pf qa \<longleftrightarrow>
     (\<forall>calls. is_ok ((case qa_connect qa of None \<Rightarrow> connect_default (pf_driver pf) | Some f \<Rightarrow> f)
        calls (qa_arguments qa))) \<and>
     (\<forall>calls n. is_ok (dr_cursor (pf_driver pf) calls n)) \<and>
     (\<forall>calls c sql t. dr_execute (pf_driver pf) calls c sql t = Inr ()) \<and>
     (\<forall>calls c. dr_close_cursor (pf_driver pf) calls c = Inr ()) \<and>
     (\<forall>calls n. dr_close_connection (pf_driver pf) calls n = Inr ()) \<and>
     (\<forall>printed. pf_stdout pf printed = Inr ())"

lemma obliging_opens:
  assumes "obliging pf qa"
  shows "\<exists>n. open_connection (pf_driver pf) (qa_connect qa) (qa_arguments qa) st = (Inr n, note_call (Connected n) st)"
    and "\<exists>c. open_cursor (pf_driver pf) n st' = (Inr c, note_call (Cursor_opened n c) st')"
proof -
  let ?f = "case qa_connect qa of None \<Rightarrow> connect_default (pf_driver pf) | Some f \<Rightarrow> f"
  have "is_ok (?f (conn_log st) (qa_arguments qa))" "is_ok (dr_cursor (pf_driver pf) (conn_log st') n)"
    using assms unfolding obliging_def by blast+
  then obtain n' c where "?f (conn_log st) (qa_arguments qa) = Inr n'"
    "dr_cursor (pf_driver pf) (conn_log st') n = Inr c" unfolding is_ok_iff by blast
  then show "\<exists>n. open_connection (pf_driver pf) (qa_connect qa) (qa_arguments qa) st = (Inr n, note_call (Connected n) st)"
    and "\<exists>c. open_cursor (pf_driver pf) n st' = (Inr c, note_call (Cursor_opened n c) st')"
    by (simp_all add: open_connection_def open_cursor_def)
qed

lemma start_live:
  assumes "map_of (records b) i = Some r" and "before_deadline e r" and "rec_status r = PENDING"
    and "rec_cursor r = None"
  obtains b' where "mark_started e i (Some c) b = (Inr (), b')"
    "records b' = AList.update i (r\<lparr>rec_cursor := Some c\<rparr>) (records b)"
  using locked_record_live[OF assms(1,2), of "register_body c"] assms(3,4) that
  by (simp add: mark_started_def register_cursor_def register_body_def Let_def)

lemma release_live:
  assumes "map_of (records b) i = Some r" and "before_deadline e r" and "rec_status r = PENDING"
    and "rec_cursor r = Some c"
  obtains b' where "release_started e i (Some c) b = (Inr (), b')"
    "records b' = AList.update i (r\<lparr>rec_cursor := None\<rparr>) (records b)"
  using locked_record_live[OF assms(1,2), of "release_body c"] assms(3,4) that
  by (simp add: release_started_def release_cursor_def release_body_def suppress_unavailable_def)

lemma publish_live:
  assumes "map_of (records b) i = Some r" and "before_deadline e r" and "rec_status r = PENDING"
  obtains v b' where "publish e i s b = (Inr v, b')"
    "complete_at e i (r\<lparr>rec_source := Some s, rec_cursor := None, rec_status := COMPLETE\<rparr>) b'"
  using locked_record_live[OF assms(1,2), of "publish_body s"] assms(2,3) that
  by (simp add: publish_def publish_body_def Let_def complete_at_def AList.update_conv'
      before_deadline_def)

text \<open>What such a query does to the driver, from its connection to its last close.\<close>

definition clean_calls :: "'n \<Rightarrow> 'c \<Rightarrow> string \<Rightarrow> ('n, 'c) driver_log" where
  "clean_calls n c sql =
     [Connected n, Cursor_opened n c, Executed c sql MVP_STATEMENT_TIMEOUT_SECONDS, Fetched c,
      Cursor_closed c, Connection_closed n]"

lemma clean_execution:
  assumes "obliging pf qa" and "\<not> sv_active st" and "map_of (records (sv_broker st)) i = Some r"
    and "before_deadline (pf_env pf) r" and "rec_status r = PENDING" and "rec_cursor r = None"
    and "\<And>calls c. fetch_admitted_result pf calls c = Inr src"
  obtains st' n c where "execute_request pf qa i sql st = (Inr src, st')" "\<not> sv_active st'"
    "map_of (records (sv_broker st')) i = Some r" "conn_log st' = conn_log st @ clean_calls n c sql"
proof -
  define st0 where "st0 = st\<lparr>sv_active := True,
    conn_logger := suppress_connector_logs (conn_logger st)\<rparr>"
  obtain n where conn: "open_connection (pf_driver pf) (qa_connect qa) (qa_arguments qa) st0 =
      (Inr n, note_call (Connected n) st0)"
    using obliging_opens(1)[OF assms(1)] by blast
  define st1 where "st1 = note_call (Connected n) st0"
  obtain c where cur: "open_cursor (pf_driver pf) n st1 = (Inr c, note_call (Cursor_opened n c) st1)"
    using obliging_opens(2)[OF assms(1)] by blast
  define st2 where "st2 = note_call (Cursor_opened n c) st1"
  have b2: "sv_broker st2 = sv_broker st" by (simp add: st2_def st1_def st0_def note_call_def)
  obtain b3 where b3: "mark_started (pf_env pf) i (Some c) (sv_broker st2) = (Inr (), b3)"
    "records b3 = AList.update i (r\<lparr>rec_cursor := Some c\<rparr>) (records (sv_broker st))"
    using start_live[OF assms(3-6)] b2 by metis
  define r3 where "r3 = r\<lparr>rec_cursor := Some c\<rparr>"
  have r3: "map_of (records b3) i = Some r3" "before_deadline (pf_env pf) r3"
    "rec_status r3 = PENDING" "rec_cursor r3 = Some c"
    using assms(4,5) by (simp_all add: r3_def b3(2) AList.update_conv' before_deadline_def)
  obtain b4 where b4: "release_started (pf_env pf) i (Some c) b3 = (Inr (), b4)"
    "records b4 = AList.update i (r3\<lparr>rec_cursor := None\<rparr>) (records b3)"
    using release_live[OF r3] by metis
  have r4: "map_of (records b4) i = Some r" using assms(6) by (simp add: b4(2) r3_def AList.update_conv')
  define st3 where "st3 = st2\<lparr>sv_broker := b3\<rparr>"
  define st4 where "st4 = note_call (Fetched c) (note_call (Executed c sql MVP_STATEMENT_TIMEOUT_SECONDS)
    (st3\<lparr>sv_printed := sv_printed st3 @ [execution_notice i sql]\<rparr>))"
  define st5 where "st5 = st4\<lparr>sv_broker := b4\<rparr>"
  have start: "start_cursor pf i c st2 = (Inr (), st3)" by (simp add: start_cursor_def b3(1) st3_def)
  have run: "run_query pf i sql c st3 = (Inr src, st4)"
    using assms(1,7)
    by (simp add: obliging_def run_query_def execute_statement_def print_line_def fetch_step_def st4_def)
  have "sv_broker st4 = b3" by (simp add: st4_def st3_def note_call_def)
  then have give_back: "give_back_cursor pf i c st4 = (Inr (), st5)"
    by (simp add: give_back_cursor_def b4(1) st5_def)
  have body: "with_started_cursor pf i sql c st2 = (Inr src, st5)"
    by (simp add: with_started_cursor_def try_finally_def start run give_back finally_outcome_def)
  define st6 where "st6 = note_call (Connection_closed n) (note_call (Cursor_closed c) st5)"
  have "request_cursor (pf_driver pf) (qa_connect qa) (qa_arguments qa) (with_started_cursor pf i sql)
      (st\<lparr>sv_active := True\<rparr>) = (Inr src, st6)"
  proof -
    have "(st\<lparr>sv_active := True\<rparr>)\<lparr>conn_logger := suppress_connector_logs (conn_logger (st\<lparr>sv_active := True\<rparr>))\<rparr> = st0"
      by (simp add: st0_def)
    then show ?thesis
      using assms(1)
      by (simp add: request_cursor_def conn st1_def[symmetric] try_finally_def cur st2_def[symmetric] body
          close_cursor_def close_connection_def obliging_def finally_outcome_def st6_def)
  qed
  then have "execute_request pf qa i sql st = (Inr src, st6\<lparr>sv_active := False\<rparr>)"
    using assms(2) by (simp add: execute_request_def try_finally_def release_active_def finally_outcome_def)
  moreover have "sv_broker st6 = b4" by (simp add: st6_def st5_def note_call_def)
  moreover have "conn_log st6 = conn_log st @ clean_calls n c sql"
    by (simp add: st6_def st5_def st4_def st3_def st2_def st1_def st0_def note_call_def clean_calls_def)
  ultimately show ?thesis using r4 by (intro that[of "st6\<lparr>sv_active := False\<rparr>" n c]) simp_all
qed

section \<open>The way of one job\<close>

definition at_job ::
  "('n, 'c, 's) system \<Rightarrow> nat \<Rightarrow> ('n, 'c, 's) job \<Rightarrow> ('n, 'c, 's) service \<Rightarrow> bool" where
  "at_job y k j sv \<longleftrightarrow> k < length (sy_jobs y) \<and> sy_jobs y ! k = j \<and> sy_service y = sv"

lemma resume_at_job:
  assumes "at_job y k j sv" and "event_possible ev j"
    and "run_step (pf_env pf) (job_id j) ev (job_run j, sv_broker sv) = Some (ph, b')"
  shows "\<exists>y'. system_exec g pf qa (Act_resume k ev) y = Some y' \<and>
    at_job y' k (j\<lparr>job_run := ph\<rparr>) (sv\<lparr>sv_broker := b'\<rparr>)"
  using assms by (simp add: at_job_def sy_broker_def with_broker_def set_job_def)

lemma start_at_job:
  assumes "at_job y k j sv" and "worker_may_start j"
  shows "\<exists>y'. system_exec g pf qa (Act_start k) y = Some y' \<and>
    at_job y' k (j\<lparr>job_worker := Some Wk_created\<rparr>) sv"
  using assms by (simp add: at_job_def set_job_def)

lemma thread_at_job:
  "at_job y k j sv \<Longrightarrow> job_worker j = Some wk \<Longrightarrow>
   worker_run pf qa (job_id j) (job_sql j) m (wk, sv) = (wk', sv') \<Longrightarrow>
   \<exists>y'. system_run g pf qa (replicate m (Act_step k)) y = Some y' \<and>
     at_job y' k (j\<lparr>job_worker := Some wk'\<rparr>) sv'"
proof (induction m arbitrary: y j sv wk)
  case 0
  then have "wk' = wk" and sv: "sv' = sv" by simp_all
  with 0(2) have "j\<lparr>job_worker := Some wk'\<rparr> = j" by (cases j) simp
  with 0(1) sv show ?case by simp
next
  case (Suc m)
  obtain wk1 sv1 where step: "worker_step pf qa (job_id j) (job_sql j) (wk, sv) = (wk1, sv1)" by fastforce
  define y1 where "y1 = set_job k (j\<lparr>job_worker := Some wk1\<rparr>) (y\<lparr>sy_service := sv1\<rparr>)"
  have exec: "system_exec g pf qa (Act_step k) y = Some y1"
    using Suc.prems(1,2) step by (simp add: at_job_def Let_def y1_def)
  have "at_job y1 k (j\<lparr>job_worker := Some wk1\<rparr>) sv1"
    using Suc.prems(1) by (simp add: at_job_def y1_def set_job_def)
  from Suc.IH[OF this] Suc.prems(3) step have
    "\<exists>y'. system_run g pf qa (replicate m (Act_step k)) y1 = Some y' \<and> at_job y' k (j\<lparr>job_worker := Some wk'\<rparr>) sv'"
    by simp
  with exec show ?case by simp
qed

lemma system_run_append:
  "system_run g pf qa (as @ as') y =
   (case system_run g pf qa as y of None \<Rightarrow> None | Some y' \<Rightarrow> system_run g pf qa as' y')"
  by (induction as arbitrary: y) (auto split: option.splits)

text \<open>From its submission to its end, by the actions the runtime takes for it when nobody else acts.\<close>

definition clean_query ::
  "nat \<Rightarrow> string \<Rightarrow> timedelta \<Rightarrow> 's \<Rightarrow> ('c, 's) action list" where
  "clean_query k sql ttl s =
     [Act_submit sql ttl (Inr ()), Act_resume k (Started (Inr ())), Act_start k] @
     replicate 10 (Act_step k) @
     [Act_resume k (Woken False True), Act_resume k (Work_ended (Inr s)),
      Act_resume k (Expiry_settled (Inl CancelledError))]"

lemma clean_submission:
  assumes "\<not> exec_closed (sy_executor y)" and "authorize g (qa_policy qa) sql = Inr governed"
    and "broker_submit (pf_env pf) ttl (sy_broker y) = Some (Inr v, b)"
  obtains y' where "system_exec g pf qa (Act_submit sql ttl (Inr ())) y = Some y'"
    "executor_submit (pf_env pf) (admission_call g qa) (Inr ()) sql ttl (sy_executor y) (sy_broker y) =
      Some (Inr \<lparr>sub_request = v, sub_governed_sql = governed\<rparr>, sy_executor y', sy_broker y')"
    "at_job y' (length (sy_jobs y))
      \<lparr>job_id = view_id v, job_sql = governed, job_run = Run_created, job_worker = None\<rparr>
      ((sy_service y)\<lparr>sv_broker := b\<rparr>)"
proof -
  define x where "x = (sy_executor y)\<lparr>exec_tasks := exec_tasks (sy_executor y) @ [(v, governed)]\<rparr>"
  have "executor_submit (pf_env pf) (admission_call g qa) (Inr ()) sql ttl (sy_executor y) (sy_broker y) =
      Some (Inr \<lparr>sub_request = v, sub_governed_sql = governed\<rparr>, x, b)"
    using assms by (simp add: executor_submit_def admission_call_def schedule_def x_def)
  then show ?thesis
    by (intro that[of "with_broker b y\<lparr>sy_executor := x, sy_jobs := sy_jobs y @ [new_job (v, governed)]\<rparr>"])
      (simp_all add: x_def at_job_def new_job_def with_broker_def nth_append sy_broker_def)
qed

lemma clean_task:
  assumes at: "at_job y k \<lparr>job_id = i, job_sql = sql, job_run = Run_created, job_worker = None\<rparr> sv"
    and "execute_request pf qa i sql sv = (Inr src, sv')"
    and "publish (pf_env pf) i src (sv_broker sv') = (Inr v, b')"
  shows "\<exists>y'. system_run g pf qa (tl (clean_query k sql' ttl src)) y = Some y' \<and>
    sy_service y' = sv'\<lparr>sv_broker := b'\<rparr>"
proof -
  let ?j = "\<lparr>job_id = i, job_sql = sql, job_run = Run_created, job_worker = None\<rparr>"
  have "run_step (pf_env pf) i (Started (Inr ())) (Run_created, sv_broker sv) = Some (Run_waiting, sv_broker sv)"
    by simp
  with resume_at_job[OF at, of "Started (Inr ())" pf] obtain y1 where
    y1: "system_exec g pf qa (Act_resume k (Started (Inr ()))) y = Some y1"
    "at_job y1 k (?j\<lparr>job_run := Run_waiting\<rparr>) sv" by (fastforce simp: event_possible_def)
  with start_at_job[OF y1(2)] obtain y2 where y2: "system_exec g pf qa (Act_start k) y1 = Some y2"
    "at_job y2 k (?j\<lparr>job_run := Run_waiting, job_worker := Some Wk_created\<rparr>) sv"
    by (fastforce simp: worker_may_start_def)
  have "worker_run pf qa i sql (10 + 0) (Wk_created, sv) = (Wk_done (Inr src), sv')"
    using execute_request_settles[OF assms(2)] unfolding settles_def fst_conv snd_conv by (rule spec)
  then have thread: "worker_run pf qa i sql 10 (Wk_created, sv) = (Wk_done (Inr src), sv')"
    by (simp only: add_0_right)
  with thread_at_job[OF y2(2), of Wk_created pf qa 10 "Wk_done (Inr src)" sv'] obtain y3 where
    y3: "system_run g pf qa (replicate 10 (Act_step k)) y2 = Some y3"
    "at_job y3 k (?j\<lparr>job_run := Run_waiting, job_worker := Some (Wk_done (Inr src))\<rparr>) sv'"
    by (auto simp del: worker_run.simps system_run.simps replicate.simps)
  from resume_at_job[OF y3(2), of "Woken False True" pf] obtain y4 where
    y4: "system_exec g pf qa (Act_resume k (Woken False True)) y3 = Some y4"
    "at_job y4 k (?j\<lparr>job_run := Run_awaiting, job_worker := Some (Wk_done (Inr src))\<rparr>) sv'"
    by (auto simp: event_possible_def)
  from resume_at_job[OF y4(2), of "Work_ended (Inr src)" pf] obtain y5 where
    y5: "system_exec g pf qa (Act_resume k (Work_ended (Inr src))) y4 = Some y5"
    "at_job y5 k (?j\<lparr>job_run := Run_settling src, job_worker := Some (Wk_done (Inr src))\<rparr>) sv'"
    by (auto simp: event_possible_def)
  from resume_at_job[OF y5(2), of "Expiry_settled (Inl CancelledError)" pf] assms(3) obtain y6 where
    y6: "system_exec g pf qa (Act_resume k (Expiry_settled (Inl CancelledError))) y5 = Some y6"
    "at_job y6 k (?j\<lparr>job_run := Run_done, job_worker := Some (Wk_done (Inr src))\<rparr>) (sv'\<lparr>sv_broker := b'\<rparr>)"
    by (auto simp: event_possible_def)
  have "system_run g pf qa (tl (clean_query k sql' ttl src)) y = Some y6"
    using y1(1) y2(1) y3(1) y4(1) y5(1) y6(1)
    by (simp add: clean_query_def system_run_append del: system_exec.simps replicate.simps)
  with y6(2) show ?thesis by (simp add: at_job_def)
qed

section \<open>Served\<close>

lemma clean_query_runs:
  assumes "\<not> exec_closed (sy_executor y)" and "\<not> sv_active (sy_service y)" and "broker_inv (sy_broker y)"
    and "authorize g (qa_policy qa) sql = Inr governed"
    and submit: "broker_submit (pf_env pf) ttl (sy_broker y) = Some (Inr v, b)"
    and "obliging pf qa"
    and clock: "\<And>n. tz_aware (clock_at (pf_env pf) n)"
      "\<And>n. instant_of (clock_at (pf_env pf) n) < view_expires_at v"
    and fetch: "\<And>calls c. dr_fetch (pf_driver pf) calls c = Inr (yielded ts)"
    and ts: "ts \<noteq> []" "\<And>t. t \<in> set ts \<Longrightarrow> table_schema t = source_schema src"
      "source_batches src = concat (map table_batches ts)"
    and adm: "admissible (pf_writer pf) (source_schema src) MVP_ARROW_LIMITS (source_batches src)"
  obtains y1 y' n c r where "system_exec g pf qa (Act_submit sql ttl (Inr ())) y = Some y1"
    "executor_submit (pf_env pf) (admission_call g qa) (Inr ()) sql ttl (sy_executor y) (sy_broker y) =
      Some (Inr \<lparr>sub_request = v, sub_governed_sql = governed\<rparr>, sy_executor y1, sy_broker y1)"
    "system_run g pf qa (tl (clean_query (length (sy_jobs y)) sql ttl src)) y1 = Some y'"
    "conn_log (sy_service y') = conn_log (sy_service y) @ clean_calls n c governed"
    "\<not> sv_active (sy_service y')" "broker_inv (sy_broker y')"
    "complete_at (pf_env pf) (view_id v) r (sy_broker y')" "rec_source r = Some src"
proof -
  let ?i = "view_id v" and ?k = "length (sy_jobs y)"
  have fetched: "fetch_admitted_result pf calls c = Inr src" for calls c
    unfolding fetched_iff[OF fetch] using ts adm by (intro exI[of _ ts]) (simp add: delivered_def)
  from submit_new_record[OF submit assms(3)] obtain rs r where
    r: "records b = rs @ [(?i, r)]" "?i \<notin> set (keys rs)" "record_view r = v"
      "rec_cursor r = None" and pend: "view_status v = PENDING" by blast
  have rec: "map_of (records b) ?i = Some r" using r(1,2) by (auto simp: map_add_Some_iff dest: map_of_SomeD intro!: map_of_eq_None_iff[THEN iffD2])
  have pending: "rec_status r = PENDING" and due: "rec_expires_at r = view_expires_at v"
    using pend r(3) by (auto simp: record_view_def)
  have before: "before_deadline (pf_env pf) r" using clock by (simp add: before_deadline_def due)
  obtain y1 where
    y1: "system_exec g pf qa (Act_submit sql ttl (Inr ())) y = Some y1"
    and x1: "executor_submit (pf_env pf) (admission_call g qa) (Inr ()) sql ttl (sy_executor y) (sy_broker y) =
      Some (Inr \<lparr>sub_request = v, sub_governed_sql = governed\<rparr>, sy_executor y1, sy_broker y1)"
    and at1: "at_job y1 ?k \<lparr>job_id = ?i, job_sql = governed, job_run = Run_created, job_worker = None\<rparr>
      ((sy_service y)\<lparr>sv_broker := b\<rparr>)"
    by (rule clean_submission[OF assms(1,4) submit])
  have "\<not> sv_active ((sy_service y)\<lparr>sv_broker := b\<rparr>)"
    "map_of (records (sv_broker ((sy_service y)\<lparr>sv_broker := b\<rparr>))) ?i = Some r"
    using assms(2) rec by simp_all
  from clean_execution[OF assms(6) this before pending r(4) fetched, where sql = governed] obtain st' n c where
    ran: "execute_request pf qa ?i governed ((sy_service y)\<lparr>sv_broker := b\<rparr>) = (Inr src, st')"
    "\<not> sv_active st'" "map_of (records (sv_broker st')) ?i = Some r"
    "conn_log st' = conn_log (sy_service y) @ clean_calls n c governed" by auto
  from publish_live[OF ran(3) before pending] obtain w b1 where
    pub: "publish (pf_env pf) ?i src (sv_broker st') = (Inr w, b1)"
    "complete_at (pf_env pf) ?i (r\<lparr>rec_source := Some src, rec_cursor := None, rec_status := COMPLETE\<rparr>) b1"
    by blast
  from clean_task[OF at1 ran(1) pub(1), of g sql ttl] obtain y' where
    y': "system_run g pf qa (tl (clean_query ?k sql ttl src)) y1 = Some y'"
    "sy_service y' = st'\<lparr>sv_broker := b1\<rparr>" by blast
  have steps: "(system_step g pf qa)\<^sup>*\<^sup>* y y'"
    using y1 system_run_steps[OF y'(1)]
    by (blast intro: converse_rtranclp_into_rtranclp[of "system_step g pf qa"] system_step_def[THEN iffD2])
  have "sy_broker y' = b1" "sy_service y' = st'\<lparr>sv_broker := b1\<rparr>"
    using y'(2) by (simp_all add: sy_broker_def)
  with y'(1) ran(2,4) pub(2) service.steps_inv[OF steps assms(3)] show ?thesis
    by (intro that[OF y1 x1 y'(1), of n c "r\<lparr>rec_source := Some src, rec_cursor := None, rec_status := COMPLETE\<rparr>"])
      simp_all
qed

text \<open>
  Property C7.  A query that meets no obstacle is served, exactly.  On an open executor with
  nothing running, if the SQL is admitted, the broker accepts the submission, every driver call
  succeeds and the clock stays before the deadline, then the submission, the steps of its task and
  of its thread are all possible, the thread needs ten; the driver sees one connection, one
  cursor, the governed statement with its timeout, one fetch and the two closes, in this order;
  and the viewer then opens the source made of all batches of all tables the driver yielded.
\<close>

theorem clean_query_is_served:
  assumes "\<not> exec_closed (sy_executor y)" and "\<not> sv_active (sy_service y)" and "broker_inv (sy_broker y)"
    and "authorize g (qa_policy qa) sql = Inr governed"
    and submit: "broker_submit (pf_env pf) ttl (sy_broker y) = Some (Inr v, b)"
    and "obliging pf qa"
    and clock: "\<And>n. tz_aware (clock_at (pf_env pf) n)"
      "\<And>n. instant_of (clock_at (pf_env pf) n) < view_expires_at v"
    and fetch: "\<And>calls c. dr_fetch (pf_driver pf) calls c = Inr (yielded ts)"
    and ts: "ts \<noteq> []" "\<And>t. t \<in> set ts \<Longrightarrow> table_schema t = source_schema src"
      "source_batches src = concat (map table_batches ts)"
    and adm: "admissible (pf_writer pf) (source_schema src) MVP_ARROW_LIMITS (source_batches src)"
  shows "\<exists>y' n c b'.
    system_run g pf qa (clean_query (length (sy_jobs y)) sql ttl src) y = Some y' \<and>
    conn_log (sy_service y') = conn_log (sy_service y) @ clean_calls n c governed \<and>
    \<not> sv_active (sy_service y') \<and>
    open_source (pf_env pf) (view_id v) (sy_broker y') = (Inr src, b')"
proof -
  obtain y1 y' n c r where run: "system_exec g pf qa (Act_submit sql ttl (Inr ())) y = Some y1"
    "system_run g pf qa (tl (clean_query (length (sy_jobs y)) sql ttl src)) y1 = Some y'"
    and log: "conn_log (sy_service y') = conn_log (sy_service y) @ clean_calls n c governed"
      "\<not> sv_active (sy_service y')"
    and comp: "complete_at (pf_env pf) (view_id v) r (sy_broker y')" "rec_source r = Some src"
    by (rule clean_query_runs[OF assms])
  have "system_run g pf qa (clean_query (length (sy_jobs y)) sql ttl src) y = Some y'"
    using run by (simp add: clean_query_def del: system_exec.simps)
  moreover obtain b' where "open_source (pf_env pf) (view_id v) (sy_broker y') = (Inr src, b')"
    using open_complete[OF comp] by metis
  ultimately show ?thesis using log by blast
qed

definition still_platform :: "(nat, nat, nat, nat) platform" where
  "still_platform = sample_platform\<lparr>pf_env := frozen_env\<rparr>"

lemma still_submission:
  obtains v b where
    "broker_submit (pf_env still_platform) (seconds 60) (sy_broker sample_system) = Some (Inr v, b)"
    "view_id v = sample_id" "view_expires_at v = seconds 60"
proof -
  have "map_option (\<lambda>(res, b). case res of Inl x \<Rightarrow> None | Inr v \<Rightarrow> Some (view_id v, view_expires_at v))
      (broker_submit frozen_env (seconds 60) (sy_broker sample_system)) = Some (Some (sample_id, seconds 60))"
    by code_simp
  then obtain res b where res: "broker_submit frozen_env (seconds 60) (sy_broker sample_system) = Some (res, b)"
    "(case res of Inl x \<Rightarrow> None | Inr v \<Rightarrow> Some (view_id v, view_expires_at v)) = Some (sample_id, seconds 60)"
    by auto
  then obtain v where "res = Inr v" and v: "view_id v = sample_id" "view_expires_at v = seconds 60"
    by (cases res) auto
  with res(1) show ?thesis by (intro that[of v b]) (simp_all add: still_platform_def)
qed

lemma still_facts:
  shows "\<not> exec_closed (sy_executor sample_system)" and "\<not> sv_active (sy_service sample_system)"
    and "broker_inv (sy_broker sample_system)"
    and "authorize sample_sqlglot (qa_policy sample_query_admission) ''q'' = Inr ''q limit 51''"
    and "obliging still_platform sample_query_admission"
    and "tz_aware (clock_at (pf_env still_platform) k)"
    and "dr_fetch (pf_driver still_platform) calls c = Inr (yielded [sample_arrow_table])"
    and "t \<in> set [sample_arrow_table] \<Longrightarrow> table_schema t = source_schema sample_result"
    and "source_batches sample_result = concat (map table_batches [sample_arrow_table])"
    and "admissible (pf_writer still_platform) (source_schema sample_result) MVP_ARROW_LIMITS
      (source_batches sample_result)"
proof -
  show "broker_inv (sy_broker sample_system)"
    using sample_system_initial by (simp add: system_initial_def broker_initial_inv)
  show "authorize sample_sqlglot (qa_policy sample_query_admission) ''q'' = Inr ''q limit 51''"
    using sample_authorized by (simp add: sample_query_admission_def)
  show "obliging still_platform sample_query_admission"
    by (simp add: obliging_def still_platform_def sample_platform_def sample_query_admission_def
        connect_default_def then_do_def)
  show "admissible (pf_writer still_platform) (source_schema sample_result) MVP_ARROW_LIMITS
      (source_batches sample_result)"
    using sample_admissible by (simp add: still_platform_def sample_platform_def sample_result_def)
qed (simp_all add: sample_system_def executor_init_def still_platform_def sample_platform_def
    frozen_env_def sample_arrow_table_def sample_result_def)

theorem clean_query_is_served_witness:
  "\<exists>y' n c b'.
     system_run sample_sqlglot still_platform sample_query_admission
       (clean_query 0 ''q'' (seconds 60) sample_result) sample_system = Some y' \<and>
     conn_log (sy_service y') = clean_calls n c ''q limit 51'' \<and> \<not> sv_active (sy_service y') \<and>
     open_source frozen_env sample_id (sy_broker y') = (Inr sample_result, b')"
proof -
  obtain v b where submit: "broker_submit (pf_env still_platform) (seconds 60) (sy_broker sample_system) = Some (Inr v, b)"
    and v: "view_id v = sample_id" "view_expires_at v = seconds 60"
    by (rule still_submission)
  have deadline: "instant_of (clock_at (pf_env still_platform) k) < view_expires_at v" for k
    by (simp add: still_platform_def frozen_env_def v(2) seconds_def)
  have "length (sy_jobs sample_system) = 0" "conn_log (sy_service sample_system) = []"
    "pf_env still_platform = frozen_env"
    by (simp_all add: sample_system_def still_platform_def)
  with clean_query_is_served[OF still_facts(1-4) submit still_facts(5,6) deadline still_facts(7) _
      still_facts(8-10)]
  show ?thesis by (simp add: v(1) del: system_run.simps)
qed

end
