(* ===== verification/Json.thy ===== *)
theory Json
  imports Python
begin

text \<open>
  \<open>json.dumps(value, separators=(",", ":"))\<close> on what the program serialises: flat objects whose
  values are strings or null, with the default \<open>ensure_ascii\<close>.  A reference decoder of such
  objects shows that the text carries exactly the value.
\<close>

section \<open>String literals\<close>

definition hex_digit :: "nat \<Rightarrow> char" where
  "hex_digit n = (if n < 10 then char_of (48 + n) else char_of (87 + n))"

text \<open>Characters outside the range from space to tilde are escaped, and so are quote and backslash.\<close>

definition escape_char :: "char \<Rightarrow> string" where
  "escape_char ch =
     (let n = char_code ch in
      if n = 34 then [char_of (92::nat), char_of (34::nat)]
      else if n = 92 then [char_of (92::nat), char_of (92::nat)]
      else if n = 10 then [char_of (92::nat), char_of (110::nat)]
      else if n = 13 then [char_of (92::nat), char_of (114::nat)]
      else if n = 9 then [char_of (92::nat), char_of (116::nat)]
      else if n = 12 then [char_of (92::nat), char_of (102::nat)]
      else if n = 8 then [char_of (92::nat), char_of (98::nat)]
      else if 32 \<le> n \<and> n \<le> 126 then [ch]
      else [char_of (92::nat), char_of (117::nat), CHR ''0'', CHR ''0'',
            hex_digit (n div 16), hex_digit (n mod 16)])"

definition quote_char :: char where
  "quote_char = char_of (34::nat)"

definition json_string :: "string \<Rightarrow> string" where
  "json_string s = quote_char # concat (map escape_char s) @ [quote_char]"

primrec json_value :: "string option \<Rightarrow> string" where
  "json_value None = ''null''"
| "json_value (Some s) = json_string s"

definition json_member :: "string \<times> string option \<Rightarrow> string" where
  "json_member m = json_string (fst m) @ CHR '':'' # json_value (snd m)"

definition json_object :: "(string, string option) odict \<Rightarrow> string" where
  "json_object d = CHR ''{'' # join_with (CHR '','') (map json_member d) @ [CHR ''}'']"

section \<open>The reference decoder\<close>

definition hex_value :: "char \<Rightarrow> nat" where
  "hex_value ch = (let n = char_code ch in if n < 58 then n - 48 else n - 87)"

fun dec_chars :: "nat \<Rightarrow> string \<Rightarrow> (string \<times> string) option" where
  "dec_chars fuel [] = None"
| "dec_chars 0 (c # cs) = None"
| "dec_chars (Suc fuel) (c # cs) =
     (if char_code c = 34 then Some ([], cs)
      else if char_code c = 92 then
        (case cs of
           [] \<Rightarrow> None
         | e # cs' \<Rightarrow>
             (let put = (\<lambda>x r. map_option (\<lambda>(s, t). (x # s, t)) (dec_chars fuel r)) in
              if char_code e = 110 then put (char_of (10::nat)) cs'
              else if char_code e = 114 then put (char_of (13::nat)) cs'
              else if char_code e = 116 then put (char_of (9::nat)) cs'
              else if char_code e = 102 then put (char_of (12::nat)) cs'
              else if char_code e = 98 then put (char_of (8::nat)) cs'
              else if char_code e = 117 then
                (case cs' of
                   _ # _ # h # l # r \<Rightarrow> put (char_of (16 * hex_value h + hex_value l)) r
                 | _ \<Rightarrow> None)
              else put e cs'))
      else map_option (\<lambda>(s, t). (c # s, t)) (dec_chars fuel cs))"

definition dec_string :: "string \<Rightarrow> (string \<times> string) option" where
  "dec_string t =
     (case t of [] \<Rightarrow> None
      | c # cs \<Rightarrow> if char_code c = 34 then dec_chars (length cs) cs else None)"

definition dec_value :: "string \<Rightarrow> (string option \<times> string) option" where
  "dec_value t =
     (if take 4 t = ''null'' then Some (None, drop 4 t)
      else map_option (\<lambda>(s, r). (Some s, r)) (dec_string t))"

definition dec_member :: "string \<Rightarrow> ((string \<times> string option) \<times> string) option" where
  "dec_member t =
     (case dec_string t of
        Some (k, c # r) \<Rightarrow>
          if c = CHR '':'' then map_option (\<lambda>(v, r'). ((k, v), r')) (dec_value r) else None
      | _ \<Rightarrow> None)"

section \<open>Round trips\<close>

lemma char_code_of [simp]: "n < 256 \<Longrightarrow> char_code (char_of n) = n"
  by (simp add: char_code_def)

lemma char_code_less [simp]: "char_code ch < 256"
  by (simp add: char_code_def)

lemma char_of_code [simp]: "char_of (char_code ch) = ch"
  by (simp add: char_code_def)

lemma char_eq_iff_code: "ch = ch' \<longleftrightarrow> char_code ch = char_code ch'"
  by (simp add: char_code_def)

lemma char_code_hex [simp]:
  "n < 16 \<Longrightarrow> char_code (hex_digit n) = (if n < 10 then 48 + n else 87 + n)"
  by (simp add: hex_digit_def)

lemma hex_value_digit [simp]: "n < 16 \<Longrightarrow> hex_value (hex_digit n) = n"
  by (simp add: hex_value_def Let_def)

lemma code_eqD: "char_code ch = n \<Longrightarrow> char_of n = ch"
  by auto

lemma escape_char_decodes:
  "dec_chars (Suc fuel) (escape_char ch @ tail) =
   map_option (\<lambda>(s, t). (ch # s, t)) (dec_chars fuel tail)"
proof -
  let ?n = "char_code ch"
  consider "?n = 34" | "?n = 92" | "?n = 10" | "?n = 13" | "?n = 9" | "?n = 12" | "?n = 8"
    | "?n \<noteq> 34" "?n \<noteq> 92" "32 \<le> ?n" "?n \<le> 126"
    | "?n \<noteq> 34" "?n \<noteq> 92" "?n \<noteq> 10" "?n \<noteq> 13" "?n \<noteq> 9" "?n \<noteq> 12" "?n \<noteq> 8"
      "?n < 32 \<or> 126 < ?n"
    by linarith
  then show ?thesis
  proof cases
    case 8
    then show ?thesis by (simp add: escape_char_def Let_def)
  next
    case 9
    have "?n div 16 < 16" using char_code_less[of ch] by (intro less_mult_imp_div_less) simp
    moreover have "?n mod 16 < 16" by simp
    moreover have "16 * (?n div 16) + ?n mod 16 = ?n" by simp
    ultimately show ?thesis using 9 by (auto simp: escape_char_def Let_def)
  qed (frule code_eqD; simp add: escape_char_def Let_def)+
qed

lemma dec_chars_escaped:
  "length s < fuel \<Longrightarrow>
   dec_chars fuel (concat (map escape_char s) @ quote_char # rest) = Some (s, rest)"
proof (induction s arbitrary: fuel)
  case Nil
  then show ?case by (cases fuel) (simp_all add: quote_char_def)
next
  case (Cons ch s)
  then show ?case by (cases fuel) (simp_all add: escape_char_decodes)
qed

lemma escape_char_not_Nil [simp]: "escape_char ch \<noteq> []"
  by (simp add: escape_char_def Let_def)

lemma length_escaped: "length s \<le> length (concat (map escape_char s))"
proof (induction s)
  case Nil
  then show ?case by simp
next
  case (Cons ch s)
  have "1 \<le> length (escape_char ch)" by (cases "escape_char ch") auto
  with Cons show ?case by simp
qed

interpretation json_str: codec json_string dec_string "\<lambda>_. True"
proof unfold_locales
  fix s rest
  have "length s < length (concat (map escape_char s) @ quote_char # rest)"
    using length_escaped[of s] by simp
  from dec_chars_escaped[OF this, of rest] show "dec_string (json_string s @ rest) = Some (s, rest)"
    by (simp add: dec_string_def json_string_def) (simp add: quote_char_def)
qed

interpretation json_val: codec json_value dec_value "\<lambda>_. True"
proof unfold_locales
  fix v rest
  show "dec_value (json_value v @ rest) = Some (v, rest)"
  proof (cases v)
    case None
    then show ?thesis by (simp add: dec_value_def)
  next
    case (Some s)
    have "take 4 (json_string s @ rest) \<noteq> ''null''"
      by (simp add: json_string_def quote_char_def take_Cons' char_of_eq_iff)
    with Some json_str.dec_enc[of s rest] show ?thesis by (simp add: dec_value_def)
  qed
qed

interpretation json_mem: codec json_member dec_member "\<lambda>_. True"
  by unfold_locales
    (simp add: dec_member_def json_member_def json_str.dec_enc json_val.dec_enc)

text \<open>Two objects with as many members and the same text are the same.\<close>

fun members_text :: "(string, string option) odict \<Rightarrow> string" where
  "members_text [] = ''}''"
| "members_text [m] = json_member m @ ''}''"
| "members_text (m # ms) = json_member m @ CHR '','' # members_text ms"

lemma json_object_members: "json_object d = CHR ''{'' # members_text d"
  by (induction d rule: members_text.induct) (auto simp: json_object_def)

lemma members_text_inj:
  "length d = length d' \<Longrightarrow> members_text d = members_text d' \<Longrightarrow> d = d'"
proof (induction d arbitrary: d' rule: members_text.induct)
  case 1
  then show ?case by simp
next
  case (2 m)
  then obtain m' where d': "d' = [m']" by (cases d') auto
  from 2(2) json_mem.enc_append_inj[where x = m and y = m'] show ?case by (simp add: d')
next
  case (3 m n ms)
  then obtain m' n' ms' where d': "d' = m' # n' # ms'" by (cases d'; cases "tl d'") auto
  from 3(3) have "m = m' \<and> CHR '','' # members_text (n # ms) = CHR '','' # members_text (n' # ms')"
    by (intro json_mem.enc_append_inj[OF TrueI TrueI]) (simp add: d')
  with 3(1)[of "n' # ms'"] 3(2) show ?case by (simp add: d')
qed

lemma json_object_inj: "length d = length d' \<Longrightarrow> json_object d = json_object d' \<Longrightarrow> d = d'"
  by (simp add: json_object_members members_text_inj)

section \<open>Parsing a whole object\<close>

fun dec_members :: "nat \<Rightarrow> string \<Rightarrow> ((string, string option) odict \<times> string) option" where
  "dec_members 0 t = None"
| "dec_members (Suc n) t =
     (case dec_member t of
        Some (m, c # r) \<Rightarrow>
          if c = CHR '','' then map_option (\<lambda>(ms, r'). (m # ms, r')) (dec_members n r)
          else if c = CHR ''}'' then Some ([m], r) else None
      | _ \<Rightarrow> None)"

definition dec_object :: "string \<Rightarrow> ((string, string option) odict \<times> string) option" where
  "dec_object t =
     (if take 2 t = ''{}'' then Some ([], drop 2 t)
      else if take 1 t = ''{'' then dec_members (length t) (drop 1 t) else None)"

lemma members_text_Cons: "ms \<noteq> [] \<Longrightarrow> members_text (m # ms) = json_member m @ CHR '','' # members_text ms"
  by (cases ms) auto

lemma dec_members_text:
  "d \<noteq> [] \<Longrightarrow> length d < n \<Longrightarrow> dec_members n (members_text d @ rest) = Some (d, rest)"
proof (induction d arbitrary: n)
  case Nil
  then show ?case by simp
next
  case (Cons m ms)
  then obtain n' where n: "n = Suc n'" by (cases n) auto
  have dec: "dec_member (json_member m @ t) = Some (m, t)" for t by (rule json_mem.dec_enc) simp
  show ?case
  proof (cases "ms = []")
    case True
    with n dec show ?thesis by simp
  next
    case False
    from Cons.prems n have "length ms < n'" by simp
    from Cons.IH[OF False this] show ?thesis by (simp add: n members_text_Cons[OF False] dec)
  qed
qed

lemma json_member_not_Nil [simp]: "json_member m \<noteq> []"
  by (simp add: json_member_def json_string_def)

lemma hd_json_member: "take 1 (json_member m @ t) = [quote_char]"
  by (simp add: json_member_def json_string_def)

lemma length_members_text: "length d < length (members_text d)"
proof (induction d rule: members_text.induct)
  case (2 m)
  have "0 < length (json_member m)" by (simp only: length_greater_0_conv) simp
  then show ?case by simp
qed auto

interpretation json_obj: codec json_object dec_object "\<lambda>_. True"
proof unfold_locales
  fix d :: "(string, string option) odict" and rest
  show "dec_object (json_object d @ rest) = Some (d, rest)"
  proof (cases d)
    case Nil
    then show ?thesis by (simp add: dec_object_def json_object_def)
  next
    case (Cons m ms)
    then obtain t where t: "members_text d = json_member m @ t" by (cases ms) auto
    have "take 2 (json_object d @ rest) \<noteq> ''{}''"
      using hd_json_member[of m "t @ rest"]
      by (auto simp: json_object_members t quote_char_def take_Cons' char_of_eq_iff)
    moreover have "dec_members (length (json_object d @ rest)) (members_text d @ rest) = Some (d, rest)"
      using length_members_text[of d] Cons by (intro dec_members_text) (simp_all add: json_object_members)
    moreover have "take 1 (json_object d @ rest) = ''{''" "drop 1 (json_object d @ rest) = members_text d @ rest"
      by (simp_all add: json_object_members)
    ultimately show ?thesis by (simp only: dec_object_def if_False if_True refl simp_thms)
  qed
qed

text \<open>\<open>json.loads\<close> on the text of a flat object.\<close>

definition json_loads :: "string \<Rightarrow> (string, string option) odict option" where
  "json_loads t = (case dec_object t of Some (d, []) \<Rightarrow> Some d | _ \<Rightarrow> None)"

lemma json_loads_object [simp]: "json_loads (json_object d) = Some d"
  by (simp add: json_loads_def json_obj.dec_enc_exact)

end
