(* ===== verification/Contracts.thy ===== *)
theory Contracts
  imports Tokens Json
begin

text \<open>
  The closed receipts that cross the model-facing boundary (\<open>src/snowglobe/contracts.py\<close>): their
  enumerations, construction with field validation and the after-validator, validation of untyped
  content (\<open>model_validate\<close>), serialisation (\<open>model_dump(mode="json")\<close>) and JSON text.
\<close>

section \<open>Enumerations\<close>

datatype receipt_status = ACCEPTED | REJECTED

datatype reason_code = NONE | INVALID_REQUEST | POLICY_REJECTED | SERVICE_UNAVAILABLE

datatype query_lifecycle_status =
    LC_PENDING | LC_COMPLETE | LC_FAILED | LC_CANCELLED | LC_EXPIRED
  | LC_NOT_FOUND | LC_SERVICE_UNAVAILABLE

primrec receipt_status_value :: "receipt_status \<Rightarrow> string" where
  "receipt_status_value ACCEPTED = ''accepted''"
| "receipt_status_value REJECTED = ''rejected''"

primrec reason_code_value :: "reason_code \<Rightarrow> string" where
  "reason_code_value NONE = ''NONE''"
| "reason_code_value INVALID_REQUEST = ''INVALID_REQUEST''"
| "reason_code_value POLICY_REJECTED = ''POLICY_REJECTED''"
| "reason_code_value SERVICE_UNAVAILABLE = ''SERVICE_UNAVAILABLE''"

primrec lifecycle_value :: "query_lifecycle_status \<Rightarrow> string" where
  "lifecycle_value LC_PENDING = ''pending''"
| "lifecycle_value LC_COMPLETE = ''complete''"
| "lifecycle_value LC_FAILED = ''failed''"
| "lifecycle_value LC_CANCELLED = ''cancelled''"
| "lifecycle_value LC_EXPIRED = ''expired''"
| "lifecycle_value LC_NOT_FOUND = ''not_found''"
| "lifecycle_value LC_SERVICE_UNAVAILABLE = ''service_unavailable''"

text \<open>Looking an enumeration member up by its value, as \<open>StrEnum(value)\<close> does.\<close>

definition enum_lookup :: "('e \<Rightarrow> string) \<Rightarrow> 'e list \<Rightarrow> string \<Rightarrow> 'e result" where
  "enum_lookup val members s =
     (case find (\<lambda>m. val m = s) members of None \<Rightarrow> Inl ValueError | Some m \<Rightarrow> Inr m)"

definition receipt_statuses :: "receipt_status list" where
  "receipt_statuses = [ACCEPTED, REJECTED]"

definition reason_codes :: "reason_code list" where
  "reason_codes = [NONE, INVALID_REQUEST, POLICY_REJECTED, SERVICE_UNAVAILABLE]"

definition lifecycle_statuses :: "query_lifecycle_status list" where
  "lifecycle_statuses =
     [LC_PENDING, LC_COMPLETE, LC_FAILED, LC_CANCELLED, LC_EXPIRED, LC_NOT_FOUND,
      LC_SERVICE_UNAVAILABLE]"

text \<open>A value encoding of an enumeration is an injection listed completely.\<close>

locale string_enum =
  fixes val :: "'e \<Rightarrow> string" and members :: "'e list"
  assumes val_inj: "val x = val y \<Longrightarrow> x = y" and complete: "x \<in> set members"
begin

lemma lookup_value [simp]: "enum_lookup val members (val x) = Inr x"
proof -
  have "find (\<lambda>m. val m = val x) members = Some x"
  proof (cases "find (\<lambda>m. val m = val x) members")
    case None
    with complete[of x] show ?thesis by (auto simp: find_None_iff)
  next
    case (Some y)
    then have "val y = val x" by (auto simp: find_Some_iff)
    with val_inj Some show ?thesis by blast
  qed
  then show ?thesis by (simp add: enum_lookup_def)
qed

lemma lookup_Inr: "enum_lookup val members s = Inr x \<longleftrightarrow> s = val x"
proof
  assume "enum_lookup val members s = Inr x"
  then have "find (\<lambda>m. val m = s) members = Some x"
    by (auto simp: enum_lookup_def split: option.splits)
  then show "s = val x" by (auto simp: find_Some_iff)
qed simp

end

interpretation receipt_enum: string_enum receipt_status_value receipt_statuses
proof unfold_locales
  show "receipt_status_value x = receipt_status_value y \<Longrightarrow> x = y" for x y
    by (cases x; cases y) simp_all
  show "x \<in> set receipt_statuses" for x by (cases x) (simp_all add: receipt_statuses_def)
qed

interpretation reason_enum: string_enum reason_code_value reason_codes
proof unfold_locales
  show "reason_code_value x = reason_code_value y \<Longrightarrow> x = y" for x y
    by (cases x; cases y) simp_all
  show "x \<in> set reason_codes" for x by (cases x) (simp_all add: reason_codes_def)
qed

interpretation lifecycle_enum: string_enum lifecycle_value lifecycle_statuses
proof unfold_locales
  show "lifecycle_value x = lifecycle_value y \<Longrightarrow> x = y" for x y
    by (cases x; cases y) simp_all
  show "x \<in> set lifecycle_statuses" for x by (cases x) (simp_all add: lifecycle_statuses_def)
qed

section \<open>Receipts\<close>

record query_receipt =
  qr_status :: receipt_status
  qr_request_id :: string
  qr_reason_code :: reason_code
  qr_governed_sql :: "string option"

record query_status_receipt =
  qs_request_id :: string
  qs_status :: query_lifecycle_status

text \<open>The after-validator \<open>require_consistent_submission\<close>.\<close>

definition consistent_submission :: "query_receipt \<Rightarrow> bool" where
  "consistent_submission r \<longleftrightarrow>
     (let accepted = (qr_status r = ACCEPTED) in
      accepted = (qr_reason_code r = NONE) \<and> accepted = (qr_governed_sql r \<noteq> None))"

definition governed_sql_field :: "string option \<Rightarrow> bool" where
  "governed_sql_field g = (case g of None \<Rightarrow> True | Some s \<Rightarrow> 1 \<le> length s)"

definition valid_query_receipt :: "query_receipt \<Rightarrow> bool" where
  "valid_query_receipt r \<longleftrightarrow>
     request_id_pattern (qr_request_id r) \<and> governed_sql_field (qr_governed_sql r) \<and>
     consistent_submission r"

definition new_query_receipt ::
  "receipt_status \<Rightarrow> string \<Rightarrow> reason_code \<Rightarrow> string option \<Rightarrow> query_receipt result" where
  "new_query_receipt st i reason sql =
     (let r = \<lparr>qr_status = st, qr_request_id = i, qr_reason_code = reason, qr_governed_sql = sql\<rparr>
      in if valid_query_receipt r then Inr r else Inl ValidationError)"

definition new_status_receipt ::
  "string \<Rightarrow> query_lifecycle_status \<Rightarrow> query_status_receipt result" where
  "new_status_receipt i st =
     (if request_id_pattern i then Inr \<lparr>qs_request_id = i, qs_status = st\<rparr>
      else Inl ValidationError)"

section \<open>Serialisation\<close>

definition query_receipt_dump :: "query_receipt \<Rightarrow> (string, string option) odict" where
  "query_receipt_dump r =
     [(''status'', Some (receipt_status_value (qr_status r))),
      (''request_id'', Some (qr_request_id r)),
      (''reason_code'', Some (reason_code_value (qr_reason_code r))),
      (''governed_sql'', qr_governed_sql r)]"

definition status_receipt_dump :: "query_status_receipt \<Rightarrow> (string, string option) odict" where
  "status_receipt_dump r =
     [(''request_id'', Some (qs_request_id r)),
      (''status'', Some (lifecycle_value (qs_status r)))]"

primrec json_pyval :: "string option \<Rightarrow> pyval" where
  "json_pyval None = PNone"
| "json_pyval (Some s) = PStr s"

lemma json_pyval_inj [simp]: "json_pyval u = json_pyval v \<longleftrightarrow> u = v"
  by (cases u; cases v) auto

text \<open>The dumped object as an untyped value, as a peer receives it.\<close>

definition dump_content :: "(string, string option) odict \<Rightarrow> pyval" where
  "dump_content d = PDict (map (\<lambda>(k, v). (k, json_pyval v)) d)"

section \<open>Validation of untyped content\<close>

text \<open>\<open>extra="forbid"\<close>: the object has exactly the declared fields.\<close>

definition exact_fields :: "string list \<Rightarrow> pyval \<Rightarrow> (string, pyval) odict result" where
  "exact_fields names content =
     (case content of
        PDict d \<Rightarrow> if set (keys d) = set names then Inr d else Inl ValidationError
      | _ \<Rightarrow> Inl ValidationError)"

definition str_field :: "(string, pyval) odict \<Rightarrow> string \<Rightarrow> string result" where
  "str_field d k =
     (case map_of d k of Some (PStr s) \<Rightarrow> Inr s | _ \<Rightarrow> Inl ValidationError)"

definition opt_str_field :: "(string, pyval) odict \<Rightarrow> string \<Rightarrow> string option result" where
  "opt_str_field d k =
     (case map_of d k of
        Some (PStr s) \<Rightarrow> Inr (Some s)
      | Some PNone \<Rightarrow> Inr None
      | _ \<Rightarrow> Inl ValidationError)"

definition enum_field ::
  "('e \<Rightarrow> string) \<Rightarrow> 'e list \<Rightarrow> (string, pyval) odict \<Rightarrow> string \<Rightarrow> 'e result" where
  "enum_field val members d k =
     then_do (str_field d k) (\<lambda>s.
       case enum_lookup val members s of Inl x \<Rightarrow> Inl ValidationError | Inr m \<Rightarrow> Inr m)"

definition query_receipt_validate :: "pyval \<Rightarrow> query_receipt result" where
  "query_receipt_validate content =
     then_do (exact_fields [''status'', ''request_id'', ''reason_code'', ''governed_sql''] content) (\<lambda>d.
     then_do (enum_field receipt_status_value receipt_statuses d ''status'') (\<lambda>st.
     then_do (str_field d ''request_id'') (\<lambda>i.
     then_do (enum_field reason_code_value reason_codes d ''reason_code'') (\<lambda>reason.
     then_do (opt_str_field d ''governed_sql'') (\<lambda>sql.
       new_query_receipt st i reason sql)))))"

definition status_receipt_validate :: "pyval \<Rightarrow> query_status_receipt result" where
  "status_receipt_validate content =
     then_do (exact_fields [''request_id'', ''status''] content) (\<lambda>d.
     then_do (str_field d ''request_id'') (\<lambda>i.
     then_do (enum_field lifecycle_value lifecycle_statuses d ''status'') (\<lambda>st.
       new_status_receipt i st)))"

section \<open>Facts about receipts\<close>

lemma new_query_receipt_Inr:
  "new_query_receipt st i reason sql = Inr r \<longleftrightarrow>
   r = \<lparr>qr_status = st, qr_request_id = i, qr_reason_code = reason, qr_governed_sql = sql\<rparr> \<and>
   valid_query_receipt r"
  by (auto simp: new_query_receipt_def Let_def)

lemma new_query_receipt_Inl:
  "new_query_receipt st i reason sql = Inl x \<Longrightarrow> x = ValidationError"
  by (auto simp: new_query_receipt_def Let_def split: if_splits)

lemma new_status_receipt_Inr:
  "new_status_receipt i st = Inr r \<longleftrightarrow>
   r = \<lparr>qs_request_id = i, qs_status = st\<rparr> \<and> request_id_pattern i"
  by (auto simp: new_status_receipt_def)

lemma valid_rejected:
  "request_id_pattern i \<Longrightarrow> reason \<noteq> NONE \<Longrightarrow>
   new_query_receipt REJECTED i reason None =
   Inr \<lparr>qr_status = REJECTED, qr_request_id = i, qr_reason_code = reason, qr_governed_sql = None\<rparr>"
  by (simp add: new_query_receipt_def valid_query_receipt_def governed_sql_field_def
      consistent_submission_def)

lemma str_field_Inr: "str_field d k = Inr s \<longleftrightarrow> map_of d k = Some (PStr s)"
  by (auto simp: str_field_def split: option.splits pyval.splits)

lemma enum_field_Inr:
  "enum_field val members d k = Inr m \<longleftrightarrow>
   (\<exists>s. map_of d k = Some (PStr s) \<and> enum_lookup val members s = Inr m)"
proof -
  have "(case e of Inl x \<Rightarrow> Inl ValidationError | Inr m' \<Rightarrow> Inr m') = Inr m \<longleftrightarrow> e = Inr m"
    for e :: "'a result" by (cases e) auto
  then show ?thesis by (simp add: enum_field_def then_do_Inr_iff str_field_Inr)
qed

lemma opt_str_field_Inr: "opt_str_field d k = Inr g \<longleftrightarrow> map_of d k = Some (json_pyval g)"
  by (cases g) (auto simp: opt_str_field_def split: option.splits pyval.splits)

lemma exact_fields_Inr:
  "exact_fields names content = Inr d \<longleftrightarrow> content = PDict d \<and> set (keys d) = set names"
  by (auto simp: exact_fields_def split: pyval.splits)

lemmas field_simps_receipt =
  exact_fields_Inr str_field_Inr enum_field_Inr opt_str_field_Inr then_do_Inr_iff

lemma query_receipt_validates:
  assumes "valid_query_receipt r"
  shows "query_receipt_validate (dump_content (query_receipt_dump r)) = Inr r"
  using assms
  by (simp add: query_receipt_validate_def query_receipt_dump_def dump_content_def
      field_simps_receipt new_query_receipt_Inr insert_commute)

text \<open>
  A receipt survives its own serialisation: validating the dumped content of a valid
  submission receipt gives back that receipt.
\<close>

theorem query_receipt_roundtrip:
  assumes "valid_query_receipt r"
  shows "query_receipt_validate (dump_content (query_receipt_dump r)) = Inr r"
  by (rule query_receipt_validates[OF assms])

theorem query_receipt_roundtrip_witness:
  "valid_query_receipt \<lparr>qr_status = ACCEPTED, qr_request_id = ''abcdefghij0123456789'',
     qr_reason_code = NONE, qr_governed_sql = Some ''SELECT 1 LIMIT 51''\<rparr> \<and>
   query_receipt_validate (dump_content (query_receipt_dump
     \<lparr>qr_status = ACCEPTED, qr_request_id = ''abcdefghij0123456789'',
      qr_reason_code = NONE, qr_governed_sql = Some ''SELECT 1 LIMIT 51''\<rparr>)) =
   Inr \<lparr>qr_status = ACCEPTED, qr_request_id = ''abcdefghij0123456789'',
     qr_reason_code = NONE, qr_governed_sql = Some ''SELECT 1 LIMIT 51''\<rparr>"
proof -
  let ?r = "\<lparr>qr_status = ACCEPTED, qr_request_id = ''abcdefghij0123456789'',
     qr_reason_code = NONE, qr_governed_sql = Some ''SELECT 1 LIMIT 51''\<rparr>"
  have v: "valid_query_receipt ?r" by code_simp
  from query_receipt_roundtrip[OF v] v show ?thesis by blast
qed

text \<open>
  Property C38.  What validation accepts as a submission receipt, exactly.  Untyped content is
  accepted as \<open>r\<close> if and only if it is an object with the four declared fields and no other, its
  identifier is a text that matches the pattern, and it is one of two shapes: status \<open>accepted\<close>,
  reason \<open>NONE\<close> and a governed SQL text that is not empty; or status \<open>rejected\<close>, one of the three
  other reasons and no governed SQL; and \<open>r\<close> holds just these values.
\<close>

theorem query_receipt_validate_exact:
  "query_receipt_validate content = Inr r \<longleftrightarrow>
   (\<exists>d. content = PDict d \<and>
      set (keys d) = {''status'', ''request_id'', ''reason_code'', ''governed_sql''} \<and>
      map_of d ''request_id'' = Some (PStr (qr_request_id r)) \<and> request_id_pattern (qr_request_id r) \<and>
      (map_of d ''status'' = Some (PStr ''accepted'') \<and> qr_status r = ACCEPTED \<and>
       map_of d ''reason_code'' = Some (PStr ''NONE'') \<and> qr_reason_code r = NONE \<and>
       (\<exists>sql. sql \<noteq> [] \<and> map_of d ''governed_sql'' = Some (PStr sql) \<and> qr_governed_sql r = Some sql) \<or>
       map_of d ''status'' = Some (PStr ''rejected'') \<and> qr_status r = REJECTED \<and>
       (map_of d ''reason_code'' = Some (PStr ''INVALID_REQUEST'') \<and> qr_reason_code r = INVALID_REQUEST \<or>
        map_of d ''reason_code'' = Some (PStr ''POLICY_REJECTED'') \<and> qr_reason_code r = POLICY_REJECTED \<or>
        map_of d ''reason_code'' = Some (PStr ''SERVICE_UNAVAILABLE'') \<and>
          qr_reason_code r = SERVICE_UNAVAILABLE) \<and>
       map_of d ''governed_sql'' = Some PNone \<and> qr_governed_sql r = None))"
proof -
  have "query_receipt_validate content = Inr r \<longleftrightarrow>
    (\<exists>d. content = PDict d \<and>
       set (keys d) = {''status'', ''request_id'', ''reason_code'', ''governed_sql''} \<and>
       map_of d ''request_id'' = Some (PStr (qr_request_id r)) \<and>
       map_of d ''status'' = Some (PStr (receipt_status_value (qr_status r))) \<and>
       map_of d ''reason_code'' = Some (PStr (reason_code_value (qr_reason_code r))) \<and>
       map_of d ''governed_sql'' = Some (json_pyval (qr_governed_sql r)) \<and> valid_query_receipt r)"
    by (cases r) (auto simp: query_receipt_validate_def field_simps_receipt receipt_enum.lookup_Inr
        reason_enum.lookup_Inr new_query_receipt_Inr)
  then show ?thesis
    unfolding valid_query_receipt_def consistent_submission_def governed_sql_field_def Let_def
    by (cases "qr_status r"; cases "qr_reason_code r"; cases "qr_governed_sql r")
      (simp_all add: Suc_le_eq conj_ac)
qed

theorem query_receipt_validate_exact_witness:
  "query_receipt_validate (PDict [(''governed_sql'', PNone), (''status'', PStr ''rejected''),
      (''request_id'', PStr ''abcdefghij0123456789''), (''reason_code'', PStr ''POLICY_REJECTED'')]) =
     Inr \<lparr>qr_status = REJECTED, qr_request_id = ''abcdefghij0123456789'', qr_reason_code = POLICY_REJECTED,
       qr_governed_sql = None\<rparr> \<and>
   (\<forall>r. query_receipt_validate (PDict [(''governed_sql'', PNone), (''status'', PStr ''accepted''),
      (''request_id'', PStr ''abcdefghij0123456789''), (''reason_code'', PStr ''NONE'')]) \<noteq> Inr r)"
proof
  have "request_id_pattern ''abcdefghij0123456789''" by code_simp
  then show "query_receipt_validate (PDict [(''governed_sql'', PNone), (''status'', PStr ''rejected''),
      (''request_id'', PStr ''abcdefghij0123456789''), (''reason_code'', PStr ''POLICY_REJECTED'')]) =
     Inr \<lparr>qr_status = REJECTED, qr_request_id = ''abcdefghij0123456789'', qr_reason_code = POLICY_REJECTED,
       qr_governed_sql = None\<rparr>"
    unfolding query_receipt_validate_exact by (simp add: insert_commute)
qed (simp add: query_receipt_validate_exact)

lemma status_receipt_roundtrip:
  "request_id_pattern (qs_request_id r) \<Longrightarrow>
   status_receipt_validate (dump_content (status_receipt_dump r)) = Inr r"
  by (simp add: status_receipt_validate_def status_receipt_dump_def dump_content_def
      field_simps_receipt new_status_receipt_Inr)

lemma status_receipt_validate_Inr:
  "status_receipt_validate content = Inr r \<Longrightarrow> request_id_pattern (qs_request_id r)"
  unfolding status_receipt_validate_def then_do_Inr_iff new_status_receipt_Inr
  by (elim exE conjE) simp

lemma query_receipt_validate_Inr:
  "query_receipt_validate content = Inr r \<Longrightarrow> valid_query_receipt r"
  unfolding query_receipt_validate_def then_do_Inr_iff new_query_receipt_Inr
  by (elim exE conjE) simp

end
