(* ===== verification/Control.thy ===== *)
theory Control
  imports Executor_Run Contracts
begin

text \<open>
  The control plane (\<open>src/snowglobe/control.py\<close>): it turns every outcome of a submission or a
  status lookup into a closed receipt.  The state is the process's: the one broker and, when
  configured, the executor.  Admission and the outcome of \<open>create_task\<close> are arguments, as in
  the theory of the executor.
\<close>

section \<open>State\<close>

record ('s, 'c, 'w) runtime =
  rt_broker :: "('s, 'c) broker"
  rt_executor :: "'w executor option"

primrec request_status_value :: "request_status \<Rightarrow> string" where
  "request_status_value PENDING = ''pending''"
| "request_status_value COMPLETE = ''complete''"
| "request_status_value FAILED = ''failed''"
| "request_status_value CANCELLED = ''cancelled''"
| "request_status_value EXPIRED = ''expired''"

definition request_statuses :: "request_status list" where
  "request_statuses = [PENDING, COMPLETE, FAILED, CANCELLED, EXPIRED]"

interpretation request_enum: string_enum request_status_value request_statuses
proof unfold_locales
  show "request_status_value x = request_status_value y \<Longrightarrow> x = y" for x y
    by (cases x; cases y) simp_all
  show "x \<in> set request_statuses" for x by (cases x) (simp_all add: request_statuses_def)
qed

section \<open>Operations\<close>

text \<open>\<open>secrets.token_urlsafe(18)\<close> outside the broker reads the same entropy source.\<close>

definition draw_token :: "env \<Rightarrow> ('s, 'c, 'w) runtime \<Rightarrow> string \<times> ('s, 'c, 'w) runtime" where
  "draw_token e st =
     (let b = rt_broker st in
      (token_urlsafe (entropy_at e (tokens_drawn b)),
       st\<lparr>rt_broker := b\<lparr>tokens_drawn := Suc (tokens_drawn b)\<rparr>\<rparr>))"

definition rejected_receipt ::
  "env \<Rightarrow> reason_code \<Rightarrow> ('s, 'c, 'w) runtime \<Rightarrow> query_receipt result \<times> ('s, 'c, 'w) runtime"
where
  "rejected_receipt e reason st =
     (case draw_token e st of (i, st') \<Rightarrow> (new_query_receipt REJECTED i reason None, st'))"

definition invalid_status_receipt ::
  "env \<Rightarrow> ('s, 'c, 'w) runtime \<Rightarrow> query_status_receipt result \<times> ('s, 'c, 'w) runtime" where
  "invalid_status_receipt e st =
     (case draw_token e st of (i, st') \<Rightarrow> (new_status_receipt i LC_NOT_FOUND, st'))"

text \<open>
  \<open>submit\<close>: only the executor's submission is inside the \<open>try\<close>; the accepted receipt is built
  after it, so an error there is not turned into a receipt.
\<close>

definition control_submit ::
  "env \<Rightarrow> 'w admission \<Rightarrow> unit result \<Rightarrow> string \<Rightarrow> timedelta \<Rightarrow> ('s, 'c, 'w) runtime \<Rightarrow>
   (query_receipt result \<times> ('s, 'c, 'w) runtime) option"
where
  "control_submit e admit spawn sql ttl st =
     (case rt_executor st of
        None \<Rightarrow> Some (rejected_receipt e SERVICE_UNAVAILABLE st)
      | Some x \<Rightarrow>
          (case executor_submit e admit spawn sql ttl x (rt_broker st) of
             None \<Rightarrow> None
           | Some (res, x', b') \<Rightarrow>
               (let st' = \<lparr>rt_broker = b', rt_executor = Some x'\<rparr> in
                Some (case res of
                        Inr s \<Rightarrow>
                          (new_query_receipt ACCEPTED (view_id (sub_request s)) NONE
                             (Some (sub_governed_sql s)), st')
                      | Inl ex \<Rightarrow>
                          if ex = QueryPolicyRejected then rejected_receipt e POLICY_REJECTED st'
                          else if is_Exception ex then rejected_receipt e SERVICE_UNAVAILABLE st'
                          else (Inl ex, st')))))"

definition control_status ::
  "env \<Rightarrow> string \<Rightarrow> ('s, 'c, 'w) runtime \<Rightarrow>
   query_status_receipt result \<times> ('s, 'c, 'w) runtime"
where
  "control_status e i st =
     (case get_request e i (rt_broker st) of
        (res, b') \<Rightarrow>
          (case res of
             Inl x \<Rightarrow>
               if x = RequestUnavailable then new_status_receipt i LC_NOT_FOUND
               else if is_Exception x then new_status_receipt i LC_SERVICE_UNAVAILABLE
               else Inl x
           | Inr v \<Rightarrow>
               then_do (enum_lookup lifecycle_value lifecycle_statuses
                          (request_status_value (view_status v)))
                 (new_status_receipt i),
           st\<lparr>rt_broker := b'\<rparr>))"

definition control_close ::
  "env \<Rightarrow> ('s, 'c, 'w) runtime \<Rightarrow> unit result \<times> ('s, 'c, 'w) runtime" where
  "control_close e st =
     (case rt_executor st of
        None \<Rightarrow> (Inr (), st)
      | Some x \<Rightarrow>
          (case executor_close e x (rt_broker st) of
             (res, x', b') \<Rightarrow> (res, \<lparr>rt_broker = b', rt_executor = Some x'\<rparr>)))"

section \<open>Facts about the operations\<close>

text \<open>Every broker status is a lifecycle status of the same value.\<close>

fun lifecycle_of :: "request_status \<Rightarrow> query_lifecycle_status" where
  "lifecycle_of PENDING = LC_PENDING"
| "lifecycle_of COMPLETE = LC_COMPLETE"
| "lifecycle_of FAILED = LC_FAILED"
| "lifecycle_of CANCELLED = LC_CANCELLED"
| "lifecycle_of EXPIRED = LC_EXPIRED"

lemma lifecycle_lookup [simp]:
  "enum_lookup lifecycle_value lifecycle_statuses (request_status_value s) = Inr (lifecycle_of s)"
proof -
  have "request_status_value s = lifecycle_value (lifecycle_of s)" by (cases s) simp_all
  then show ?thesis by simp
qed

text \<open>The entropy source answers 18 bytes, as \<open>os.urandom(18)\<close> does.\<close>

definition good_entropy :: "env \<Rightarrow> bool" where
  "good_entropy e \<longleftrightarrow> (\<forall>n. length (entropy_at e n) = 18)"

lemma good_entropy_pattern: "good_entropy e \<Longrightarrow> request_id_pattern (token_urlsafe (entropy_at e n))"
  by (simp add: good_entropy_def token_urlsafe_shape)

lemma rejected_receipt_eq:
  assumes "good_entropy e" and "reason \<noteq> NONE"
  shows "rejected_receipt e reason st =
    (Inr \<lparr>qr_status = REJECTED, qr_request_id = token_urlsafe (entropy_at e (tokens_drawn (rt_broker st))),
          qr_reason_code = reason, qr_governed_sql = None\<rparr>,
     snd (draw_token e st))"
  using assms by (simp add: rejected_receipt_def draw_token_def Let_def valid_rejected good_entropy_pattern)

lemma rejected_valid:
  assumes "good_entropy e" and "reason \<noteq> NONE"
  obtains r where "rejected_receipt e reason st = (Inr r, snd (draw_token e st))"
    "valid_query_receipt r" "qr_status r = REJECTED" "qr_reason_code r = reason"
    "qr_governed_sql r = None"
proof -
  obtain r where r: "rejected_receipt e reason st = (Inr r, snd (draw_token e st))"
    "qr_status r = REJECTED" "qr_reason_code r = reason" "qr_governed_sql r = None"
    using rejected_receipt_eq[OF assms, of st] by simp
  moreover have "valid_query_receipt r"
    using r(1) by (auto simp: rejected_receipt_def draw_token_def Let_def new_query_receipt_Inr)
  ultimately show ?thesis using that by blast
qed

lemma invalid_status_receipt_eq:
  assumes "good_entropy e"
  shows "invalid_status_receipt e st =
    (Inr \<lparr>qs_request_id = token_urlsafe (entropy_at e (tokens_drawn (rt_broker st))),
          qs_status = LC_NOT_FOUND\<rparr>, snd (draw_token e st))"
  using assms by (simp add: invalid_status_receipt_def draw_token_def Let_def new_status_receipt_def
      good_entropy_pattern)

lemma draw_token_frame [simp]:
  "records (rt_broker (snd (draw_token e st))) = records (rt_broker st)"
  "trace (rt_broker (snd (draw_token e st))) = trace (rt_broker st)"
  "rt_executor (snd (draw_token e st)) = rt_executor st"
  by (simp_all add: draw_token_def Let_def)

lemma draw_token_inv [simp]:
  "broker_inv (rt_broker (snd (draw_token e st))) \<longleftrightarrow> broker_inv (rt_broker st)"
  by (simp add: draw_token_def Let_def broker_inv_def store_inv_def lock_free_def pending_count_def)

section \<open>Receipts of the control plane\<close>

lemma broker_submit_raises:
  "broker_submit e ttl b = Some (Inl x, b') \<Longrightarrow> x = RequestUnavailable \<or> x = ValueError \<or> x = OverflowError"
proof -
  have expire: "expire_all e rs n = (Inl x, rs', n') \<Longrightarrow> x = ValueError" for rs n rs' n'
  proof (induction rs arbitrary: n rs' n')
    case (Cons p rs)
    then show ?case
      by (cases p) (auto simp: expire_def now_def split: prod.splits sum.splits if_splits)
  qed simp
  show "broker_submit e ttl b = Some (Inl x, b') \<Longrightarrow> ?thesis"
    by (auto simp: broker_submit_def submit_body_def make_room_def insert_pending_def Let_def now_def
        enter_records_eq dest: expire datetime_add_Inl split: if_splits prod.splits sum.splits option.splits)
qed

text \<open>The reason an admission or scheduling failure leaves in the receipt.\<close>

lemma executor_submit_raises:
  assumes "executor_submit e admit spawn sql ttl x b = Some (Inl ex, x', b')"
    and "\<And>n. tz_aware (clock_at e n)"
  shows "ex \<in> {RequestUnavailable, ValueError, OverflowError} \<or> admit sql = Inl ex \<or> spawn = Inl ex"
proof -
  consider "ex = RequestUnavailable" | "admit sql = Inl ex"
    | g w b1 where "admit sql = Inr (g, w)" "broker_submit e ttl b = Some (Inl ex, b1)"
    | g w v b1 where "broker_submit e ttl b = Some (Inr v, b1)"
        "schedule e spawn g w v x b1 = (Inl ex, x', b')"
    using assms(1) by (auto simp: executor_submit_def split: if_splits sum.splits option.splits)
  then show ?thesis
  proof cases
    case (4 g w v b1)
    show ?thesis
    proof (cases spawn)
      case (Inl y)
      obtain u b2 where "suppress_unavailable (broker_fail e (view_id v) b1) = (Inr u, b2)"
        using fail_ok[of e, OF assms(2), of "view_id v" b1]
        by (cases "suppress_unavailable (broker_fail e (view_id v) b1)";
            cases "fst (suppress_unavailable (broker_fail e (view_id v) b1))") auto
      with 4(2) Inl show ?thesis by (simp add: schedule_def split: if_splits)
    next
      case (Inr u)
      with 4(2) show ?thesis by (simp add: schedule_def)
    qed
  qed (auto dest: broker_submit_raises)
qed

text \<open>
  Property C17.  What a submission answers.  An accepted receipt is given exactly for work that is
  scheduled: it names the pending request just registered and carries the SQL admission returned.
  A rejected receipt carries no SQL, schedules nothing and leaves no new pending request, and says
  \<open>POLICY_REJECTED\<close> only when admission (or the scheduler) raised the policy rejection.  The one
  error that escapes as an exception is an admission that returned empty governed SQL.
\<close>

theorem control_submit_receipt:
  assumes "control_submit e admit spawn sql ttl st = Some (res, st')"
    and "broker_inv (rt_broker st)" and "good_entropy e" and "\<And>n. tz_aware (clock_at e n)"
    and "\<And>ex. spawn = Inl ex \<Longrightarrow> is_Exception ex" and "\<And>ex. admit sql = Inl ex \<Longrightarrow> is_Exception ex"
  shows "case res of
      Inr r \<Rightarrow> valid_query_receipt r \<and>
        (if qr_status r = ACCEPTED then
           (\<exists>x x' g work v rec. rt_executor st = Some x \<and> \<not> exec_closed x \<and> rt_executor st' = Some x' \<and>
              admit sql = Inr (g, work) \<and> qr_governed_sql r = Some g \<and>
              exec_tasks x' = exec_tasks x @ [(v, work)] \<and> view_id v = qr_request_id r \<and>
              map_of (records (rt_broker st')) (qr_request_id r) = Some rec \<and>
              record_view rec = v \<and> rec_status rec = PENDING)
         else
           rt_executor st' = rt_executor st \<and> no_new_pending (rt_broker st) (rt_broker st') \<and>
           (qr_reason_code r = POLICY_REJECTED \<longrightarrow>
              admit sql = Inl QueryPolicyRejected \<or> spawn = Inl QueryPolicyRejected))
    | Inl ex \<Rightarrow> ex = ValidationError \<and> (\<exists>work. admit sql = Inr ([], work))"
proof (cases "rt_executor st")
  case None
  obtain r where "rejected_receipt e SERVICE_UNAVAILABLE st = (Inr r, snd (draw_token e st))"
    "valid_query_receipt r" "qr_status r = REJECTED" "qr_reason_code r = SERVICE_UNAVAILABLE"
    using rejected_valid[OF assms(3), of SERVICE_UNAVAILABLE st] by auto
  with None assms(1) show ?thesis by (auto simp: control_submit_def records_no_new_pending)
next
  case (Some x)
  obtain m x' b' where ex: "executor_submit e admit spawn sql ttl x (rt_broker st) = Some (m, x', b')"
    using assms(1) Some by (auto simp: control_submit_def split: option.splits)
  note atomic = executor_submit_atomic_facts[OF ex assms(2,4,5)]
  let ?st = "\<lparr>rt_broker = b', rt_executor = Some x'\<rparr> :: ('a, 'b, 'c) runtime"
  show ?thesis
  proof (cases m)
    case (Inl y)
    define reason where "reason = (if y = QueryPolicyRejected then POLICY_REJECTED else SERVICE_UNAVAILABLE)"
    have nn: "reason \<noteq> NONE" by (simp add: reason_def)
    have "is_Exception y"
      using executor_submit_raises[OF ex[unfolded Inl] assms(4)] assms(5,6)
      by (auto simp: is_Exception_def)
    with assms(1) Some ex Inl have out: "(res, st') = rejected_receipt e reason ?st"
      by (auto simp: control_submit_def reason_def split: if_splits)
    obtain r where r: "rejected_receipt e reason ?st = (Inr r, snd (draw_token e ?st))"
      "valid_query_receipt r" "qr_status r = REJECTED" "qr_reason_code r = reason"
      using rejected_valid[OF assms(3) nn, of ?st] by blast
    have "qr_reason_code r = POLICY_REJECTED \<longrightarrow> admit sql = Inl QueryPolicyRejected \<or> spawn = Inl QueryPolicyRejected"
      using executor_submit_raises[OF ex[unfolded Inl] assms(4)] r(4) by (auto simp: reason_def)
    moreover have "x' = x" "no_new_pending (rt_broker st) b'" using atomic Inl by auto
    ultimately show ?thesis using out r Some
      by (auto intro: no_new_pending_trans[OF _ records_no_new_pending])
  next
    case (Inr s)
    with atomic obtain work where w: "admit sql = Inr (sub_governed_sql s, work)"
      "broker_submit e ttl (rt_broker st) = Some (Inr (sub_request s), b')"
      "exec_tasks x' = exec_tasks x @ [(sub_request s, work)]" "\<not> exec_closed x" by auto
    have len: "length (entropy_at e n) = 18" for n using assms(3) by (simp add: good_entropy_def)
    obtain rs rec where
      rec: "records b' = rs @ [(view_id (sub_request s), rec)]" "view_id (sub_request s) \<notin> set (keys rs)"
        "record_view rec = sub_request s" "view_status (sub_request s) = PENDING"
        "request_id_pattern (view_id (sub_request s))"
      using submit_new_record[OF w(2) assms(2)] token_urlsafe_shape[OF len] by metis
    then have lk: "map_of (records b') (view_id (sub_request s)) = Some rec"
      by (simp add: map_add_Some_iff map_of_eq_None_iff)
    have "view_status (record_view rec) = PENDING" using rec(3,4) by simp
    then have pend: "rec_status rec = PENDING" by (simp add: record_view_def)
    have st': "st' = ?st" "res = new_query_receipt ACCEPTED (view_id (sub_request s)) NONE
        (Some (sub_governed_sql s))"
      using assms(1) Some ex Inr by (auto simp: control_submit_def Let_def)
    show ?thesis
    proof (cases "sub_governed_sql s = []")
      case True
      with st' w(1) rec(5) show ?thesis
        by (auto simp: new_query_receipt_def valid_query_receipt_def governed_sql_field_def)
    next
      case False
      with st'(2) rec(5) have res: "res = Inr \<lparr>qr_status = ACCEPTED, qr_request_id = view_id (sub_request s),
          qr_reason_code = NONE, qr_governed_sql = Some (sub_governed_sql s)\<rparr>"
        by (simp add: new_query_receipt_def valid_query_receipt_def governed_sql_field_def
            consistent_submission_def Suc_le_eq)
      moreover have "valid_query_receipt (projr res)"
        using res st'(2)[symmetric] by (simp only: new_query_receipt_Inr sum.sel)
      ultimately show ?thesis using w Some lk rec(3) pend st'(1) by auto
    qed
  qed
qed

theorem control_submit_receipt_witness:
  "\<exists>r st'. control_submit steady_env sample_admission (Inr ()) ''SELECT 1'' (seconds 60)
      \<lparr>rt_broker = sample_broker, rt_executor = Some executor_init\<rparr> = Some (Inr r, st') \<and>
     valid_query_receipt r \<and> qr_status r = ACCEPTED \<and>
     (\<exists>rec. map_of (records (rt_broker st')) (qr_request_id r) = Some rec \<and> rec_status rec = PENDING)"
proof -
  let ?st = "\<lparr>rt_broker = sample_broker, rt_executor = Some executor_init\<rparr> :: (nat, nat, nat) runtime"
  let ?out = "control_submit steady_env sample_admission (Inr ()) ''SELECT 1'' (seconds 60) ?st"
  have "map_option (\<lambda>out. case fst out of Inl x \<Rightarrow> None | Inr r \<Rightarrow> Some (qr_status r)) ?out =
    Some (Some ACCEPTED)" by code_simp
  then obtain out where "?out = Some out"
    "(case fst out of Inl x \<Rightarrow> None | Inr r \<Rightarrow> Some (qr_status r)) = Some ACCEPTED" by blast
  then obtain r st' where out: "?out = Some (Inr r, st')" "qr_status r = ACCEPTED"
    by (cases out; cases "fst out") auto
  have inv: "broker_inv (rt_broker ?st)"
    using sample_after_inv[of "[]"] by (simp add: sample_after_def)
  have aware: "tz_aware (clock_at steady_env n)" for n by (simp add: steady_env_def)
  have ent: "good_entropy steady_env" by (simp add: good_entropy_def steady_env_def)
  have adm: "is_Exception ex" if "sample_admission ''SELECT 1'' = Inl ex" for ex
    using that by (simp add: sample_admission_def)
  have spawn: "is_Exception ex" if "Inr () = Inl ex" for ex using that by simp
  from control_submit_receipt[OF out(1) inv ent aware spawn adm] out show ?thesis
    by (simp del: sum.split) blast
qed

text \<open>
  What a status lookup answers for a well-formed identifier: the broker's state of
  that request after expiry, under the lifecycle status of the same value, \<open>not_found\<close> exactly
  for an unknown one, and \<open>service_unavailable\<close> when the broker's clock raised; the identifier
  is echoed and only the broker's store is touched.
\<close>

theorem control_status_reports:
  assumes "request_id_pattern i"
  shows "\<exists>s st'. control_status e i st = (Inr \<lparr>qs_request_id = i, qs_status = s\<rparr>, st') \<and>
    rt_executor st' = rt_executor st \<and>
    (case map_of (records (rt_broker st')) i of
       None \<Rightarrow> s = LC_NOT_FOUND \<and> map_of (records (rt_broker st)) i = None
     | Some r \<Rightarrow>
         if rec_status r \<in> {PENDING, COMPLETE} \<and> \<not> tz_aware (clock_at e (clock_reads (rt_broker st)))
         then s = LC_SERVICE_UNAVAILABLE else s = lifecycle_of (rec_status r))"
proof -
  let ?b = "rt_broker st"
  obtain res b' where lr: "get_request e i ?b = (res, b')" by fastforce
  then have "locked_record e i (\<lambda>r. (Inr (record_view r), r)) ?b = (res, b')"
    by (simp add: get_request_def)
  then show ?thesis
  proof (cases rule: locked_record_cases)
    case unknown
    with assms lr show ?thesis by (simp add: control_status_def new_status_receipt_def)
  next
    case (clock r x n)
    then have "x = ValueError" "rec_status r \<in> {PENDING, COMPLETE}"
      "\<not> tz_aware (clock_at e (clock_reads ?b))"
      by (auto simp: expire_def now_def split: if_splits)
    with assms lr clock show ?thesis
      by (simp add: control_status_def new_status_receipt_def is_Exception_def)
  next
    case (ran r c r1 n r2)
    then have r2: "r2 = r1" "res = Inr (record_view r1)" by auto
    have "rec_status r1 \<in> {PENDING, COMPLETE} \<Longrightarrow> tz_aware (clock_at e (clock_reads ?b))"
      using ran(2) by (auto simp: expire_def now_def split: if_splits)
    with assms lr ran r2 show ?thesis
      by (auto simp: control_status_def new_status_receipt_def record_view_def AList.update_conv')
  qed
qed

theorem control_status_reports_witness:
  "request_id_pattern sample_id \<and>
   (\<exists>st'. control_status steady_env sample_id
      (\<lparr>rt_broker = sample_after [Submit (seconds 60)], rt_executor = None\<rparr> :: (nat, nat, nat) runtime) =
      (Inr \<lparr>qs_request_id = sample_id, qs_status = LC_PENDING\<rparr>, st'))"
proof -
  let ?st = "\<lparr>rt_broker = sample_after [Submit (seconds 60)], rt_executor = None\<rparr> :: (nat, nat, nat) runtime"
  have pat: "request_id_pattern sample_id" by code_simp
  have "map_option rec_status (map_of (records (rt_broker (snd (control_status steady_env sample_id ?st)))) sample_id)
    = Some PENDING" by code_simp
  moreover obtain s st' where out: "control_status steady_env sample_id ?st =
      (Inr \<lparr>qs_request_id = sample_id, qs_status = s\<rparr>, st')"
    "case map_of (records (rt_broker st')) sample_id of
       None \<Rightarrow> s = LC_NOT_FOUND \<and> map_of (records (rt_broker ?st)) sample_id = None
     | Some r \<Rightarrow>
         if rec_status r \<in> {PENDING, COMPLETE} \<and> \<not> tz_aware (clock_at steady_env (clock_reads (rt_broker ?st)))
         then s = LC_SERVICE_UNAVAILABLE else s = lifecycle_of (rec_status r)"
    using control_status_reports[OF pat, of steady_env ?st] by blast
  ultimately have "s = LC_PENDING" by (auto simp: steady_env_def)
  with pat out(1) show ?thesis by blast
qed

end
