(* ===== verification/Result_Api.thy ===== *)
theory Result_Api
  imports Arrow_Stream Control
begin

text \<open>
  The human-facing result routes (\<open>src/snowglobe/result_api.py\<close>): the JSON routes over the broker
  and the framed Arrow stream, whose generator checks before every frame that the request still
  holds the very source it is sending.  Between two steps of the generator other callers of the
  broker may run; their calls are an argument.
\<close>

section \<open>Time stamps\<close>

text \<open>\<open>datetime.isoformat\<close> of a UTC instant: the proleptic Gregorian date of a day number.\<close>

definition civil_of_days :: "int \<Rightarrow> int \<times> int \<times> int" where
  "civil_of_days days =
     (let z = days + 719468;
          era = z div 146097;
          doe = z mod 146097;
          yoe = (doe - doe div 1460 + doe div 36524 - doe div 146096) div 365;
          doy = doe - (365 * yoe + yoe div 4 - yoe div 100);
          mp = (5 * doy + 2) div 153;
          d = doy - (153 * mp + 2) div 5 + 1;
          m = (if mp < 10 then mp + 3 else mp - 9)
      in (yoe + era * 400 + (if m \<le> 2 then 1 else 0), m, d))"

fun padded :: "nat \<Rightarrow> nat \<Rightarrow> string" where
  "padded 0 n = []"
| "padded (Suc k) n = padded k (n div 10) @ [char_of (48 + n mod 10)]"

definition isoformat :: "instant \<Rightarrow> string" where
  "isoformat t =
     (let us = t mod 1000000; s = t div 1000000; day = s div 86400; sec = s mod 86400 in
      case civil_of_days day of
        (y, m, d) \<Rightarrow>
          padded 4 (nat y) @ ''-'' @ padded 2 (nat m) @ ''-'' @ padded 2 (nat d) @ ''T'' @
          padded 2 (nat (sec div 3600)) @ '':'' @ padded 2 (nat (sec div 60 mod 60)) @ '':'' @
          padded 2 (nat (sec mod 60)) @
          (if us = 0 then [] else ''.'' @ padded 6 (nat us)) @ ''+00:00'')"

section \<open>JSON routes\<close>

record response =
  status_code :: nat
  headers :: "(string \<times> string) list"
  body :: pyval

definition RESPONSE_HEADERS :: "(string \<times> string) list" where
  "RESPONSE_HEADERS = [(''Cache-Control'', ''no-store'')]"

definition json_response :: "nat \<Rightarrow> pyval \<Rightarrow> response" where
  "json_response code v = \<lparr>status_code = code, headers = RESPONSE_HEADERS, body = v\<rparr>"

definition not_found :: response where
  "not_found = json_response 404 (PDict [(''error'', PStr ''not_found'')])"

definition unavailable :: response where
  "unavailable = json_response 503 (PDict [(''error'', PStr ''service_unavailable'')])"

definition serialize_view :: "request_view \<Rightarrow> pyval" where
  "serialize_view v =
     PDict [(''request_id'', PStr (view_id v)),
            (''status'', PStr (request_status_value (view_status v))),
            (''expires_at'', PStr (isoformat (view_expires_at v)))]"

definition health :: response where
  "health = json_response 200 (PDict [(''status'', PStr ''ok'')])"

definition list_route :: "env \<Rightarrow> ('s, 'c) broker \<Rightarrow> response \<times> ('s, 'c) broker" where
  "list_route e b =
     (case list_requests e b of
        (Inl x, b') \<Rightarrow> (unavailable, b')
      | (Inr vs, b') \<Rightarrow>
          (json_response 200 (PDict [(''requests'', PList (map serialize_view vs))]), b'))"

definition open_request :: "env \<Rightarrow> string \<Rightarrow> ('s, 'c) broker \<Rightarrow> response \<times> ('s, 'c) broker" where
  "open_request e i b =
     (case get_request e i b of
        (Inl x, b') \<Rightarrow> (if x = RequestUnavailable then not_found else unavailable, b')
      | (Inr v, b') \<Rightarrow> (json_response 200 (serialize_view v), b'))"

text \<open>The streaming route: an error response, or the source whose framed stream is the body.\<close>

definition stream_request ::
  "env \<Rightarrow> string \<Rightarrow> ('s, 'c) broker \<Rightarrow> (response + 's) \<times> ('s, 'c) broker" where
  "stream_request e i b =
     (case open_source e i b of
        (Inl x, b') \<Rightarrow> (Inl (if x = RequestUnavailable then not_found else unavailable), b')
      | (Inr s, b') \<Rightarrow> (Inr s, b'))"

section \<open>Frames\<close>

definition STREAM_MAGIC :: "byte list" where
  "STREAM_MAGIC = map (\<lambda>ch. word_of_nat (char_code ch)) ''SNOWGLOBE-ARROW-STREAM'' @ [1]"

definition ARROW_FRAME :: nat where "ARROW_FRAME = 1"

definition COMPLETE_FRAME :: nat where "COMPLETE_FRAME = 2"

text \<open>\<open>struct.Struct(">BQ").pack\<close>: a byte and a big-endian 64-bit length; out of range it raises.\<close>

fun be_bytes :: "nat \<Rightarrow> nat \<Rightarrow> byte list" where
  "be_bytes 0 n = []"
| "be_bytes (Suc k) n = be_bytes k (n div 256) @ [word_of_nat n]"

definition pack_header :: "nat \<Rightarrow> nat \<Rightarrow> byte list result" where
  "pack_header kind len =
     (if kind < 256 \<and> len < 2 ^ 64 then Inr (word_of_nat kind # be_bytes 8 len) else Inl StructError)"

section \<open>The framed stream\<close>

text \<open>A source object: its identity (\<open>is\<close>) and what it yields.\<close>

record ('m, 'x) source_object =
  source_identity :: nat
  source_content :: "('m, 'x) batch_source"

definition same_object :: "('m, 'x) source_object \<Rightarrow> ('m, 'x) source_object \<Rightarrow> bool" where
  "same_object s t \<longleftrightarrow> source_identity s = source_identity t"

text \<open>
  \<open>broker.open_source(request_id) is not source\<close> after the calls of the other callers: whether the
  generator goes on.  \<open>None\<close> when one of those calls never returns.
\<close>

definition still_available ::
  "env \<Rightarrow> string \<Rightarrow> ('m, 'x) source_object \<Rightarrow>
   (('m, 'x) source_object, 'c) broker_call list \<Rightarrow> (('m, 'x) source_object, 'c) broker \<Rightarrow>
   (bool \<times> (('m, 'x) source_object, 'c) broker) option"
where
  "still_available e i src calls b =
     (case broker_run e calls b of
        None \<Rightarrow> None
      | Some b1 \<Rightarrow>
          (case open_source e i b1 of
             (Inl x, b2) \<Rightarrow> Some (False, b2)
           | (Inr s, b2) \<Rightarrow> Some (same_object s src, b2)))"

text \<open>
  The loop over the chunks of \<open>ipc_chunks\<close> and how that generator ends; \<open>calls n\<close> are the calls
  of others before the \<open>n\<close>-th check.  The result is what is yielded.
\<close>

fun framed_loop ::
  "env \<Rightarrow> string \<Rightarrow> ('m, 'x) source_object \<Rightarrow>
   (nat \<Rightarrow> (('m, 'x) source_object, 'c) broker_call list) \<Rightarrow> nat \<Rightarrow>
   byte list list \<Rightarrow> unit result \<Rightarrow> (('m, 'x) source_object, 'c) broker \<Rightarrow>
   (byte list list \<times> (('m, 'x) source_object, 'c) broker) option"
where
  "framed_loop e i src calls n [] (Inl x) b = Some ([], b)"
| "framed_loop e i src calls n [] (Inr _) b =
     (case still_available e i src (calls n) b of
        None \<Rightarrow> None
      | Some (False, b1) \<Rightarrow> Some ([], b1)
      | Some (True, b1) \<Rightarrow>
          (case pack_header COMPLETE_FRAME 0 of
             Inl x \<Rightarrow> Some ([], b1)
           | Inr h \<Rightarrow> Some ([h], b1)))"
| "framed_loop e i src calls n (chunk # chunks) end' b =
     (case still_available e i src (calls n) b of
        None \<Rightarrow> None
      | Some (False, b1) \<Rightarrow> Some ([], b1)
      | Some (True, b1) \<Rightarrow>
          (case pack_header ARROW_FRAME (length chunk) of
             Inl x \<Rightarrow> Some ([], b1)
           | Inr h \<Rightarrow>
               map_option (\<lambda>(out, b2). ((h @ chunk) # out, b2))
                 (framed_loop e i src calls (Suc n) chunks end' b1)))"

definition framed_stream ::
  "env \<Rightarrow> ('m, 'x) ipc_writer \<Rightarrow> limits \<Rightarrow> string \<Rightarrow> ('m, 'x) source_object \<Rightarrow>
   (nat \<Rightarrow> (('m, 'x) source_object, 'c) broker_call list) \<Rightarrow>
   (('m, 'x) source_object, 'c) broker \<Rightarrow>
   (byte list list \<times> (('m, 'x) source_object, 'c) broker) option"
where
  "framed_stream e w l i src calls b =
     (case ipc_chunks w (source_schema (source_content src)) (open_batches (source_content src))
             (maximum_arrow_bytes l) of
        (chunks, end') \<Rightarrow>
          map_option (\<lambda>(out, b'). (STREAM_MAGIC # out, b'))
            (framed_loop e i src calls 0 chunks end' b))"

end
