(* ===== verification/Result_Props.thy ===== *)
theory Result_Props
  imports Result_Api Arrow_Admission
begin

text \<open>
  What a reader of the framed stream may conclude: the frames parse unambiguously, a completion
  frame means that every chunk of the complete IPC stream was sent and the request still held the
  source, and nothing is sent after the request was withdrawn.
\<close>

section \<open>The frame format\<close>

datatype frame = Arrow_frame "byte list" | Complete_frame

fun be_value :: "byte list \<Rightarrow> nat" where
  "be_value [] = 0"
| "be_value (b # bs) = unat b * 256 ^ length bs + be_value bs"

lemma length_be_bytes [simp]: "length (be_bytes k n) = k"
  by (induction k arbitrary: n) auto

lemma be_value_append: "be_value (xs @ [b]) = 256 * be_value xs + unat b"
  by (induction xs) (auto simp: algebra_simps)

lemma be_value_be_bytes: "be_value (be_bytes k n) = n mod 256 ^ k"
proof (induction k arbitrary: n)
  case 0
  then show ?case by simp
next
  case (Suc k)
  have "n mod 256 ^ Suc k = n mod (256 * 256 ^ k)" by simp
  also have "\<dots> = 256 * (n div 256 mod 256 ^ k) + n mod 256" by (rule mod_mult2_eq)
  finally show ?case using Suc by (simp add: be_value_append unat_byte_of_nat)
qed

primrec frame_bytes :: "frame \<Rightarrow> byte list" where
  "frame_bytes (Arrow_frame chunk) = word_of_nat ARROW_FRAME # be_bytes 8 (length chunk) @ chunk"
| "frame_bytes Complete_frame = word_of_nat COMPLETE_FRAME # be_bytes 8 0"

primrec frame_ok :: "frame \<Rightarrow> bool" where
  "frame_ok (Arrow_frame chunk) = (length chunk < 2 ^ 64)"
| "frame_ok Complete_frame = True"

definition dec_frame :: "byte list \<Rightarrow> (frame \<times> byte list) option" where
  "dec_frame bs =
     (case bs of
        [] \<Rightarrow> None
      | kind # rest \<Rightarrow>
          if length rest < 8 then None
          else (let len = be_value (take 8 rest); payload = drop 8 rest in
                if unat kind = COMPLETE_FRAME \<and> len = 0 then Some (Complete_frame, payload)
                else if unat kind = ARROW_FRAME \<and> len \<le> length payload
                then Some (Arrow_frame (take len payload), drop len payload) else None))"

interpretation frame_codec: codec frame_bytes dec_frame frame_ok
proof unfold_locales
  fix f rest
  assume ok: "frame_ok f"
  show "dec_frame (frame_bytes f @ rest) = Some (f, rest)"
  proof (cases f)
    case (Arrow_frame chunk)
    with ok have "length chunk mod 256 ^ 8 = length chunk" by simp
    with Arrow_frame show ?thesis
      by (simp add: dec_frame_def be_value_be_bytes ARROW_FRAME_def COMPLETE_FRAME_def)
  qed (simp add: dec_frame_def be_value_be_bytes COMPLETE_FRAME_def)
qed

lemma frame_bytes_not_Nil [simp]: "frame_bytes f \<noteq> []"
  by (cases f) simp_all

text \<open>Parsing a whole body.\<close>

fun dec_frames :: "nat \<Rightarrow> byte list \<Rightarrow> frame list option" where
  "dec_frames fuel [] = Some []"
| "dec_frames 0 (b # bs) = None"
| "dec_frames (Suc fuel) (b # bs) =
     (case dec_frame (b # bs) of None \<Rightarrow> None
      | Some (f, rest) \<Rightarrow> map_option (Cons f) (dec_frames fuel rest))"

definition parse_stream :: "byte list \<Rightarrow> frame list option" where
  "parse_stream bs =
     (if take (length STREAM_MAGIC) bs = STREAM_MAGIC
      then dec_frames (length bs) (drop (length STREAM_MAGIC) bs) else None)"

lemma dec_frames_enc:
  "list_all frame_ok fs \<Longrightarrow> length fs \<le> fuel \<Longrightarrow> dec_frames fuel (concat (map frame_bytes fs)) = Some fs"
proof (induction fs arbitrary: fuel)
  case Nil
  then show ?case by simp
next
  case (Cons f fs)
  then obtain fuel' where fuel: "fuel = Suc fuel'" by (cases fuel) auto
  obtain b bs where bs: "frame_bytes f = b # bs" by (cases "frame_bytes f") auto
  have dec: "dec_frame (b # bs @ concat (map frame_bytes fs)) = Some (f, concat (map frame_bytes fs))"
    using frame_codec.dec_enc[of f "concat (map frame_bytes fs)"] Cons.prems(1) bs by simp
  with Cons fuel bs show ?case by simp
qed

lemma parse_stream_enc:
  assumes "list_all frame_ok fs"
  shows "parse_stream (STREAM_MAGIC @ concat (map frame_bytes fs)) = Some fs"
proof -
  have "length fs \<le> length (concat (map frame_bytes fs))"
  proof (induction fs)
    case (Cons f fs)
    have "1 \<le> length (frame_bytes f)" by (cases f) simp_all
    with Cons show ?case by simp
  qed simp
  then show ?thesis using assms by (simp add: parse_stream_def dec_frames_enc)
qed

section \<open>The frames of a stream\<close>

lemma pack_arrow:
  "pack_header ARROW_FRAME (length chunk) = Inr h \<Longrightarrow>
   h @ chunk = frame_bytes (Arrow_frame chunk) \<and> frame_ok (Arrow_frame chunk)"
  by (auto simp: pack_header_def ARROW_FRAME_def split: if_splits)

lemma pack_complete: "pack_header COMPLETE_FRAME 0 = Inr (frame_bytes Complete_frame)"
  by (simp add: pack_header_def COMPLETE_FRAME_def)

definition stream_frames :: "byte list list \<Rightarrow> bool \<Rightarrow> frame list" where
  "stream_frames chunks completed =
     map Arrow_frame chunks @ (if completed then [Complete_frame] else [])"

text \<open>
  What the loop yields: frames for a prefix of the chunks, and a completion frame only after all
  of them, when the generator of chunks ended normally; then the last check found the source.
\<close>

lemma framed_loop_frames:
  "framed_loop e i src calls n chunks end' b = Some (out, b') \<Longrightarrow>
   \<exists>sent unsent completed. chunks = sent @ unsent \<and>
     out = map frame_bytes (stream_frames sent completed) \<and>
     list_all frame_ok (stream_frames sent completed) \<and>
     (completed \<longrightarrow> unsent = [] \<and> end' = Inr () \<and>
        (\<exists>b1 s. open_source e i b1 = (Inr s, b') \<and> same_object s src))"
proof (induction e i src calls n chunks end' b arbitrary: out b' rule: framed_loop.induct)
  case (1 e i src calls n x b)
  then show ?case by (auto simp: stream_frames_def intro!: exI[of _ False])
next
  case (2 e i src calls n u b)
  then obtain ok b1 where av: "still_available e i src (calls n) b = Some (ok, b1)"
    by (auto split: option.splits)
  show ?case
  proof (cases ok)
    case True
    with 2 av have out: "out = [frame_bytes Complete_frame]" "b' = b1"
      by (auto simp: pack_complete)
    moreover from av True have "\<exists>b2 s. open_source e i b2 = (Inr s, b1) \<and> same_object s src"
      by (auto simp: still_available_def split: option.splits prod.splits sum.splits)
    ultimately show ?thesis by (auto simp: stream_frames_def intro!: exI[of _ True])
  next
    case False
    with 2 av show ?thesis by (auto simp: stream_frames_def intro!: exI[of _ False])
  qed
next
  case (3 e i src calls n chunk chunks end' b)
  from "3.prems" obtain ok b1 where av: "still_available e i src (calls n) b = Some (ok, b1)"
    by (auto split: option.splits)
  show ?case
  proof (cases "ok \<and> is_ok (pack_header ARROW_FRAME (length chunk))")
    case False
    with "3.prems" av have "out = []"
      by (auto split: sum.splits bool.splits)
    then show ?thesis
      by (intro exI[of _ "[]"] exI[of _ "chunk # chunks"] exI[of _ False])
        (simp add: stream_frames_def)
  next
    case True
    then obtain h where h: "pack_header ARROW_FRAME (length chunk) = Inr h"
      unfolding is_ok_iff by blast
    with "3.prems" av True obtain out' where
      rest: "framed_loop e i src calls (Suc n) chunks end' b1 = Some (out', b')"
      and out: "out = (h @ chunk) # out'" by auto
    have "\<exists>sent unsent completed. chunks = sent @ unsent \<and>
        out' = map frame_bytes (stream_frames sent completed) \<and>
        list_all frame_ok (stream_frames sent completed) \<and>
        (completed \<longrightarrow> unsent = [] \<and> end' = Inr () \<and>
          (\<exists>b1 s. open_source e i b1 = (Inr s, b') \<and> same_object s src))"
      by (rule "3.IH"[OF av refl _ h rest]) (use True in simp)
    then obtain sent unsent completed where
      ih: "chunks = sent @ unsent" "out' = map frame_bytes (stream_frames sent completed)"
        "list_all frame_ok (stream_frames sent completed)"
        "completed \<longrightarrow> unsent = [] \<and> end' = Inr () \<and>
          (\<exists>b1 s. open_source e i b1 = (Inr s, b') \<and> same_object s src)" by blast
    from pack_arrow[OF h] ih out show ?thesis
      by (intro exI[of _ "chunk # sent"] exI[of _ unsent] exI[of _ completed])
        (simp add: stream_frames_def)
  qed
qed

section \<open>Properties\<close>

text \<open>
  Property C12.  The body of a stream always parses, and a completion frame is a guarantee.
  Whatever other callers do meanwhile, the bytes sent are the magic followed by Arrow frames for
  a prefix of the chunks of the source's IPC stream.  If a completion frame was sent, the frames
  carry the complete IPC stream of the source's batches, and the request still held that very
  source, complete and unexpired, when the generator last looked.
\<close>

theorem completed_stream_is_whole:
  assumes "framed_stream e w l i src calls b = Some (out, b')"
  shows "\<exists>sent completed. parse_stream (concat out) = Some (map Arrow_frame sent @
      (if completed then [Complete_frame] else [])) \<and>
    (\<exists>unsent. sent @ unsent = fst (ipc_chunks w (source_schema (source_content src))
        (open_batches (source_content src)) (maximum_arrow_bytes l))) \<and>
    (completed \<longrightarrow>
       concat sent = ipc_stream w (source_schema (source_content src)) (source_batches (source_content src)) \<and>
       (\<exists>b1 s. open_source e i b1 = (Inr s, b') \<and> same_object s src))"
proof -
  let ?s = "source_schema (source_content src)" and ?bs = "source_batches (source_content src)"
  obtain chunks end' where ch: "ipc_chunks w ?s (open_batches (source_content src))
      (maximum_arrow_bytes l) = (chunks, end')" by fastforce
  with assms obtain out' where loop: "framed_loop e i src calls 0 chunks end' b = Some (out', b')"
    and out: "out = STREAM_MAGIC # out'" by (auto simp: framed_stream_def)
  from framed_loop_frames[OF loop] obtain sent unsent completed where fr: "chunks = sent @ unsent"
    "out' = map frame_bytes (stream_frames sent completed)" "list_all frame_ok (stream_frames sent completed)"
    "completed \<longrightarrow> unsent = [] \<and> end' = Inr () \<and>
        (\<exists>b1 s. open_source e i b1 = (Inr s, b') \<and> same_object s src)" by blast
  have parse: "parse_stream (concat out) = Some (stream_frames sent completed)"
    using parse_stream_enc[OF fr(3)] by (simp add: out fr(2))
  have "concat sent = ipc_stream w ?s ?bs" if completed
    using that fr(1,4) ch by (auto intro: ipc_chunks_complete)
  with parse fr ch show ?thesis
    by (intro exI[of _ sent] exI[of _ completed]) (auto simp: stream_frames_def)
qed

definition sample_source :: "(nat, nat) source_object" where
  "sample_source =
     \<lparr>source_identity = 1,
      source_content = \<lparr>source_schema = sample_schema, source_batches = [sample_batch]\<rparr>\<rparr>"

definition source_broker :: "((nat, nat) source_object, nat) broker" where
  "source_broker =
     \<lparr>maximum_ttl = minutes 5, maximum_pending_requests = Some 1, maximum_requests = Some 2,
      records = [(sample_id, \<lparr>rec_id = sample_id, rec_status = COMPLETE, rec_expires_at = seconds 60,
        rec_source = Some sample_source, rec_cursor = None\<rparr>)],
      clock_reads = 0, tokens_drawn = 0, trace = []\<rparr>"

lemma source_broker_inv: "broker_inv source_broker"
  by (simp add: source_broker_def broker_inv_def store_inv_def wf_record_def pending_count_def
      fits_def lock_free_def minutes_def)

lemma sample_chunks:
  "ipc_chunks sample_writer (source_schema (source_content sample_source))
     (open_batches (source_content sample_source)) (maximum_arrow_bytes MVP_ARROW_LIMITS) =
   ([[255, 255] @ replicate 24 7, [0]], Inr ())"
  by (simp add: ipc_chunks_def open_batches_def sample_source_def sample_writer_def sample_batch_def
      MVP_ARROW_LIMITS_def MVP_MAXIMUM_VIEWPORT_BYTES_def sink_write_all_def sink_write_def
      sink_drain_def new_sink_def emit_def)

text \<open>Others list the requests before every check; the clock stays before the deadline.\<close>

lemma sample_framed_stream:
  "\<exists>out b'. framed_stream steady_env sample_writer MVP_ARROW_LIMITS sample_id sample_source
      (\<lambda>n. [List_all]) source_broker = Some (out, b') \<and>
    out = [STREAM_MAGIC, frame_bytes (Arrow_frame ([255, 255] @ replicate 24 7)),
      frame_bytes (Arrow_frame [0]), frame_bytes Complete_frame]"
  by (simp add: framed_stream_def sample_chunks still_available_def source_broker_def
      list_requests_def enter_records_eq exit_records_eq open_source_def locked_record_def Let_def
      log_event_def expire_def now_def steady_env_def seconds_def open_body_def cancel_opt_def
      same_object_def pack_header_def ARROW_FRAME_def COMPLETE_FRAME_def)

theorem completed_stream_is_whole_witness:
  "\<exists>out b' sent. framed_stream steady_env sample_writer MVP_ARROW_LIMITS sample_id sample_source
      (\<lambda>n. [List_all]) source_broker = Some (out, b') \<and>
    parse_stream (concat out) = Some (map Arrow_frame sent @ [Complete_frame]) \<and>
    concat sent = ipc_stream sample_writer sample_schema [sample_batch]"
proof -
  obtain out b' where out: "framed_stream steady_env sample_writer MVP_ARROW_LIMITS sample_id sample_source
      (\<lambda>n. [List_all]) source_broker = Some (out, b')"
    "out = [STREAM_MAGIC, frame_bytes (Arrow_frame ([255, 255] @ replicate 24 7)),
      frame_bytes (Arrow_frame [0]), frame_bytes Complete_frame]"
    using sample_framed_stream by blast
  from completed_stream_is_whole[OF out(1)] obtain sent completed where sent:
    "parse_stream (concat out) = Some (map Arrow_frame sent @ (if completed then [Complete_frame] else []))"
    "completed \<longrightarrow> concat sent = ipc_stream sample_writer (source_schema (source_content sample_source))
       (source_batches (source_content sample_source))" by blast
  let ?fs = "[Arrow_frame ([255, 255] @ replicate 24 7), Arrow_frame [0], Complete_frame]"
  have "parse_stream (concat out) = Some ?fs"
    using parse_stream_enc[of ?fs] by (simp add: out(2) del: frame_bytes.simps)
  with sent(1) have "completed" by (cases completed) (auto dest: arg_cong[where f = last])
  with sent out(1) show ?thesis by (auto simp: sample_source_def)
qed

text \<open>
  No frame follows a withdrawal.  \<open>unserved\<close>: the request has no source, whatever the status.
\<close>

definition unserved :: "string \<Rightarrow> ('s, 'c) broker \<Rightarrow> bool" where
  "unserved i b \<longleftrightarrow> (\<forall>r. map_of (records b) i = Some r \<longrightarrow> rec_source r = None)"

lemma unserved_kept: "sources_kept i b b' \<Longrightarrow> unserved i b \<Longrightarrow> unserved i b'"
  unfolding sources_kept_def unserved_def by (metis not_None_eq)

lemma unserved_run:
  "broker_run e calls b = Some b' \<Longrightarrow> (\<And>s. Publish i s \<notin> set calls) \<Longrightarrow> unserved i b \<Longrightarrow> unserved i b'"
proof (induction calls arbitrary: b)
  case (Cons q calls)
  then obtain b1 where "broker_exec e q b = Some b1" "broker_run e calls b1 = Some b'"
    by (auto split: option.splits)
  with Cons broker_exec_sources[of e q b b1 i] show ?case by (auto intro: unserved_kept)
qed simp

lemma cancelled_unserved:
  assumes "\<And>n. tz_aware (clock_at e n)" and "broker_inv b"
  shows "unserved i (snd (broker_cancel e i b))"
  unfolding unserved_def
proof (intro allI impI)
  fix r
  assume r: "map_of (records (snd (broker_cancel e i b))) i = Some r"
  have inv: "broker_inv (snd (broker_cancel e i b))" by (rule broker_cancel_inv[OF assms(2)])
  obtain res b' where lr: "locked_record e i cancel_body b = (res, b')" by fastforce
  then have b': "records (snd (broker_cancel e i b)) = records b'" by (simp add: broker_cancel_def)
  have "store_evolves b b'"
    by (rule locked_record_evolves[OF lr broker_inv_distinct[OF assms(2)]]) (rule body_evolves)
  then obtain r0 where "map_of (records b) i = Some r0"
    using odict_rel_lookup_back r b' by (fastforce simp: store_evolves_def)
  from locked_record_result_record[OF lr assms(1) this] obtain r1 r2 where
    "cancel_body r1 = (res, r2)" "map_of (records b') i = Some r2" by blast
  with r b' have "rec_status r \<noteq> COMPLETE"
    by (auto simp: cancel_body_def Let_def split: if_splits)
  with broker_inv_record[OF inv r] show "rec_source r = None" by (auto simp: wf_record_def)
qed

lemma cancel_run_unserved:
  assumes "broker_run e calls b = Some b'" and "Cancel i \<in> set calls"
    and "\<And>s. Publish i s \<notin> set calls" and "\<And>n. tz_aware (clock_at e n)" and "broker_inv b"
  shows "unserved i b'"
  using assms(1-3,5)
proof (induction calls arbitrary: b)
  case (Cons q calls)
  then obtain b1 where b1: "broker_exec e q b = Some b1" "broker_run e calls b1 = Some b'"
    by (auto split: option.splits)
  note inv1 = broker_exec_inv[OF b1(1) Cons.prems(4)]
  show ?case
  proof (cases "q = Cancel i")
    case True
    with b1(1) cancelled_unserved[OF assms(4) Cons.prems(4), of i] have "unserved i b1" by auto
    with unserved_run[OF b1(2)] Cons.prems(3) show ?thesis by auto
  next
    case False
    with Cons.IH[OF b1(2) _ _ inv1] Cons.prems show ?thesis by auto
  qed
qed simp

lemma open_unserved:
  assumes "unserved i b" and "open_source e i b = (res, b')"
  shows "\<not> is_ok res \<and> unserved i b'"
proof -
  have "unserved i b'"
    using unserved_kept[OF op_sources(5) assms(1), of e i] assms(2) by simp
  moreover have "locked_record e i open_body b = (res, b')" using assms(2) by (simp add: open_source_def)
  then have "\<not> is_ok res"
  proof (cases rule: locked_record_cases)
    case (ran r c r1 n r2)
    have "rec_source r1 = None"
      using expire_loses[OF ran(2)] ran(1) assms(1) by (auto simp: loses_source_def unserved_def)
    with ran(3) show ?thesis by (auto simp: open_body_def split: if_splits)
  qed simp_all
  ultimately show ?thesis by blast
qed

lemma still_available_inv:
  assumes "still_available e i src calls b = Some (ok, b')" and "broker_inv b"
  shows "broker_inv b'"
proof -
  obtain b1 where b1: "broker_run e calls b = Some b1"
    using assms(1) by (auto simp: still_available_def split: option.splits)
  have "broker_inv (snd (open_source e i b1))"
    by (rule store_evolves_inv[OF op_evolves(6)[OF broker_inv_distinct]])
      (rule broker_run_inv[OF b1 assms(2)])+
  with assms(1) b1 show ?thesis
    by (auto simp: still_available_def split: prod.splits sum.splits)
qed

lemma cancelled_not_available:
  assumes "still_available e i src calls b = Some (ok, b')" and "Cancel i \<in> set calls"
    and "\<And>s. Publish i s \<notin> set calls" and "\<And>n. tz_aware (clock_at e n)" and "broker_inv b"
  shows "\<not> ok"
proof -
  obtain b1 where b1: "broker_run e calls b = Some b1"
    using assms(1) by (auto simp: still_available_def split: option.splits)
  have "unserved i b1" by (rule cancel_run_unserved[OF b1 assms(2,3,4,5)])
  with open_unserved[of i b1 e] assms(1) b1 show ?thesis
    by (cases "open_source e i b1"; cases "fst (open_source e i b1)")
      (auto simp: still_available_def)
qed

lemma framed_loop_cut:
  assumes "Cancel i \<in> set (calls k)" and "\<And>n s. Publish i s \<notin> set (calls n)"
    and "\<And>n. tz_aware (clock_at e n)"
  shows "framed_loop e i src calls n chunks end' b = Some (out, b') \<Longrightarrow> broker_inv b \<Longrightarrow> n \<le> k \<Longrightarrow>
    k \<le> n + length chunks \<Longrightarrow>
    \<exists>sent. out = map (\<lambda>c. frame_bytes (Arrow_frame c)) sent \<and> n + length sent \<le> k"
proof (induction chunks arbitrary: n b out)
  case Nil
  then have n: "n = k" by simp
  show ?case
  proof (cases end')
    case (Inl x)
    with Nil n show ?thesis by simp
  next
    case (Inr u)
    with Nil.prems(1) obtain ok b1 where av: "still_available e i src (calls n) b = Some (ok, b1)"
      by (auto split: option.splits)
    have "\<not> ok" using cancelled_not_available[OF av _ assms(2,3) Nil.prems(2)] assms(1) n by simp
    with Nil n Inr av show ?thesis by simp
  qed
next
  case (Cons chunk chunks)
  from Cons.prems(1) obtain ok b1 where av: "still_available e i src (calls n) b = Some (ok, b1)"
    by (auto split: option.splits)
  show ?case
  proof (cases "ok \<and> is_ok (pack_header ARROW_FRAME (length chunk))")
    case False
    with Cons.prems av have "out = []" by (auto split: sum.splits bool.splits)
    with Cons.prems(3) show ?thesis by simp
  next
    case True
    then obtain h where h: "pack_header ARROW_FRAME (length chunk) = Inr h"
      unfolding is_ok_iff by blast
    have "n \<noteq> k"
      using cancelled_not_available[OF av _ assms(2,3) Cons.prems(2)] assms(1) True by auto
    with Cons.prems(3,4) have n: "Suc n \<le> k" "k \<le> Suc n + length chunks" by simp_all
    from Cons.prems(1) av True h obtain out' where
      rest: "framed_loop e i src calls (Suc n) chunks end' b1 = Some (out', b')"
      and out: "out = (h @ chunk) # out'" by auto
    from Cons.IH[OF rest still_available_inv[OF av Cons.prems(2)] n] obtain sent where
      "out' = map (\<lambda>c. frame_bytes (Arrow_frame c)) sent" "Suc n + length sent \<le> k" by blast
    with out pack_arrow[OF h] show ?thesis by (intro exI[of _ "chunk # sent"]) simp
  qed
qed

text \<open>
  Property C26.  Cancellation cuts a running stream off.  If another caller cancels the request
  before the generator's \<open>k\<close>-th check, and nobody publishes under its identifier, then at most
  \<open>k\<close> Arrow frames are sent in all, none of them after the cancellation, and the body has no
  completion frame, so its reader knows that it is incomplete.
\<close>

theorem cancelled_stream_is_cut:
  assumes "framed_stream e w l i src calls b = Some (out, b')" and "broker_inv b"
    and "\<And>n. tz_aware (clock_at e n)" and "Cancel i \<in> set (calls k)"
    and "\<And>n s. Publish i s \<notin> set (calls n)"
    and "k \<le> length (fst (ipc_chunks w (source_schema (source_content src))
           (open_batches (source_content src)) (maximum_arrow_bytes l)))"
  shows "\<exists>sent. out = STREAM_MAGIC # map (\<lambda>c. frame_bytes (Arrow_frame c)) sent \<and> length sent \<le> k"
proof -
  obtain chunks end' where ch: "ipc_chunks w (source_schema (source_content src))
      (open_batches (source_content src)) (maximum_arrow_bytes l) = (chunks, end')" by fastforce
  with assms(1) obtain out' where loop: "framed_loop e i src calls 0 chunks end' b = Some (out', b')"
    and out: "out = STREAM_MAGIC # out'" by (auto simp: framed_stream_def)
  from framed_loop_cut[OF assms(4,5,3) loop assms(2)] assms(6) ch obtain sent where
    "out' = map (\<lambda>c. frame_bytes (Arrow_frame c)) sent" "length sent \<le> k" by auto
  with out show ?thesis by blast
qed

definition cancel_second :: "nat \<Rightarrow> ((nat, nat) source_object, nat) broker_call list" where
  "cancel_second n = (if n = 1 then [List_all, Cancel sample_id] else [])"

theorem cancelled_stream_is_cut_witness:
  "\<exists>out b' sent. framed_stream steady_env sample_writer MVP_ARROW_LIMITS sample_id sample_source
      cancel_second source_broker = Some (out, b') \<and>
    out = STREAM_MAGIC # map (\<lambda>c. frame_bytes (Arrow_frame c)) sent \<and> length sent \<le> 1"
proof -
  obtain out b' where out: "framed_stream steady_env sample_writer MVP_ARROW_LIMITS sample_id sample_source
      cancel_second source_broker = Some (out, b')"
    by (simp add: framed_stream_def sample_chunks still_available_def source_broker_def
        list_requests_def enter_records_eq exit_records_eq open_source_def locked_record_def Let_def
        log_event_def expire_def now_def steady_env_def seconds_def open_body_def cancel_opt_def
        same_object_def pack_header_def ARROW_FRAME_def cancel_second_def broker_cancel_def
        cancel_body_def with_cursor_cancelled_def)
  have aware: "tz_aware (clock_at steady_env n)" for n by (simp add: steady_env_def)
  note inv = source_broker_inv
  have c: "Cancel sample_id \<in> set (cancel_second 1)" by (simp add: cancel_second_def)
  have p: "Publish sample_id s \<notin> set (cancel_second n)" for n s by (simp add: cancel_second_def)
  have k: "1 \<le> length (fst (ipc_chunks sample_writer (source_schema (source_content sample_source))
      (open_batches (source_content sample_source)) (maximum_arrow_bytes MVP_ARROW_LIMITS)))"
    by (simp add: sample_chunks)
  from cancelled_stream_is_cut[OF out inv aware c p k] out show ?thesis by blast
qed

text \<open>
  Property C36.  What the JSON routes answer under an aware clock: a single request is shown with
  its identifier, its state after expiry and its deadline, and nothing else, or 404 exactly when
  it is unknown; the list shows every stored request in the same form, newest first; a stream is
  opened exactly for a complete, unexpired request, and is 404 otherwise.
\<close>

theorem routes_answer:
  assumes "broker_inv b" and "\<And>n. tz_aware (clock_at e n)"
  shows "fst (open_request e i b) =
      (case map_of (records (snd (open_request e i b))) i of
         None \<Rightarrow> not_found | Some r \<Rightarrow> json_response 200 (serialize_view (record_view r))) \<and>
    fst (list_route e b) = json_response 200 (PDict [(''requests'',
      PList (map (\<lambda>(i, r). serialize_view (record_view r)) (rev (records (snd (list_route e b))))))]) \<and>
    fst (stream_request e i b) =
      (case map_of (records (snd (stream_request e i b))) i of
         None \<Rightarrow> Inl not_found
       | Some r \<Rightarrow> (case rec_source r of None \<Rightarrow> Inl not_found | Some s \<Rightarrow> Inr s))"
proof (intro conjI)
  show "fst (open_request e i b) =
      (case map_of (records (snd (open_request e i b))) i of
         None \<Rightarrow> not_found | Some r \<Rightarrow> json_response 200 (serialize_view (record_view r)))"
    using assms(2) by (auto simp: open_request_def get_request_def locked_record_def Let_def
        log_event_def expire_def now_def cancel_opt_def cancel_quietly_def AList.update_conv'
        record_view_def split: option.splits)
  show "fst (list_route e b) = json_response 200 (PDict [(''requests'',
      PList (map (\<lambda>(i, r). serialize_view (record_view r)) (rev (records (snd (list_route e b))))))])"
  proof -
    obtain m b1 where en: "enter_records e b = (m, b1)" by fastforce
    then obtain rs k where "expire_all e (records b) (clock_reads b) = (m, rs, k)"
      by (auto simp: enter_records_eq split: prod.splits)
    from expire_all_aware[OF assms(2) this] obtain cs where "m = Inr cs" by (cases m) auto
    with en have "list_requests e b = (Inr (map record_view (rev (vals (records b1)))), exit_records cs b1)"
      by (simp add: list_requests_def)
    then show ?thesis
      by (simp add: list_route_def exit_records_eq rev_map case_prod_unfold comp_def)
  qed
  obtain res b' where op: "open_source e i b = (res, b')" by fastforce
  have inv: "broker_inv b'"
    using store_evolves_inv[OF op_evolves(6)[OF broker_inv_distinct[OF assms(1)], of e i] assms(1)] op
    by simp
  have "case map_of (records b') i of
      None \<Rightarrow> res = Inl RequestUnavailable
    | Some r \<Rightarrow> (case rec_source r of None \<Rightarrow> res = Inl RequestUnavailable | Some s \<Rightarrow> res = Inr s)"
    using op unfolding open_source_def
  proof (cases rule: locked_record_cases)
    case (clock r x n)
    with assms(2) show ?thesis by (auto simp: expire_def now_def split: if_splits)
  next
    case (ran r c r1 n r2)
    then have r2: "map_of (records b') i = Some r2" by (simp add: AList.update_conv')
    from broker_inv_record[OF inv this] have "wf_record r2" by simp
    with ran(3) r2 show ?thesis
      by (auto simp: open_body_def wf_record_def split: if_splits option.splits)
  qed simp
  with op show "fst (stream_request e i b) =
      (case map_of (records (snd (stream_request e i b))) i of
         None \<Rightarrow> Inl not_found
       | Some r \<Rightarrow> (case rec_source r of None \<Rightarrow> Inl not_found | Some s \<Rightarrow> Inr s))"
    by (auto simp: stream_request_def split: option.splits)
qed

theorem routes_answer_witness:
  "fst (open_request steady_env sample_id source_broker) =
     json_response 200 (PDict [(''request_id'', PStr sample_id), (''status'', PStr ''complete''),
       (''expires_at'', PStr ''1970-01-01T00:01:00+00:00'')]) \<and>
   fst (stream_request steady_env sample_id source_broker) = Inr sample_source"
proof -
  note inv = source_broker_inv
  have aware: "tz_aware (clock_at steady_env n)" for n by (simp add: steady_env_def)
  have iso: "isoformat (seconds 60) = ''1970-01-01T00:01:00+00:00''" by code_simp
  have recs: "records (snd (open_request steady_env sample_id source_broker)) = records source_broker"
    "records (snd (stream_request steady_env sample_id source_broker)) = records source_broker"
    by (simp_all add: open_request_def get_request_def stream_request_def open_source_def
        locked_record_def Let_def log_event_def expire_def now_def steady_env_def source_broker_def
        seconds_def cancel_opt_def open_body_def)
  from routes_answer[OF inv aware, of sample_id] recs iso show ?thesis
    by (simp add: source_broker_def serialize_view_def record_view_def)
qed

end
