(* ===== verification/Result_Live.thy ===== *)
theory Result_Live
  imports Result_Props Broker_Live
begin

text \<open>
  A stream that nothing withdraws is completed: only a cancellation of the request or its deadline
  can cut it off, whatever else the agent and the viewers do meanwhile.
\<close>

lemma still_available_complete:
  assumes "still_available e i src calls b = Some (ok, b')" and "Cancel i \<notin> set calls"
    and "complete_at e i r b" and "rec_source r = Some src" and "broker_inv b"
  shows "ok \<and> complete_at e i r b' \<and> broker_inv b'"
proof -
  obtain b1 where b1: "broker_run e calls b = Some b1"
    using assms(1) by (auto simp: still_available_def split: option.splits)
  have "list_all (\<lambda>q. q \<noteq> Cancel i) calls" using assms(2) by (auto simp: list_all_iff)
  from completing.broker_run_R[OF b1 this] assms(3,5) have "complete_at e i r b1"
    by (simp add: complete_kept_def)
  from this assms(4) obtain b2 where "open_source e i b1 = (Inr src, b2)"
    and b2: "complete_at e i r b2" by (rule open_complete)
  with assms(1) b1 have "ok" "b' = b2" by (simp_all add: still_available_def same_object_def)
  with b2 still_available_inv[OF assms(1,5)] show ?thesis by simp
qed

lemma framed_loop_completes:
  assumes "\<And>n. Cancel i \<notin> set (calls n)" and "rec_source r = Some src"
  shows "framed_loop e i src calls n chunks (Inr u) b = Some (out, b') \<Longrightarrow> complete_at e i r b \<Longrightarrow>
    broker_inv b \<Longrightarrow> \<forall>c \<in> set chunks. length c < 2 ^ 64 \<Longrightarrow>
    out = map frame_bytes (stream_frames chunks True)"
proof (induction chunks arbitrary: n b out)
  case Nil
  then obtain ok b1 where av: "still_available e i src (calls n) b = Some (ok, b1)"
    by (auto split: option.splits)
  from still_available_complete[OF av assms(1) Nil(2) assms(2) Nil(3)] Nil(1) av show ?case
    by (auto simp: pack_complete stream_frames_def)
next
  case (Cons chunk chunks)
  from Cons.prems(1) obtain ok b1 where av: "still_available e i src (calls n) b = Some (ok, b1)"
    by (auto split: option.splits)
  note live = still_available_complete[OF av assms(1) Cons.prems(2) assms(2) Cons.prems(3)]
  obtain h where h: "pack_header ARROW_FRAME (length chunk) = Inr h"
    using Cons.prems(4) by (auto simp: pack_header_def ARROW_FRAME_def)
  from Cons.prems(1) av live h obtain out' where
    rest: "framed_loop e i src calls (Suc n) chunks (Inr u) b1 = Some (out', b')"
    and out: "out = (h @ chunk) # out'" by auto
  have "out' = map frame_bytes (stream_frames chunks True)"
    by (rule Cons.IH[OF rest]) (use live Cons.prems(4) in auto)
  with out pack_arrow[OF h] show ?case by (simp add: stream_frames_def)
qed

lemma live_stream_whole:
  assumes "framed_stream e w MVP_ARROW_LIMITS i src calls b = Some (out, b')" and "broker_inv b"
    and "admissible w (source_schema (source_content src)) MVP_ARROW_LIMITS
      (source_batches (source_content src))"
    and "complete_at e i r b" and "rec_source r = Some src"
    and "\<And>n. Cancel i \<notin> set (calls n)"
  shows "\<exists>sent. parse_stream (concat out) = Some (map Arrow_frame sent @ [Complete_frame]) \<and>
    concat sent = ipc_stream w (source_schema (source_content src)) (source_batches (source_content src)) \<and>
    [] \<notin> set sent"
proof -
  have bound: "0 < maximum_arrow_bytes MVP_ARROW_LIMITS" "maximum_arrow_bytes MVP_ARROW_LIMITS < 2 ^ 64"
    by (simp_all add: MVP_ARROW_LIMITS_def MVP_MAXIMUM_VIEWPORT_BYTES_def)
  obtain chunks where ch: "ipc_chunks w (source_schema (source_content src))
      (open_batches (source_content src)) (maximum_arrow_bytes MVP_ARROW_LIMITS) = (chunks, Inr ())"
    "concat chunks = ipc_stream w (source_schema (source_content src)) (source_batches (source_content src))"
    "[] \<notin> set chunks" "int (length (concat chunks)) \<le> maximum_arrow_bytes MVP_ARROW_LIMITS"
    using admissible_replays[OF assms(3) bound(1)] by blast
  have small: "length c < 2 ^ 64" if "c \<in> set chunks" for c
  proof -
    have "length c \<le> length (concat chunks)"
      using that by (induction chunks) auto
    then have "int (length c) \<le> int (length (concat chunks))" by simp
    with ch(4) bound(2) have "int (length c) < 2 ^ 64" by linarith
    then show ?thesis by simp
  qed
  obtain out' where loop: "framed_loop e i src calls 0 chunks (Inr ()) b = Some (out', b')"
    and out: "out = STREAM_MAGIC # out'" using assms(1) ch(1) by (auto simp: framed_stream_def)
  have "out' = map frame_bytes (stream_frames chunks True)"
    using framed_loop_completes[of i calls r src, OF assms(6,5) loop assms(4,2)] small by blast
  moreover have "list_all frame_ok (stream_frames chunks True)"
    using small by (auto simp: stream_frames_def list_all_iff)
  ultimately have "parse_stream (concat out) = Some (stream_frames chunks True)"
    using parse_stream_enc by (simp add: out)
  with ch(2,3) show ?thesis by (auto simp: stream_frames_def)
qed

text \<open>
  Property C13.  A stream that is not withdrawn is completed.  If the viewer has opened an admitted
  result whose deadline the clock does not reach, then whatever calls others make between the
  checks, submissions that need room included, as long as none cancels this request, the body is
  the whole result: it parses to Arrow frames that carry the complete IPC stream of the batches,
  none of them empty, and a completion frame.
\<close>

theorem stream_completes_unless_withdrawn:
  assumes "framed_stream e w MVP_ARROW_LIMITS i src calls b = Some (out, b')" and "broker_inv b"
    and "admissible w (source_schema (source_content src)) MVP_ARROW_LIMITS
      (source_batches (source_content src))"
    and "map_of (records b) i = Some r" and "rec_source r = Some src"
    and "\<And>n. tz_aware (clock_at e n)" and "\<And>n. instant_of (clock_at e n) < rec_expires_at r"
    and "\<And>n. Cancel i \<notin> set (calls n)"
  shows "\<exists>sent. parse_stream (concat out) = Some (map Arrow_frame sent @ [Complete_frame]) \<and>
    concat sent = ipc_stream w (source_schema (source_content src)) (source_batches (source_content src)) \<and>
    [] \<notin> set sent"
proof -
  have "complete_at e i r b"
    using assms(4-7) broker_inv_record[OF assms(2,4)]
    by (auto simp: complete_at_def before_deadline_def wf_record_def)
  from live_stream_whole[OF assms(1-3) this assms(5,8)] show ?thesis .
qed

text \<open>Others list, fail and cancel before every check.\<close>

definition busy_calls :: "nat \<Rightarrow> ((nat, nat) source_object, nat) broker_call list" where
  "busy_calls n = [List_all, Fail sample_id, Cancel ''other'']"

theorem stream_completes_unless_withdrawn_witness:
  "\<exists>out b' sent. framed_stream frozen_env sample_writer MVP_ARROW_LIMITS sample_id sample_source
      busy_calls source_broker = Some (out, b') \<and>
    parse_stream (concat out) = Some (map Arrow_frame sent @ [Complete_frame]) \<and>
    concat sent = ipc_stream sample_writer sample_schema [sample_batch]"
proof -
  have "framed_stream frozen_env sample_writer MVP_ARROW_LIMITS sample_id sample_source
      busy_calls source_broker \<noteq> None"
    by (simp add: framed_stream_def sample_chunks still_available_def source_broker_def
        list_requests_def enter_records_eq exit_records_eq open_source_def locked_record_def Let_def
        log_event_def expire_def now_def frozen_env_def seconds_def open_body_def cancel_opt_def
        same_object_def pack_header_def ARROW_FRAME_def COMPLETE_FRAME_def busy_calls_def
        broker_fail_def fail_body_def broker_cancel_def with_cursor_cancelled_def)
  then obtain out b' where out: "framed_stream frozen_env sample_writer MVP_ARROW_LIMITS sample_id
      sample_source busy_calls source_broker = Some (out, b')" by auto
  have inv: "broker_inv source_broker" by (rule source_broker_inv)
  have adm: "admissible sample_writer (source_schema (source_content sample_source)) MVP_ARROW_LIMITS
      (source_batches (source_content sample_source))"
    by (simp add: sample_source_def admissible_def supported_schema_def cells_within_def total_rows_def
        total_decoded_def sample_writer_def sample_schema_def sample_batch_def MVP_ARROW_LIMITS_def
        MVP_MAXIMUM_VIEWPORT_ROWS_def MVP_MAXIMUM_VIEWPORT_BYTES_def ipc_stream_def stream_prefix_def
        batch_cell_bytes_def column_cell_bytes_def cell_width_def plain_type_def)
  let ?r = "\<lparr>rec_id = sample_id, rec_status = COMPLETE, rec_expires_at = seconds 60,
        rec_source = Some sample_source, rec_cursor = None\<rparr>"
  have r: "map_of (records source_broker) sample_id = Some ?r" "rec_source ?r = Some sample_source"
    by (simp_all add: source_broker_def)
  have clock: "tz_aware (clock_at frozen_env n)" "instant_of (clock_at frozen_env n) < rec_expires_at ?r"
    for n by (simp_all add: frozen_env_def)
  have calls: "Cancel sample_id \<notin> set (busy_calls n)" for n by (simp add: busy_calls_def)
  from stream_completes_unless_withdrawn[OF out inv adm r clock calls] out
  show ?thesis by (auto simp: sample_source_def)
qed

end
