(* ===== verification/Mcp_Gateway.thy ===== *)
theory Mcp_Gateway
  imports Control
begin

text \<open>
  The model-facing tool surface (\<open>src/snowglobe/mcp_gateway.py\<close>): the two advertised tools with
  their JSON schemas, validation of untyped arguments, dispatch of a tool call with its catch-all
  error branch, and the rendering of a receipt.  The MCP framework around \<open>_call_tool\<close> and
  \<open>list_tools\<close> is not modelled.
\<close>

section \<open>Tools and their schemas\<close>

definition SUBMIT_TOOL_NAME :: string where "SUBMIT_TOOL_NAME = ''submit_read_query''"

definition STATUS_TOOL_NAME :: string where "STATUS_TOOL_NAME = ''get_query_status''"

definition INPUT_FIELDS :: "string list" where "INPUT_FIELDS = [''sql'', ''requested_ttl'']"

definition STATUS_INPUT_FIELDS :: "string list" where "STATUS_INPUT_FIELDS = [''request_id'']"

definition REQUEST_ID_PATTERN :: string where
  "REQUEST_ID_PATTERN = ''^[A-Za-z0-9_-]{20,32}$''"

record tool =
  tool_name :: string
  tool_description :: string
  tool_input_schema :: "(string, pyval) odict"
  tool_output_schema :: "(string, pyval) odict"

definition closed_object :: "(string, pyval) odict \<Rightarrow> string list \<Rightarrow> (string, pyval) odict" where
  "closed_object props required =
     [(''type'', PStr ''object''), (''properties'', PDict props),
      (''required'', PList (map PStr required)), (''additionalProperties'', PBool False)]"

definition request_id_schema :: pyval where
  "request_id_schema = PDict [(''type'', PStr ''string''), (''pattern'', PStr REQUEST_ID_PATTERN)]"

definition SUBMIT_READ_QUERY :: tool where
  "SUBMIT_READ_QUERY =
     \<lparr>tool_name = SUBMIT_TOOL_NAME,
      tool_description =
        ''Submit one governed Snowflake read query. An accepted receipt includes the '' @
        ''opaque request ID and exact governed SQL; query results are never returned '' @
        ''through MCP.'',
      tool_input_schema = closed_object
        [(''sql'', PDict [(''type'', PStr ''string''), (''minLength'', PInt 1)]),
         (''requested_ttl'', PDict [(''type'', PStr ''integer''), (''minimum'', PInt 1)])]
        [''sql'', ''requested_ttl''],
      tool_output_schema = closed_object
        [(''status'', PDict [(''type'', PStr ''string''),
            (''enum'', PList [PStr ''accepted'', PStr ''rejected''])]),
         (''request_id'', request_id_schema),
         (''reason_code'', PDict [(''type'', PStr ''string''),
            (''enum'', PList [PStr ''NONE'', PStr ''INVALID_REQUEST'', PStr ''POLICY_REJECTED'',
                             PStr ''SERVICE_UNAVAILABLE''])]),
         (''governed_sql'', PDict [(''type'', PList [PStr ''string'', PStr ''null'']),
            (''minLength'', PInt 1)])]
        [''status'', ''request_id'', ''reason_code'', ''governed_sql'']\<rparr>"

definition GET_QUERY_STATUS :: tool where
  "GET_QUERY_STATUS =
     \<lparr>tool_name = STATUS_TOOL_NAME,
      tool_description =
        ''Check whether an opaque Snowglobe request is pending, complete, or terminal. '' @
        ''Returns no rows, schema, counts, Snowflake identifiers, or database errors.'',
      tool_input_schema = closed_object [(''request_id'', request_id_schema)] [''request_id''],
      tool_output_schema = closed_object
        [(''request_id'', request_id_schema),
         (''status'', PDict [(''type'', PStr ''string''),
            (''enum'', PList (map (\<lambda>s. PStr (lifecycle_value s)) lifecycle_statuses))])]
        [''request_id'', ''status'']\<rparr>"

definition list_tools :: "tool list" where
  "list_tools = [SUBMIT_READ_QUERY, GET_QUERY_STATUS]"

section \<open>Validation of arguments\<close>

definition valid_arguments :: "(string, pyval) odict option \<Rightarrow> bool" where
  "valid_arguments args =
     (case args of
        None \<Rightarrow> False
      | Some a \<Rightarrow>
          if set (keys a) \<noteq> set INPUT_FIELDS then False
          else (case (map_of a ''sql'', map_of a ''requested_ttl'') of
                  (Some sql, Some ttl) \<Rightarrow>
                    (case (as_str sql, as_exact_int ttl) of
                       (Some s, Some n) \<Rightarrow> s \<noteq> [] \<and> 1 \<le> n \<and> timedelta_of_seconds n \<noteq> Inl OverflowError
                     | _ \<Rightarrow> False)
                | _ \<Rightarrow> False))"

definition valid_status_arguments :: "(string, pyval) odict option \<Rightarrow> string option" where
  "valid_status_arguments args =
     (case args of
        None \<Rightarrow> None
      | Some a \<Rightarrow>
          if set (keys a) \<noteq> set STATUS_INPUT_FIELDS then None
          else (case map_of a ''request_id'' of
                  None \<Rightarrow> None
                | Some v \<Rightarrow>
                    (case as_str v of
                       None \<Rightarrow> None
                     | Some i \<Rightarrow>
                         (case new_status_receipt i LC_NOT_FOUND of
                            Inl x \<Rightarrow> None | Inr r \<Rightarrow> Some (qs_request_id r)))))"

section \<open>Results\<close>

record call_tool_result =
  result_text :: string
  structured_content :: "(string, string option) odict"

definition receipt_result :: "(string, string option) odict \<Rightarrow> call_tool_result" where
  "receipt_result dump = \<lparr>result_text = json_object dump, structured_content = dump\<rparr>"

definition query_result ::
  "query_receipt result \<times> 'st \<Rightarrow> call_tool_result result \<times> 'st" where
  "query_result out =
     (then_do (fst out) (\<lambda>r. Inr (receipt_result (query_receipt_dump r))), snd out)"

definition status_result ::
  "query_status_receipt result \<times> 'st \<Rightarrow> call_tool_result result \<times> 'st" where
  "status_result out =
     (then_do (fst out) (\<lambda>r. Inr (receipt_result (status_receipt_dump r))), snd out)"

section \<open>Dispatch\<close>

text \<open>
  The body of the \<open>try\<close>.  Once the arguments are valid, \<open>arguments["sql"]\<close> is a string and
  \<open>arguments["requested_ttl"]\<close> an integer; the last branch of the \<open>case\<close> is never taken.
\<close>

definition call_tool_body ::
  "env \<Rightarrow> 'w admission \<Rightarrow> unit result \<Rightarrow> string \<Rightarrow> (string, pyval) odict option \<Rightarrow>
   ('s, 'c, 'w) runtime \<Rightarrow> (call_tool_result result \<times> ('s, 'c, 'w) runtime) option"
where
  "call_tool_body e admit spawn name args st =
     (if name = SUBMIT_TOOL_NAME then
        (case args of
           None \<Rightarrow> Some (query_result (rejected_receipt e INVALID_REQUEST st))
         | Some a \<Rightarrow>
             if \<not> valid_arguments (Some a) then
               Some (query_result (rejected_receipt e INVALID_REQUEST st))
             else (case (map_of a ''sql'', map_of a ''requested_ttl'') of
                     (Some (PStr sql), Some (PInt n)) \<Rightarrow>
                       (case timedelta_of_seconds n of
                          Inl x \<Rightarrow> Some (Inl x, st)
                        | Inr ttl \<Rightarrow>
                            map_option query_result (control_submit e admit spawn sql ttl st))
                   | _ \<Rightarrow> Some (Inl TypeError, st)))
      else if name = STATUS_TOOL_NAME then
        (case valid_status_arguments args of
           None \<Rightarrow> Some (status_result (invalid_status_receipt e st))
         | Some i \<Rightarrow> Some (status_result (control_status e i st)))
      else Some (query_result (rejected_receipt e INVALID_REQUEST st)))"

text \<open>The \<open>except Exception\<close> branch: a fresh identifier is drawn even when it is then replaced.\<close>

definition call_tool_except ::
  "env \<Rightarrow> string \<Rightarrow> (string, pyval) odict option \<Rightarrow> ('s, 'c, 'w) runtime \<Rightarrow>
   call_tool_result result \<times> ('s, 'c, 'w) runtime"
where
  "call_tool_except e name args st =
     (if name = STATUS_TOOL_NAME then
        (case invalid_status_receipt e st of
           (Inl x, st') \<Rightarrow> (Inl x, st')
         | (Inr r, st') \<Rightarrow>
             (case valid_status_arguments args of
                None \<Rightarrow> status_result (Inr r, st')
              | Some i \<Rightarrow> status_result (new_status_receipt i LC_SERVICE_UNAVAILABLE, st')))
      else query_result (rejected_receipt e SERVICE_UNAVAILABLE st))"

definition call_tool ::
  "env \<Rightarrow> 'w admission \<Rightarrow> unit result \<Rightarrow> string \<Rightarrow> (string, pyval) odict option \<Rightarrow>
   ('s, 'c, 'w) runtime \<Rightarrow> (call_tool_result result \<times> ('s, 'c, 'w) runtime) option"
where
  "call_tool e admit spawn name args st =
     (case call_tool_body e admit spawn name args st of
        None \<Rightarrow> None
      | Some (Inr r, st') \<Rightarrow> Some (Inr r, st')
      | Some (Inl x, st') \<Rightarrow>
          Some (if is_Exception x then call_tool_except e name args st' else (Inl x, st')))"

section \<open>Conformance to the advertised schemas\<close>

text \<open>
  The JSON Schema keywords the tools use.  As in JSON Schema a keyword constrains only values of
  the type it is about, and a float with an integral value is an integer.
\<close>

fun has_type :: "pyval \<Rightarrow> pyval \<Rightarrow> bool" where
  "has_type (PStr t) (PStr s) = (t = ''string'')"
| "has_type (PStr t) (PInt n) = (t = ''integer'')"
| "has_type (PStr t) (PFloat q) = (t = ''integer'' \<and> q = of_int \<lfloor>q\<rfloor>)"
| "has_type (PStr t) PNone = (t = ''null'')"
| "has_type (PStr t) (PDict d) = (t = ''object'')"
| "has_type _ _ = False"

fun type_conforms :: "pyval \<Rightarrow> pyval \<Rightarrow> bool" where
  "type_conforms (PList ts) v \<longleftrightarrow> list_ex (\<lambda>t. has_type t v) ts"
| "type_conforms t v \<longleftrightarrow> has_type t v"

fun min_length :: "pyval \<Rightarrow> pyval \<Rightarrow> bool" where
  "min_length (PInt n) (PStr s) \<longleftrightarrow> n \<le> int (length s)"
| "min_length _ v \<longleftrightarrow> True"

fun minimum :: "pyval \<Rightarrow> pyval \<Rightarrow> bool" where
  "minimum (PInt n) (PInt m) \<longleftrightarrow> n \<le> m"
| "minimum (PInt n) (PFloat q) \<longleftrightarrow> of_int n \<le> q"
| "minimum _ v \<longleftrightarrow> True"

fun in_enum :: "pyval \<Rightarrow> pyval \<Rightarrow> bool" where
  "in_enum (PList vs) v \<longleftrightarrow> v \<in> set vs"
| "in_enum _ v \<longleftrightarrow> False"

fun pattern_matches :: "pyval \<Rightarrow> pyval \<Rightarrow> bool" where
  "pattern_matches (PStr p) (PStr s) \<longleftrightarrow> p = REQUEST_ID_PATTERN \<and> request_id_pattern s"
| "pattern_matches _ v \<longleftrightarrow> True"

definition keyword :: "(string, pyval) odict \<Rightarrow> string \<Rightarrow> (pyval \<Rightarrow> bool) \<Rightarrow> bool" where
  "keyword schema k P = (case map_of schema k of None \<Rightarrow> True | Some v \<Rightarrow> P v)"

fun flat_conforms :: "pyval \<Rightarrow> pyval \<Rightarrow> bool" where
  "flat_conforms (PDict schema) v \<longleftrightarrow>
     keyword schema ''type'' (\<lambda>t. type_conforms t v) \<and>
     keyword schema ''minLength'' (\<lambda>n. min_length n v) \<and>
     keyword schema ''minimum'' (\<lambda>n. minimum n v) \<and>
     keyword schema ''enum'' (\<lambda>vs. in_enum vs v) \<and>
     keyword schema ''pattern'' (\<lambda>p. pattern_matches p v)"
| "flat_conforms _ v \<longleftrightarrow> False"

fun required_present :: "(string, pyval) odict \<Rightarrow> pyval \<Rightarrow> bool" where
  "required_present d (PList ks) \<longleftrightarrow> list_all (\<lambda>k. list_ex (\<lambda>k'. k = PStr k') (keys d)) ks"
| "required_present d _ \<longleftrightarrow> False"

fun properties_conform :: "(string, pyval) odict \<Rightarrow> pyval \<Rightarrow> bool" where
  "properties_conform d (PDict props) \<longleftrightarrow>
     list_all (\<lambda>(k, sub). keyword d k (flat_conforms sub)) props"
| "properties_conform d _ \<longleftrightarrow> False"

fun no_additional :: "(string, pyval) odict \<Rightarrow> pyval option \<Rightarrow> bool" where
  "no_additional d (Some (PDict props)) \<longleftrightarrow> list_all (\<lambda>k. k \<in> set (keys props)) (keys d)"
| "no_additional d _ \<longleftrightarrow> d = []"

definition object_conforms :: "(string, pyval) odict \<Rightarrow> (string, pyval) odict \<Rightarrow> bool" where
  "object_conforms schema d \<longleftrightarrow>
     keyword schema ''type'' (\<lambda>t. type_conforms t (PDict d)) \<and>
     keyword schema ''required'' (required_present d) \<and>
     keyword schema ''properties'' (properties_conform d) \<and>
     keyword schema ''additionalProperties''
       (\<lambda>v. v = PBool False \<longrightarrow> no_additional d (map_of schema ''properties''))"

text \<open>Conformance to a closed object schema: exactly the declared properties are there, each
  required one among them, and each present one conforms.\<close>

lemma closed_object_conforms:
  "object_conforms (closed_object props required) d \<longleftrightarrow>
     list_all (\<lambda>k. k \<in> set (keys d)) required \<and>
     list_all (\<lambda>(k, sub). keyword d k (flat_conforms sub)) props \<and>
     list_all (\<lambda>k. k \<in> set (keys props)) (keys d)"
proof -
  have "list_ex (\<lambda>k'. PStr k = PStr k') (keys d) \<longleftrightarrow> k \<in> set (keys d)" for k
    by (auto simp: list_ex_iff)
  then have "required_present d (PList (map PStr required)) \<longleftrightarrow> list_all (\<lambda>k. k \<in> set (keys d)) required"
    by (simp add: list.pred_map comp_def)
  then show ?thesis
    unfolding object_conforms_def closed_object_def keyword_def[of "(_, _) # _"] by simp
qed

section \<open>Accepted arguments\<close>

lemma is_ok_Inr: "is_ok r \<longleftrightarrow> (\<exists>x. r = Inr x)"
  by (cases r) auto

lemma timedelta_fits: "timedelta_of_seconds n \<noteq> Inl OverflowError \<longleftrightarrow> is_ok (timedelta_of_seconds n)"
  by (simp add: timedelta_of_seconds_def)

lemma valid_arguments_None [simp]: "\<not> valid_arguments None"
  by (simp add: valid_arguments_def)

lemma valid_arguments_iff:
  "valid_arguments (Some a) \<longleftrightarrow> set (keys a) = set INPUT_FIELDS \<and>
     (\<exists>s n. map_of a ''sql'' = Some (PStr s) \<and> map_of a ''requested_ttl'' = Some (PInt n) \<and>
        s \<noteq> [] \<and> 1 \<le> n \<and> is_ok (timedelta_of_seconds n))"
proof (cases "(map_of a ''sql'', map_of a ''requested_ttl'')")
  case (Pair u v)
  show ?thesis
  proof (cases "u = None \<or> v = None")
    case True
    with Pair show ?thesis by (auto simp: valid_arguments_def split: option.splits)
  next
    case False
    then obtain x y where xy: "u = Some x" "v = Some y" by auto
    with Pair show ?thesis
      by (cases x; cases y) (auto simp: valid_arguments_def timedelta_fits)
  qed
qed

lemma valid_status_arguments_iff:
  "valid_status_arguments (Some a) = Some i \<longleftrightarrow> set (keys a) = set STATUS_INPUT_FIELDS \<and>
     map_of a ''request_id'' = Some (PStr i) \<and> request_id_pattern i"
proof (cases "map_of a ''request_id''")
  case None
  then show ?thesis by (auto simp: valid_status_arguments_def)
next
  case (Some v)
  then show ?thesis
    by (cases v) (auto simp: valid_status_arguments_def new_status_receipt_def)
qed

section \<open>Exceptions below the gateway\<close>

lemma locked_record_raises:
  assumes "locked_record e i body b = (Inl x, b')"
    and "\<And>r y. fst (body r) = Inl y \<Longrightarrow> y = RequestUnavailable"
  shows "x = RequestUnavailable \<or> x = ValueError"
  using assms(1)
proof (cases rule: locked_record_cases)
  case (clock r y n)
  then show ?thesis by (auto simp: expire_def now_def split: if_splits)
next
  case (ran r c r1 n r2)
  then show ?thesis using assms(2)[of r1 x] by simp
qed simp

lemma broker_fail_raises:
  assumes "suppress_unavailable (broker_fail e i b) = (Inl x, b')"
  shows "x = ValueError"
proof -
  obtain m b1 where lr: "locked_record e i fail_body b = (m, b1)" by fastforce
  with assms have "m = Inl x" "x \<noteq> RequestUnavailable"
    by (auto simp: broker_fail_def with_cursor_cancelled_def suppress_unavailable_def
        split: sum.splits prod.splits if_splits)
  moreover have "fst (fail_body r) = Inl y \<Longrightarrow> y = RequestUnavailable" for r y
    by (auto simp: fail_body_def Let_def split: if_splits)
  ultimately show ?thesis using locked_record_raises[of e i fail_body b x b1] lr by blast
qed

lemma schedule_raises:
  assumes "schedule e spawn g w v x b = (Inl ex, x', b')" and "\<And>y. spawn = Inl y \<Longrightarrow> is_Exception y"
  shows "is_Exception ex"
proof (cases spawn)
  case (Inl y)
  obtain m b1 where "suppress_unavailable (broker_fail e (view_id v) b) = (m, b1)" by fastforce
  with Inl assms broker_fail_raises[of e "view_id v" b _ b1] show ?thesis
    by (cases m) (auto simp: schedule_def is_Exception_def)
next
  case (Inr u)
  with assms(1) show ?thesis by (simp add: schedule_def)
qed

lemma executor_submit_is_Exception:
  assumes "executor_submit e admit spawn sql ttl x b = Some (Inl ex, x', b')"
    and "\<And>y. spawn = Inl y \<Longrightarrow> is_Exception y" and "\<And>y. admit sql = Inl y \<Longrightarrow> is_Exception y"
  shows "is_Exception ex"
proof -
  consider "ex = RequestUnavailable" | "admit sql = Inl ex"
    | b1 where "broker_submit e ttl b = Some (Inl ex, b1)"
    | g w v b1 where "schedule e spawn g w v x b1 = (Inl ex, x', b')"
    using assms(1) by (auto simp: executor_submit_def split: if_splits sum.splits option.splits)
  then show ?thesis
    by cases (use assms in \<open>auto simp: is_Exception_def dest: broker_submit_raises schedule_raises\<close>)
qed

lemma rejected_receipt_cases:
  assumes "rejected_receipt e reason st = (res, st')"
  shows "(\<exists>r. res = Inr r \<and> valid_query_receipt r) \<or> res = Inl ValidationError"
  using assms by (cases res) (auto simp: rejected_receipt_def draw_token_def Let_def
      new_query_receipt_Inr new_query_receipt_Inl)

lemma control_submit_is_Exception:
  assumes "control_submit e admit spawn sql ttl st = Some (res, st')"
    and "\<And>y. spawn = Inl y \<Longrightarrow> is_Exception y" and "\<And>y. admit sql = Inl y \<Longrightarrow> is_Exception y"
  shows "(\<exists>r. res = Inr r \<and> valid_query_receipt r) \<or> (\<exists>x. res = Inl x \<and> is_Exception x)"
proof (cases "rt_executor st")
  case None
  with assms(1) show ?thesis
    by (auto simp: control_submit_def is_Exception_def dest: rejected_receipt_cases)
next
  case (Some x)
  obtain m x' b' where ex: "executor_submit e admit spawn sql ttl x (rt_broker st) = Some (m, x', b')"
    using assms(1) Some by (auto simp: control_submit_def split: option.splits)
  show ?thesis
  proof (cases m)
    case (Inl y)
    from executor_submit_is_Exception[OF ex[unfolded Inl] assms(2,3)] ex Inl Some assms(1)
    show ?thesis
      by (auto simp: control_submit_def Let_def is_Exception_def dest: rejected_receipt_cases
          split: if_splits)
  next
    case (Inr s)
    with ex Some assms(1) show ?thesis
      by (cases res) (auto simp: control_submit_def Let_def is_Exception_def new_query_receipt_Inr
          dest: new_query_receipt_Inl)
  qed
qed

lemma control_status_valid:
  assumes "request_id_pattern i"
  obtains s st' where "control_status e i st = (Inr \<lparr>qs_request_id = i, qs_status = s\<rparr>, st')"
  using assms that
  by (cases "get_request e i (rt_broker st)"; cases "fst (get_request e i (rt_broker st))")
    (auto simp: control_status_def new_status_receipt_def is_Exception_def get_request_def
      dest!: locked_record_raises split: if_splits)

lemma valid_status_arguments_pattern:
  "valid_status_arguments args = Some i \<Longrightarrow> request_id_pattern i"
  by (auto simp: valid_status_arguments_def new_status_receipt_def split: option.splits if_splits sum.splits)

section \<open>Every call answers with a closed receipt\<close>

text \<open>What the gateway sends: the rendering of a valid receipt of the tool's kind.\<close>

definition closed_result :: "string \<Rightarrow> call_tool_result \<Rightarrow> bool" where
  "closed_result name out \<longleftrightarrow>
     (if name = STATUS_TOOL_NAME
      then \<exists>r. request_id_pattern (qs_request_id r) \<and> out = receipt_result (status_receipt_dump r)
      else \<exists>r. valid_query_receipt r \<and> out = receipt_result (query_receipt_dump r))"

lemma some_status_receipt:
  "request_id_pattern i \<Longrightarrow>
   \<exists>r. request_id_pattern (qs_request_id r) \<and>
     receipt_result (status_receipt_dump \<lparr>qs_request_id = i, qs_status = s\<rparr>) =
     receipt_result (status_receipt_dump r)"
  by (rule exI[where x = "\<lparr>qs_request_id = i, qs_status = s\<rparr>"]) simp

lemma status_result_closed:
  "request_id_pattern i \<Longrightarrow>
   fst (status_result (Inr \<lparr>qs_request_id = i, qs_status = s\<rparr>, st)) = Inr out \<Longrightarrow>
   closed_result STATUS_TOOL_NAME out"
  by (auto simp: status_result_def closed_result_def intro!: some_status_receipt)

lemma call_tool_closed:
  assumes "call_tool e admit spawn name args st = Some (res, st')" and "good_entropy e"
    and spawn: "\<And>y. spawn = Inl y \<Longrightarrow> is_Exception y"
    and admit: "\<forall>sql y. admit sql = Inl y \<longrightarrow> is_Exception y"
  shows "\<exists>out. res = Inr out \<and> closed_result name out"
proof -
  have rej: "\<exists>out. fst (query_result (rejected_receipt e reason st0)) = Inr out \<and>
      (\<exists>r. valid_query_receipt r \<and> out = receipt_result (query_receipt_dump r))"
    if "reason \<noteq> NONE" for reason and st0 :: "('a, 'b, 'c) runtime"
    by (rule rejected_valid[OF assms(2) that, of st0]) (auto simp: query_result_def)
  have inv: "\<exists>out. fst (status_result (invalid_status_receipt e st0)) = Inr out \<and>
      (\<exists>r. request_id_pattern (qs_request_id r) \<and> out = receipt_result (status_receipt_dump r))"
    for st0 :: "('a, 'b, 'c) runtime"
    using good_entropy_pattern[OF assms(2)]
    by (auto simp: invalid_status_receipt_eq[OF assms(2)] status_result_def intro!: some_status_receipt)
  have names: "SUBMIT_TOOL_NAME \<noteq> STATUS_TOOL_NAME"
    by (simp add: SUBMIT_TOOL_NAME_def STATUS_TOOL_NAME_def)
  have exc: "\<exists>out. fst (call_tool_except e name args st0) = Inr out \<and> closed_result name out"
    for st0 :: "('a, 'b, 'c) runtime"
  proof (cases "name = STATUS_TOOL_NAME")
    case False
    with rej[of SERVICE_UNAVAILABLE st0] show ?thesis
      by (auto simp: call_tool_except_def closed_result_def)
  next
    case True
    with inv[of st0] show ?thesis
      by (auto simp: call_tool_except_def closed_result_def invalid_status_receipt_eq[OF assms(2)]
          status_result_def new_status_receipt_def good_entropy_pattern[OF assms(2)]
          intro!: some_status_receipt dest: valid_status_arguments_pattern split: option.splits)
  qed
  obtain m st1 where body: "call_tool_body e admit spawn name args st = Some (m, st1)"
    using assms(1) by (auto simp: call_tool_def split: option.splits)
  have "(\<exists>out. m = Inr out \<and> closed_result name out) \<or> (\<exists>x. m = Inl x \<and> is_Exception x)"
  proof (cases "name = SUBMIT_TOOL_NAME")
    case submit: True
    show ?thesis
    proof (cases "valid_arguments args")
      case False
      with submit body have "(m, st1) = query_result (rejected_receipt e INVALID_REQUEST st)"
        by (auto simp: call_tool_body_def split: option.splits)
      then have "m = fst (query_result (rejected_receipt e INVALID_REQUEST st))"
        by (metis fst_conv)
      with rej[of INVALID_REQUEST st] submit names show ?thesis by (auto simp: closed_result_def)
    next
      case True
      then obtain a sql n ttl where a: "args = Some a" "map_of a ''sql'' = Some (PStr sql)"
        "map_of a ''requested_ttl'' = Some (PInt n)" "timedelta_of_seconds n = Inr ttl"
        by (cases args) (auto simp: valid_arguments_iff is_ok_Inr)
      with True submit body obtain q where
        q: "control_submit e admit spawn sql ttl st = Some q" "query_result q = (m, st1)"
        by (auto simp: call_tool_body_def)
      obtain r st2 where q2: "q = (r, st2)" by (cases q)
      have "(\<exists>r'. r = Inr r' \<and> valid_query_receipt r') \<or> (\<exists>x. r = Inl x \<and> is_Exception x)"
        by (rule control_submit_is_Exception[OF q(1)[unfolded q2]]) (use spawn admit in auto)
      with q(2) q2 submit names
      show ?thesis by (auto simp: query_result_def closed_result_def)
    qed
  next
    case other: False
    show ?thesis
    proof (cases "name = STATUS_TOOL_NAME")
      case False
      with other body have "(m, st1) = query_result (rejected_receipt e INVALID_REQUEST st)"
        by (simp add: call_tool_body_def)
      then have "m = fst (query_result (rejected_receipt e INVALID_REQUEST st))"
        by (metis fst_conv)
      with rej[of INVALID_REQUEST st] False show ?thesis by (auto simp: closed_result_def)
    next
      case True
      show ?thesis
      proof (cases "valid_status_arguments args")
        case None
        with True other body have "(m, st1) = status_result (invalid_status_receipt e st)"
          by (simp add: call_tool_body_def)
        then have "m = fst (status_result (invalid_status_receipt e st))" by (metis fst_conv)
        with inv[of st] True show ?thesis by (auto simp: closed_result_def)
      next
        case (Some i)
        note pat = valid_status_arguments_pattern[OF Some]
        obtain s st2 where "control_status e i st = (Inr \<lparr>qs_request_id = i, qs_status = s\<rparr>, st2)"
          using control_status_valid[OF pat] by blast
        then have "(m, st1) = status_result (Inr \<lparr>qs_request_id = i, qs_status = s\<rparr>, st2)"
          using True other body Some by (simp add: call_tool_body_def)
        with status_result_closed[OF pat, of s st2] True show ?thesis
          by (auto simp: status_result_def)
      qed
    qed
  qed
  with assms(1) body exc[of st1] show ?thesis
    by (auto simp: call_tool_def dest: arg_cong[where f = fst])
qed

text \<open>Content of a receipt under the two output schemas.\<close>

lemmas schema_defs =
  object_conforms_def closed_object_def keyword_def request_id_schema_def

lemma query_receipt_conforms:
  assumes "valid_query_receipt r"
  shows "object_conforms (tool_output_schema SUBMIT_READ_QUERY)
    (map (\<lambda>(k, v). (k, json_pyval v)) (query_receipt_dump r))"
proof -
  have "PStr (receipt_status_value (qr_status r)) \<in> {PStr ''accepted'', PStr ''rejected''}"
    by (cases "qr_status r") simp_all
  moreover have "PStr (reason_code_value (qr_reason_code r)) \<in>
      {PStr ''NONE'', PStr ''INVALID_REQUEST'', PStr ''POLICY_REJECTED'', PStr ''SERVICE_UNAVAILABLE''}"
    by (cases "qr_reason_code r") simp_all
  moreover have "list_ex (\<lambda>t. has_type t (json_pyval (qr_governed_sql r))) [PStr ''string'', PStr ''null''] \<and>
      min_length (PInt 1) (json_pyval (qr_governed_sql r))"
    using assms by (cases "qr_governed_sql r")
      (auto simp: valid_query_receipt_def governed_sql_field_def)
  ultimately show ?thesis
    using assms by (simp add: SUBMIT_READ_QUERY_def schema_defs query_receipt_dump_def
        valid_query_receipt_def)
qed

lemma status_receipt_conforms:
  assumes "request_id_pattern (qs_request_id r)"
  shows "object_conforms (tool_output_schema GET_QUERY_STATUS)
    (map (\<lambda>(k, v). (k, json_pyval v)) (status_receipt_dump r))"
proof -
  have "lifecycle_value (qs_status r) \<in> lifecycle_value ` set lifecycle_statuses"
    by (simp add: lifecycle_enum.complete)
  with assms show ?thesis
    by (auto simp: GET_QUERY_STATUS_def schema_defs status_receipt_dump_def image_iff)
qed

text \<open>
  Property C15.  Every tool call that returns answers with a closed receipt, whatever its name and
  arguments and whatever fails below: the text of the answer parses to its structured content,
  the content validates as a receipt of the tool's kind, and it conforms to the output schema
  that \<open>list_tools\<close> advertises for that tool (an unknown tool name answers like the submit tool).
\<close>

theorem call_tool_answers_closed_receipt:
  assumes "call_tool e admit spawn name args st = Some (res, st')" and "good_entropy e"
    and "\<And>y. spawn = Inl y \<Longrightarrow> is_Exception y" and "\<forall>sql y. admit sql = Inl y \<longrightarrow> is_Exception y"
  shows "\<exists>out tool. res = Inr out \<and> tool \<in> set list_tools \<and>
    json_loads (result_text out) = Some (structured_content out) \<and>
    object_conforms (tool_output_schema tool)
      (map (\<lambda>(k, v). (k, json_pyval v)) (structured_content out)) \<and>
    (if name = STATUS_TOOL_NAME
     then tool_name tool = STATUS_TOOL_NAME \<and>
       (\<exists>r. status_receipt_validate (dump_content (structured_content out)) = Inr r)
     else tool_name tool = SUBMIT_TOOL_NAME \<and>
       (\<exists>r. query_receipt_validate (dump_content (structured_content out)) = Inr r))"
proof -
  obtain out where out: "res = Inr out" "closed_result name out"
    using call_tool_closed[OF assms] by blast
  show ?thesis
  proof (cases "name = STATUS_TOOL_NAME")
    case True
    with out obtain r where r: "request_id_pattern (qs_request_id r)"
      "out = receipt_result (status_receipt_dump r)" by (auto simp: closed_result_def)
    have "GET_QUERY_STATUS \<in> set list_tools \<and> tool_name GET_QUERY_STATUS = STATUS_TOOL_NAME"
      by (simp add: list_tools_def GET_QUERY_STATUS_def)
    with out(1) True r status_receipt_conforms[OF r(1)] status_receipt_roundtrip[OF r(1)]
    show ?thesis by (auto simp: receipt_result_def)
  next
    case False
    with out obtain r where r: "valid_query_receipt r"
      "out = receipt_result (query_receipt_dump r)" by (auto simp: closed_result_def)
    have "SUBMIT_READ_QUERY \<in> set list_tools \<and> tool_name SUBMIT_READ_QUERY = SUBMIT_TOOL_NAME"
      by (simp add: list_tools_def SUBMIT_READ_QUERY_def)
    with out(1) False r query_receipt_conforms[OF r(1)] query_receipt_validates[OF r(1)]
    show ?thesis by (auto simp: receipt_result_def)
  qed
qed

definition sample_runtime :: "(nat, nat, nat) runtime" where
  "sample_runtime =
     \<lparr>rt_broker = sample_after [Submit (seconds 60)], rt_executor = Some executor_init\<rparr>"

theorem call_tool_answers_closed_receipt_witness:
  "\<exists>out st'. call_tool steady_env sample_admission (Inr ()) SUBMIT_TOOL_NAME
      (Some [(''requested_ttl'', PInt 30), (''sql'', PStr ''DROP TABLE T'')]) sample_runtime = Some (Inr out, st') \<and>
     map_of (structured_content out) ''reason_code'' = Some (Some ''POLICY_REJECTED'') \<and>
     json_loads (result_text out) = Some (structured_content out)"
proof -
  let ?args = "Some [(''requested_ttl'', PInt 30), (''sql'', PStr ''DROP TABLE T'')]"
  let ?out = "call_tool steady_env sample_admission (Inr ()) SUBMIT_TOOL_NAME ?args sample_runtime"
  have ent: "good_entropy steady_env" by (simp add: good_entropy_def steady_env_def)
  have valid: "valid_arguments ?args" by code_simp
  have ttl: "timedelta_of_seconds 30 = Inr (seconds 30)" by (simp add: timedelta_of_seconds_def)
  have "\<exists>i st'. ?out = Some (Inr (receipt_result (query_receipt_dump \<lparr>qr_status = REJECTED,
      qr_request_id = i, qr_reason_code = POLICY_REJECTED, qr_governed_sql = None\<rparr>)), st')"
    using valid ttl
    by (simp add: call_tool_def call_tool_body_def control_submit_def executor_submit_def
        sample_runtime_def sample_admission_def executor_init_def query_result_def Let_def
        rejected_receipt_eq[OF ent]) blast
  then obtain r st' where out: "?out = Some (Inr (receipt_result (query_receipt_dump r)), st')"
    "qr_reason_code r = POLICY_REJECTED" by (metis query_receipt.select_convs(3))
  have spawn: "is_Exception y" if "Inr () = Inl y" for y using that by simp
  have adm: "\<forall>sql y. sample_admission sql = Inl y \<longrightarrow> is_Exception y"
    by (auto simp: sample_admission_def is_Exception_def)
  have "json_loads (result_text (receipt_result (query_receipt_dump r))) =
      Some (structured_content (receipt_result (query_receipt_dump r)))"
    using call_tool_answers_closed_receipt[OF out(1) ent spawn adm] by auto
  moreover have "map_of (structured_content (receipt_result (query_receipt_dump r))) ''reason_code'' =
      Some (Some ''POLICY_REJECTED'')"
    using out(2) by (simp add: receipt_result_def query_receipt_dump_def)
  ultimately show ?thesis using out(1) by blast
qed

text \<open>
  Property C32.  A malformed call has no effect and reflects nothing: an unknown tool, submit
  arguments the gateway refuses or a malformed status request leave the stored requests, the
  driver calls and the executor as they were, and the answer is the fixed receipt (rejected as
  \<open>INVALID_REQUEST\<close>, or \<open>not_found\<close>) under a freshly drawn identifier.
\<close>

theorem malformed_call_has_no_effect:
  assumes "good_entropy e"
    and "name = SUBMIT_TOOL_NAME \<longrightarrow> \<not> valid_arguments args"
    and "name = STATUS_TOOL_NAME \<longrightarrow> valid_status_arguments args = None"
  shows "\<exists>st'. call_tool e admit spawn name args st =
      Some (Inr (receipt_result
        (if name = STATUS_TOOL_NAME
         then status_receipt_dump \<lparr>qs_request_id = fst (draw_token e st), qs_status = LC_NOT_FOUND\<rparr>
         else query_receipt_dump \<lparr>qr_status = REJECTED, qr_request_id = fst (draw_token e st),
                qr_reason_code = INVALID_REQUEST, qr_governed_sql = None\<rparr>)), st') \<and>
    records (rt_broker st') = records (rt_broker st) \<and> trace (rt_broker st') = trace (rt_broker st) \<and>
    rt_executor st' = rt_executor st"
proof -
  have names: "SUBMIT_TOOL_NAME \<noteq> STATUS_TOOL_NAME"
    by (simp add: SUBMIT_TOOL_NAME_def STATUS_TOOL_NAME_def)
  have tok: "fst (draw_token e st) = token_urlsafe (entropy_at e (tokens_drawn (rt_broker st)))"
    by (simp add: draw_token_def Let_def)
  have "call_tool_body e admit spawn name args st =
    (if name = STATUS_TOOL_NAME then Some (status_result (invalid_status_receipt e st))
     else Some (query_result (rejected_receipt e INVALID_REQUEST st)))"
    using assms(2,3) names by (auto simp: call_tool_body_def split: option.splits)
  then show ?thesis
    by (simp add: call_tool_def status_result_def query_result_def tok
        invalid_status_receipt_eq[OF assms(1)] rejected_receipt_eq[OF assms(1)])
qed

theorem malformed_call_has_no_effect_witness:
  "\<exists>st'. call_tool steady_env sample_admission (Inr ()) ''get_query_status''
      (Some [(''request_id'', PStr ''x<script>'')]) sample_runtime =
    Some (Inr (receipt_result (status_receipt_dump
      \<lparr>qs_request_id = fst (draw_token steady_env sample_runtime), qs_status = LC_NOT_FOUND\<rparr>)), st') \<and>
    records (rt_broker st') = records (rt_broker sample_runtime)"
proof -
  have ent: "good_entropy steady_env" by (simp add: good_entropy_def steady_env_def)
  let ?name = "''get_query_status''" and ?args = "Some [(''request_id'', PStr ''x<script>'')]"
  have 1: "?name = SUBMIT_TOOL_NAME \<longrightarrow> \<not> valid_arguments ?args" by (simp add: SUBMIT_TOOL_NAME_def)
  have 2: "?name = STATUS_TOOL_NAME \<longrightarrow> valid_status_arguments ?args = None" by code_simp
  have n: "?name = STATUS_TOOL_NAME" by (simp add: STATUS_TOOL_NAME_def)
  from malformed_call_has_no_effect[OF ent 1 2, where admit = sample_admission and
      spawn = "Inr ()" and st = sample_runtime] n
  show ?thesis by auto
qed

text \<open>
  Property C33.  The advertised input schemas are what the gateway checks: submit arguments are
  accepted exactly when they conform to the submit tool's input schema, the lifetime is a genuine
  integer and it fits \<open>timedelta\<close>; status arguments exactly when they conform to the status
  tool's, and then the identifier used is the one given.
\<close>

theorem accepted_arguments_are_schema_conformant:
  "(valid_arguments (Some a) \<longleftrightarrow>
      object_conforms (tool_input_schema SUBMIT_READ_QUERY) a \<and>
      (\<exists>n. map_of a ''requested_ttl'' = Some (PInt n) \<and> is_ok (timedelta_of_seconds n))) \<and>
   (valid_status_arguments (Some a') = Some i \<longleftrightarrow>
      object_conforms (tool_input_schema GET_QUERY_STATUS) a' \<and>
      map_of a' ''request_id'' = Some (PStr i))"
proof -
  have str: "type_conforms (PStr ''string'') v \<longleftrightarrow> (\<exists>s. v = PStr s)" for v by (cases v) simp_all
  have sql: "flat_conforms (PDict [(''type'', PStr ''string''), (''minLength'', PInt 1)]) v \<longleftrightarrow>
      (\<exists>s. v = PStr s \<and> s \<noteq> [])" for v
    by (cases v) (auto simp: keyword_def Suc_le_eq)
  have ttl: "flat_conforms (PDict [(''type'', PStr ''integer''), (''minimum'', PInt 1)]) (PInt n) \<longleftrightarrow> 1 \<le> n"
    for n by (simp add: keyword_def)
  have id: "flat_conforms request_id_schema v \<longleftrightarrow> (\<exists>s. v = PStr s \<and> request_id_pattern s)" for v
    by (cases v) (auto simp: keyword_def request_id_schema_def)
  have two: "set (keys d) = {k1, k2} \<longleftrightarrow> k1 \<in> set (keys d) \<and> k2 \<in> set (keys d) \<and>
      list_all (\<lambda>k. k = k1 \<or> k = k2) (keys d)" for d :: "(string, pyval) odict" and k1 k2
    by (auto simp: list_all_iff)
  have one: "set (keys d) = {k} \<longleftrightarrow> k \<in> set (keys d) \<and> list_all (\<lambda>k'. k' = k) (keys d)"
    for d :: "(string, pyval) odict" and k
    by (auto simp: list_all_iff)
  have present: "list_ex (\<lambda>k'. PStr k = PStr k') (keys d) \<longleftrightarrow> k \<in> set (keys d)"
    for d :: "(string, pyval) odict" and k by (auto simp: list_ex_iff)
  have lookup: "k \<in> set (keys d) \<longleftrightarrow> map_of d k \<noteq> None" for d :: "(string, pyval) odict" and k
    by (simp add: map_of_eq_None_iff)
  have submit: "object_conforms (tool_input_schema SUBMIT_READ_QUERY) a \<longleftrightarrow>
      set (keys a) = {''sql'', ''requested_ttl''} \<and>
      keyword a ''sql'' (\<lambda>v. \<exists>s. v = PStr s \<and> s \<noteq> []) \<and>
      keyword a ''requested_ttl''
        (flat_conforms (PDict [(''type'', PStr ''integer''), (''minimum'', PInt 1)]))"
    unfolding two SUBMIT_READ_QUERY_def tool.simps closed_object_conforms
    by (simp only: list.pred_inject list.map fst_conv prod.case set_simps insert_iff empty_iff
        sql[THEN ext] simp_thms) blast
  have status: "object_conforms (tool_input_schema GET_QUERY_STATUS) a' \<longleftrightarrow>
      set (keys a') = {''request_id''} \<and>
      keyword a' ''request_id'' (\<lambda>v. \<exists>s. v = PStr s \<and> request_id_pattern s)"
    unfolding one GET_QUERY_STATUS_def tool.simps closed_object_conforms
    by (simp only: list.pred_inject list.map fst_conv prod.case set_simps insert_iff empty_iff
        id[THEN ext] simp_thms) blast
  have first: "valid_arguments (Some a) \<longleftrightarrow> object_conforms (tool_input_schema SUBMIT_READ_QUERY) a \<and>
      (\<exists>n. map_of a ''requested_ttl'' = Some (PInt n) \<and> is_ok (timedelta_of_seconds n))"
  proof (cases "set (keys a) = {''sql'', ''requested_ttl''}")
    case True
    then have "''sql'' \<in> set (keys a)" "''requested_ttl'' \<in> set (keys a)" by blast+
    then obtain u v where uv: "map_of a ''sql'' = Some u" "map_of a ''requested_ttl'' = Some v"
      unfolding lookup by blast
    show ?thesis
      unfolding submit valid_arguments_iff INPUT_FIELDS_def
      using ttl uv by (simp add: keyword_def True del: flat_conforms.simps) blast
  next
    case False
    then show ?thesis unfolding submit valid_arguments_iff INPUT_FIELDS_def by simp
  qed
  have second: "valid_status_arguments (Some a') = Some i \<longleftrightarrow>
      object_conforms (tool_input_schema GET_QUERY_STATUS) a' \<and> map_of a' ''request_id'' = Some (PStr i)"
    unfolding status valid_status_arguments_iff STATUS_INPUT_FIELDS_def
    by (cases "map_of a' ''request_id''") (auto simp: keyword_def)
  show ?thesis using first second by blast
qed

end
