(* ===== verification/Result_Free.thy ===== *)
theory Result_Free
  imports Mcp_Gateway
begin

text \<open>
  The result-free boundary: nothing an agent is answered depends on a query's result.  Replacing
  every published source by any other, or taking it away, commutes with each call on the agent's
  side of the service, so the answers and all later states agree whatever the sources are.
\<close>

section \<open>Replacing the sources\<close>

definition map_record :: "('s \<Rightarrow> 't option) \<Rightarrow> ('s, 'c) request_record \<Rightarrow> ('t, 'c) request_record" where
  "map_record f r =
     \<lparr>rec_id = rec_id r, rec_status = rec_status r, rec_expires_at = rec_expires_at r,
      rec_source = Option.bind (rec_source r) f, rec_cursor = rec_cursor r\<rparr>"

abbreviation map_records ::
  "('s \<Rightarrow> 't option) \<Rightarrow> (string, ('s, 'c) request_record) odict \<Rightarrow> (string, ('t, 'c) request_record) odict" where
  "map_records f \<equiv> map (\<lambda>p. (fst p, map_record f (snd p)))"

definition map_broker :: "('s \<Rightarrow> 't option) \<Rightarrow> ('s, 'c) broker \<Rightarrow> ('t, 'c) broker" where
  "map_broker f b =
     \<lparr>maximum_ttl = maximum_ttl b, maximum_pending_requests = maximum_pending_requests b,
      maximum_requests = maximum_requests b, records = map_records f (records b),
      clock_reads = clock_reads b, tokens_drawn = tokens_drawn b, trace = trace b\<rparr>"

definition map_runtime :: "('s \<Rightarrow> 't option) \<Rightarrow> ('s, 'c, 'w) runtime \<Rightarrow> ('t, 'c, 'w) runtime" where
  "map_runtime f st = \<lparr>rt_broker = map_broker f (rt_broker st), rt_executor = rt_executor st\<rparr>"

lemma map_record_simps [simp]:
  "rec_id (map_record f r) = rec_id r" "rec_status (map_record f r) = rec_status r"
  "rec_expires_at (map_record f r) = rec_expires_at r" "rec_cursor (map_record f r) = rec_cursor r"
  "record_view (map_record f r) = record_view r"
  "evictable (map_record f r) = evictable r"
  "map_record f (r\<lparr>rec_status := s\<rparr>) = (map_record f r)\<lparr>rec_status := s\<rparr>"
  "map_record f (r\<lparr>rec_cursor := c\<rparr>) = (map_record f r)\<lparr>rec_cursor := c\<rparr>"
  "map_record f (r\<lparr>rec_source := None\<rparr>) = (map_record f r)\<lparr>rec_source := None\<rparr>"
  by (simp_all add: map_record_def record_view_def evictable_def)

lemma map_broker_simps [simp]:
  "maximum_ttl (map_broker f b) = maximum_ttl b"
  "maximum_pending_requests (map_broker f b) = maximum_pending_requests b"
  "maximum_requests (map_broker f b) = maximum_requests b"
  "records (map_broker f b) = map_records f (records b)"
  "clock_reads (map_broker f b) = clock_reads b" "tokens_drawn (map_broker f b) = tokens_drawn b"
  "trace (map_broker f b) = trace b"
  "(map_broker f b)\<lparr>clock_reads := n\<rparr> = map_broker f (b\<lparr>clock_reads := n\<rparr>)"
  "(map_broker f b)\<lparr>tokens_drawn := n\<rparr> = map_broker f (b\<lparr>tokens_drawn := n\<rparr>)"
  "(map_broker f b)\<lparr>trace := tr\<rparr> = map_broker f (b\<lparr>trace := tr\<rparr>)"
  "(map_broker f b)\<lparr>records := map_records f rs\<rparr> = map_broker f (b\<lparr>records := rs\<rparr>)"
  by (simp_all add: map_broker_def)

lemma map_runtime_simps [simp]:
  "rt_broker (map_runtime f st) = map_broker f (rt_broker st)"
  "rt_executor (map_runtime f st) = rt_executor st"
  "(map_runtime f st)\<lparr>rt_broker := map_broker f b\<rparr> = map_runtime f (st\<lparr>rt_broker := b\<rparr>)"
  "\<lparr>rt_broker = map_broker f b, rt_executor = x\<rparr> = map_runtime f \<lparr>rt_broker = b, rt_executor = x\<rparr>"
  by (simp_all add: map_runtime_def)

lemma fst_map_record [simp]: "fst \<circ> (\<lambda>p. (fst p, map_record f (snd p))) = fst"
  by (simp add: comp_def)

lemma map_of_map_records [simp]:
  "map_of (map_records f rs) i = map_option (map_record f) (map_of rs i)"
  by (induction rs) auto

lemma update_map_records [simp]:
  "AList.update i (map_record f r) (map_records f rs) = map_records f (AList.update i r rs)"
  by (induction rs) auto

lemma delete_map_records [simp]:
  "AList.delete i (map_records f rs) = map_records f (AList.delete i rs)"
  by (induction rs) auto

section \<open>The broker\<close>

lemma log_event_map [simp]: "log_event ev (map_broker f b) = map_broker f (log_event ev b)"
  by (simp add: log_event_def)

lemma cancel_opt_map [simp]: "cancel_opt c (map_broker f b) = map_broker f (cancel_opt c b)"
  by (cases c) (simp_all add: cancel_opt_def cancel_quietly_def)

lemma expire_map:
  "expire e (map_record f r) n = (case expire e r n of (res, r', n') \<Rightarrow> (res, map_record f r', n'))"
  by (auto simp: expire_def split: prod.splits sum.splits)

lemma expire_all_map:
  "expire_all e (map_records f rs) n =
   (case expire_all e rs n of (res, rs', n') \<Rightarrow> (res, map_records f rs', n'))"
proof (induction rs arbitrary: n)
  case (Cons p rs)
  obtain i r where p: "p = (i, r)" by (cases p)
  show ?case
    by (cases "expire e r n") (auto simp: p expire_map Cons.IH split: prod.splits sum.splits)
qed simp

lemma locked_record_map:
  assumes "\<And>r. body' (map_record f r) = map_prod id (map_record f) (body r)"
  shows "locked_record e i body' (map_broker f b) = map_prod id (map_broker f) (locked_record e i body b)"
proof (cases "map_of (records b) i")
  case None
  then show ?thesis by (simp add: locked_record_def Let_def log_event_def)
next
  case (Some r)
  obtain c r1 n where ex: "expire e r (clock_reads b) = (c, r1, n)" by (cases "expire e r (clock_reads b)")
  obtain res r2 where body: "body r1 = (res, r2)" by fastforce
  show ?thesis
    using Some ex body assms[of r1]
    by (cases c) (simp_all add: locked_record_def Let_def expire_map log_event_def cancel_opt_def
        cancel_quietly_def split: option.splits)
qed

lemma get_request_map:
  "get_request e i (map_broker f b) = map_prod id (map_broker f) (get_request e i b)"
  unfolding get_request_def by (rule locked_record_map) simp

lemma broker_fail_map:
  "broker_fail e i (map_broker f b) = map_prod id (map_broker f) (broker_fail e i b)"
proof -
  have "locked_record e i fail_body (map_broker f b) =
      map_prod id (map_broker f) (locked_record e i fail_body b)"
    by (rule locked_record_map) (simp add: fail_body_def Let_def record_view_def)
  then show ?thesis
    by (cases "locked_record e i fail_body b"; cases "fst (locked_record e i fail_body b)")
      (auto simp: broker_fail_def with_cursor_cancelled_def)
qed

lemma enter_records_map:
  "enter_records e (map_broker f b) = map_prod id (map_broker f) (enter_records e b)"
  by (cases "expire_all e (records b) (clock_reads b)")
    (simp add: enter_records_def Let_def expire_all_map log_event_def)

lemma exit_records_map: "exit_records cs (map_broker f b) = map_broker f (exit_records cs b)"
proof -
  have "fold cancel_quietly cs (map_broker f b) = map_broker f (fold cancel_quietly cs b)" for b
    by (induction cs arbitrary: b) (simp_all add: cancel_quietly_def)
  then show ?thesis by (simp add: exit_records_def)
qed

lemma find_map_records:
  "find (\<lambda>(i, r). evictable r) (map_records f rs) =
   map_option (\<lambda>p. (fst p, map_record f (snd p))) (find (\<lambda>(i, r). evictable r) rs)"
  by (induction rs) auto

lemma make_room_map: "make_room (map_broker f b) = map_prod id (map_broker f) (make_room b)"
  by (auto simp: make_room_def find_map_records split: option.splits)

lemma at_pending_capacity_map [simp]: "at_pending_capacity (map_broker f b) = at_pending_capacity b"
proof -
  have "pending_count (map_broker f b) = pending_count b"
    by (simp add: pending_count_def filter_map comp_def)
  then show ?thesis by (simp add: at_pending_capacity_def split: option.splits)
qed

lemma insert_pending_map:
  "insert_pending e ttl i (map_broker f b) = map_prod id (map_broker f) (insert_pending e ttl i b)"
proof -
  let ?new = "\<lambda>t. \<lparr>rec_id = i, rec_status = PENDING, rec_expires_at = t, rec_source = None, rec_cursor = None\<rparr>"
  have new: "map_record f (?new t) = ?new t" for t by (simp add: map_record_def)
  have upd: "AList.update i (?new t) (map_records f rs) = map_records f (AList.update i (?new t) rs)"
    for t rs using update_map_records[of i f "?new t" rs] by (simp only: new)
  show ?thesis
  proof (cases "now e (clock_reads b)")
    case (Pair m n)
    then show ?thesis
      by (cases m) (auto simp: insert_pending_def Let_def record_view_def upd split: sum.splits)
  qed
qed

lemma submit_body_map:
  "submit_body e ttl (map_broker f b) = map_option (map_prod id (map_broker f)) (submit_body e ttl b)"
proof (cases "make_room b")
  case (Pair m b1)
  then show ?thesis
    by (cases m) (auto simp: submit_body_def make_room_map insert_pending_map split: option.splits)
qed

lemma broker_submit_map:
  "broker_submit e ttl (map_broker f b) =
   map_option (map_prod id (map_broker f)) (broker_submit e ttl b)"
proof (cases "enter_records e b")
  case (Pair m b1)
  then show ?thesis
    by (cases m) (auto simp: broker_submit_def enter_records_map submit_body_map exit_records_map
        option.map_comp comp_def map_prod_def split_beta)
qed

section \<open>Executor, control plane and gateway\<close>

lemma suppress_unavailable_map:
  "suppress_unavailable (map_prod id (map_broker f) out) =
   map_prod id (map_broker f) (suppress_unavailable out)"
  by (cases out; cases "fst out") (auto simp: suppress_unavailable_def)

lemma schedule_map:
  "schedule e spawn sql work v x (map_broker f b) =
   map_prod id (map_prod id (map_broker f)) (schedule e spawn sql work v x b)"
proof (cases "suppress_unavailable (broker_fail e (view_id v) b)")
  case (Pair m b1)
  then show ?thesis
    by (cases m; cases spawn)
      (auto simp: schedule_def broker_fail_map suppress_unavailable_map)
qed

lemma executor_submit_map:
  "executor_submit e adm spawn sql ttl x (map_broker f b) =
   map_option (map_prod id (map_prod id (map_broker f))) (executor_submit e adm spawn sql ttl x b)"
  by (auto simp: executor_submit_def broker_submit_map schedule_map
      split: sum.splits option.splits prod.splits)

lemma draw_token_map:
  "draw_token e (map_runtime f st) = map_prod id (map_runtime f) (draw_token e st)"
  by (simp add: draw_token_def Let_def)

lemma rejected_receipt_map:
  "rejected_receipt e reason (map_runtime f st) =
   map_prod id (map_runtime f) (rejected_receipt e reason st)"
  by (simp add: rejected_receipt_def draw_token_map split: prod.splits)

lemma invalid_status_receipt_map:
  "invalid_status_receipt e (map_runtime f st) =
   map_prod id (map_runtime f) (invalid_status_receipt e st)"
  by (simp add: invalid_status_receipt_def draw_token_map split: prod.splits)

lemma control_submit_map:
  "control_submit e adm spawn sql ttl (map_runtime f st) =
   map_option (map_prod id (map_runtime f)) (control_submit e adm spawn sql ttl st)"
  by (auto simp: control_submit_def executor_submit_map rejected_receipt_map Let_def
      split: option.splits sum.splits prod.splits)

lemma control_status_map:
  "control_status e i (map_runtime f st) = map_prod id (map_runtime f) (control_status e i st)"
  by (cases "get_request e i (rt_broker st)") (simp add: control_status_def get_request_map)

lemma query_result_map:
  "query_result (map_prod id (map_runtime f) out) = map_prod id (map_runtime f) (query_result out)"
  by (cases out) (simp add: query_result_def)

lemma status_result_map:
  "status_result (map_prod id (map_runtime f) out) = map_prod id (map_runtime f) (status_result out)"
  by (cases out) (simp add: status_result_def)

section \<open>Tool calls\<close>

lemma call_tool_body_map:
  "call_tool_body e adm spawn name args (map_runtime f st) =
   map_option (map_prod id (map_runtime f)) (call_tool_body e adm spawn name args st)"
proof -
  have rej: "query_result (rejected_receipt e r (map_runtime f st)) =
      map_prod id (map_runtime f) (query_result (rejected_receipt e r st))" for r
    by (simp only: rejected_receipt_map query_result_map)
  have sub: "map_option query_result (control_submit e adm spawn sql ttl (map_runtime f st)) =
      map_option (map_prod id (map_runtime f)) (map_option query_result (control_submit e adm spawn sql ttl st))"
    for sql ttl by (simp add: control_submit_map option.map_comp comp_def query_result_map)
  have stat: "status_result (control_status e i (map_runtime f st)) =
      map_prod id (map_runtime f) (status_result (control_status e i st))"
    "status_result (invalid_status_receipt e (map_runtime f st)) =
      map_prod id (map_runtime f) (status_result (invalid_status_receipt e st))" for i
    by (simp_all only: control_status_map invalid_status_receipt_map status_result_map)
  show ?thesis
    unfolding call_tool_body_def
    by (auto simp: rej sub stat split: option.split pyval.split sum.split)
qed

lemma call_tool_except_map:
  "call_tool_except e name args (map_runtime f st) =
   map_prod id (map_runtime f) (call_tool_except e name args st)"
proof (cases "invalid_status_receipt e st")
  case (Pair m st1)
  have stat: "status_result (r, map_runtime f st1) = map_prod id (map_runtime f) (status_result (r, st1))"
    for r using status_result_map[of f "(r, st1)"] by simp
  have rej: "query_result (rejected_receipt e r (map_runtime f st)) =
      map_prod id (map_runtime f) (query_result (rejected_receipt e r st))" for r
    by (simp only: rejected_receipt_map query_result_map)
  show ?thesis
    using Pair by (cases m) (auto simp: call_tool_except_def invalid_status_receipt_map stat rej
        split: option.split)
qed

text \<open>
  Property C14.  The agent's side is result-free.  Take any state of the process and replace every
  published result by anything else, or by nothing: each tool call, with whatever name and arguments, gives
  exactly the same answer, and the states reached differ only in those results.  So no sequence of
  tool calls can tell two results apart.
\<close>

theorem tool_calls_are_result_free:
  "call_tool e adm spawn name args (map_runtime f st) =
   map_option (\<lambda>(answer, st'). (answer, map_runtime f st')) (call_tool e adm spawn name args st)"
proof (cases "call_tool_body e adm spawn name args st")
  case None
  then show ?thesis by (simp add: call_tool_def call_tool_body_map)
next
  case (Some out)
  obtain r st1 where out: "out = (r, st1)" by (cases out)
  obtain a st2 where exc: "call_tool_except e name args st1 = (a, st2)" by fastforce
  show ?thesis
    using Some out exc
    by (cases r) (simp_all add: call_tool_def call_tool_body_map call_tool_except_map)
qed

end
