(* ===== verification/Agent_To_Viewer.thy ===== *)
theory Agent_To_Viewer
  imports Snowflake_Serve Result_Live Result_Free
begin

text \<open>
  From the agent's tool call to the viewer's stream, through every component between them: the
  gateway, the control plane, the executor and the policy, the task and its thread, the driver and
  the admission of its result, the broker, and the result API.
\<close>

section \<open>The two sides of one process\<close>

text \<open>What the agent's tools work on is the service's own broker and executor.\<close>

definition agent_side ::
  "('n, 'c, ('m, 'x) batch_source) system \<Rightarrow> (('m, 'x) batch_source, 'c, string) runtime" where
  "agent_side y = \<lparr>rt_broker = sy_broker y, rt_executor = Some (sy_executor y)\<rparr>"

text \<open>What the viewer's streams compare with \<open>is\<close>: each source an object, under any identities.\<close>

abbreviation object_of :: "(('m, 'x) batch_source \<Rightarrow> nat) \<Rightarrow> ('m, 'x) batch_source \<Rightarrow> ('m, 'x) source_object" where
  "object_of ident s \<equiv> \<lparr>source_identity = ident s, source_content = s\<rparr>"

definition viewer_side ::
  "(('m, 'x) batch_source \<Rightarrow> nat) \<Rightarrow> (('m, 'x) batch_source, 'c) broker \<Rightarrow>
   (('m, 'x) source_object, 'c) broker" where
  "viewer_side ident = map_broker (\<lambda>s. Some (object_of ident s))"

lemma map_broker_inv:
  assumes "broker_inv b" and "\<And>s. f s \<noteq> None"
  shows "broker_inv (map_broker f b)"
proof -
  have "wf_record (map_record f r) \<longleftrightarrow> wf_record r" for r :: "('a, 'b) request_record"
    using assms(2) by (cases "rec_source r") (auto simp: wf_record_def map_record_def)
  moreover have "pending_count (map_broker f b) = pending_count b"
    by (simp add: pending_count_def filter_map comp_def)
  ultimately show ?thesis
    using assms(1) by (auto simp: broker_inv_def store_inv_def lock_free_def comp_def)
qed

lemma viewer_side_inv: "broker_inv b \<Longrightarrow> broker_inv (viewer_side ident b)"
  by (simp add: viewer_side_def map_broker_inv)

lemma viewer_side_complete:
  assumes "complete_at e i r b" and "rec_source r = Some s"
  obtains r' where "complete_at e i r' (viewer_side ident b)" "rec_source r' = Some (object_of ident s)"
proof -
  let ?r = "map_record (\<lambda>s. Some (object_of ident s)) r"
  have "rec_source ?r = Some (object_of ident s)" using assms(2) by (simp add: map_record_def)
  moreover have "complete_at e i ?r (viewer_side ident b)"
    using assms(1) by (simp add: complete_at_def viewer_side_def before_deadline_def)
  ultimately show ?thesis using that by blast
qed

section \<open>The agent's calls\<close>

lemma submit_tool_accepted:
  assumes "valid_arguments (Some a)" and "map_of a ''sql'' = Some (PStr sql)"
    and "map_of a ''requested_ttl'' = Some (PInt n)"
    and "executor_submit e adm (Inr ()) sql (seconds n) x b =
      Some (Inr \<lparr>sub_request = v, sub_governed_sql = governed\<rparr>, x', b')"
    and "request_id_pattern (view_id v)" and "governed \<noteq> []"
  shows "call_tool e adm (Inr ()) SUBMIT_TOOL_NAME (Some a) \<lparr>rt_broker = b, rt_executor = Some x\<rparr> =
    Some (Inr (receipt_result (query_receipt_dump
        \<lparr>qr_status = ACCEPTED, qr_request_id = view_id v, qr_reason_code = NONE,
         qr_governed_sql = Some governed\<rparr>)),
      \<lparr>rt_broker = b', rt_executor = Some x'\<rparr>)"
proof -
  obtain d where d: "timedelta_of_seconds n = Inr d"
    using assms(1-3) by (cases "timedelta_of_seconds n")
      (auto simp: valid_arguments_def dest: timedelta_of_seconds_Inl split: if_splits)
  then have "d = seconds n" by (rule timedelta_of_seconds_Inr)
  moreover have "new_query_receipt ACCEPTED (view_id v) NONE (Some governed) =
      Inr \<lparr>qr_status = ACCEPTED, qr_request_id = view_id v, qr_reason_code = NONE,
        qr_governed_sql = Some governed\<rparr>"
    using assms(5,6) by (simp add: new_query_receipt_def valid_query_receipt_def governed_sql_field_def
        consistent_submission_def Suc_le_eq)
  ultimately show ?thesis
    using assms(1-4) d
    by (simp add: call_tool_def call_tool_body_def control_submit_def query_result_def)
qed

lemma status_tool_complete:
  assumes "complete_at e i r b" and "request_id_pattern i"
  shows "\<exists>st'. call_tool e adm spawn STATUS_TOOL_NAME (Some [(''request_id'', PStr i)])
      \<lparr>rt_broker = b, rt_executor = x\<rparr> =
    Some (Inr (receipt_result (status_receipt_dump \<lparr>qs_request_id = i, qs_status = LC_COMPLETE\<rparr>)), st')"
proof -
  obtain b' where get: "get_request e i b = (Inr (record_view r), b')"
    using assms(1) locked_record_live[of b i r e "\<lambda>r. (Inr (record_view r), r)"]
    by (simp add: complete_at_def get_request_def)
  have "view_status (record_view r) = COMPLETE"
    using assms(1) by (simp add: complete_at_def record_view_def)
  then have "control_status e i \<lparr>rt_broker = b, rt_executor = x\<rparr> =
      (Inr \<lparr>qs_request_id = i, qs_status = LC_COMPLETE\<rparr>, \<lparr>rt_broker = b', rt_executor = x\<rparr>)"
    using assms(2)
    by (simp add: control_status_def get new_status_receipt_def del: request_status_value.simps)
  moreover have "valid_status_arguments (Some [(''request_id'', PStr i)]) = Some i"
    using assms(2) by (simp add: valid_status_arguments_def STATUS_INPUT_FIELDS_def new_status_receipt_def)
  ultimately show ?thesis
    by (simp add: call_tool_def call_tool_body_def status_result_def SUBMIT_TOOL_NAME_def STATUS_TOOL_NAME_def)
qed

section \<open>The viewer's stream\<close>

lemma broker_run_returns: "list_all (\<lambda>q. \<not> is_submit q) qs \<Longrightarrow> \<exists>b'. broker_run e qs b = Some b'"
proof (induction qs arbitrary: b)
  case (Cons q qs)
  then obtain b1 where "broker_exec e q b = Some b1" by (cases q) auto
  with Cons show ?case by simp
qed simp

lemma framed_loop_returns:
  assumes "\<And>n. list_all (\<lambda>q. \<not> is_submit q) (calls n)"
  shows "\<exists>out b'. framed_loop e i src calls n chunks end' b = Some (out, b')"
proof (induction chunks arbitrary: n b)
  case Nil
  obtain b1 where "broker_run e (calls n) b = Some b1" using broker_run_returns[OF assms] by blast
  then show ?case
    by (cases end') (auto simp: still_available_def split: prod.splits sum.splits bool.splits)
next
  case (Cons chunk chunks)
  obtain b1 where "broker_run e (calls n) b = Some b1" using broker_run_returns[OF assms] by blast
  then have "still_available e i src (calls n) b \<noteq> None"
    by (auto simp: still_available_def split: prod.splits sum.splits)
  then obtain ok b2 where av: "still_available e i src (calls n) b = Some (ok, b2)" by auto
  obtain out b' where "framed_loop e i src calls (Suc n) chunks end' b2 = Some (out, b')"
    using Cons.IH by blast
  with av show ?case by (auto split: bool.splits sum.splits)
qed

lemma framed_stream_returns:
  assumes "\<And>n. list_all (\<lambda>q. \<not> is_submit q) (calls n)"
  obtains out b' where "framed_stream e w l i src calls b = Some (out, b')"
proof -
  obtain chunks end' where ch: "ipc_chunks w (source_schema (source_content src))
      (open_batches (source_content src)) (maximum_arrow_bytes l) = (chunks, end')" by fastforce
  obtain out b' where "framed_loop e i src calls 0 chunks end' b = Some (out, b')"
    using framed_loop_returns[of calls, OF assms] by blast
  with ch that show ?thesis by (simp add: framed_stream_def)
qed

section \<open>End to end\<close>

text \<open>
  Property C5.  A query goes from the agent to the viewer.  If the agent submits well-formed
  arguments, the policy admits the SQL, the broker has room, the driver's calls succeed and the
  clock stays before the deadline, then the tool call is answered with the accepted receipt that
  names the request and its governed SQL; the submission and the steps of its task and thread are
  all possible; a status call is then answered \<open>complete\<close>; the viewer's route finds the source made
  of every batch the driver yielded; and its stream, whatever others do meanwhile to this or other
  requests short of cancelling this one, parses to that result's whole IPC stream and the
  completion frame.
\<close>

theorem agent_query_reaches_viewer:
  assumes "\<not> exec_closed (sy_executor y)" and "\<not> sv_active (sy_service y)" and "broker_inv (sy_broker y)"
    and args: "valid_arguments (Some a)" "map_of a ''sql'' = Some (PStr sql)"
      "map_of a ''requested_ttl'' = Some (PInt n)"
    and "authorize g (qa_policy qa) sql = Inr governed" and "governed \<noteq> []"
    and submit: "broker_submit (pf_env pf) (seconds n) (sy_broker y) = Some (Inr v, b)"
    and "obliging pf qa" and "good_entropy (pf_env pf)"
    and clock: "\<And>k. tz_aware (clock_at (pf_env pf) k)"
      "\<And>k. instant_of (clock_at (pf_env pf) k) < view_expires_at v"
    and fetch: "\<And>calls c. dr_fetch (pf_driver pf) calls c = Inr (yielded ts)"
    and ts: "ts \<noteq> []" "\<forall>t \<in> set ts. table_schema t = source_schema src"
      "source_batches src = concat (map table_batches ts)"
    and adm: "admissible (pf_writer pf) (source_schema src) MVP_ARROW_LIMITS (source_batches src)"
    and others: "\<And>k. list_all (\<lambda>q. \<not> is_submit q \<and> q \<noteq> Cancel (view_id v)) (calls k)"
  shows "\<exists>y1 y' st' b' out b'' sent.
    call_tool (pf_env pf) (admission_call g qa) (Inr ()) SUBMIT_TOOL_NAME (Some a) (agent_side y) =
      Some (Inr (receipt_result (query_receipt_dump
          \<lparr>qr_status = ACCEPTED, qr_request_id = view_id v, qr_reason_code = NONE,
           qr_governed_sql = Some governed\<rparr>)), agent_side y1) \<and>
    system_exec g pf qa (Act_submit sql (seconds n) (Inr ())) y = Some y1 \<and>
    system_run g pf qa (tl (clean_query (length (sy_jobs y)) sql (seconds n) src)) y1 = Some y' \<and>
    call_tool (pf_env pf) (admission_call g qa) (Inr ()) STATUS_TOOL_NAME
        (Some [(''request_id'', PStr (view_id v))]) (agent_side y') =
      Some (Inr (receipt_result (status_receipt_dump
          \<lparr>qs_request_id = view_id v, qs_status = LC_COMPLETE\<rparr>)), st') \<and>
    stream_request (pf_env pf) (view_id v) (sy_broker y') = (Inr src, b') \<and>
    framed_stream (pf_env pf) (pf_writer pf) MVP_ARROW_LIMITS (view_id v) (object_of ident src) calls
      (viewer_side ident b') = Some (out, b'') \<and>
    parse_stream (concat out) = Some (map Arrow_frame sent @ [Complete_frame]) \<and>
    concat sent = ipc_stream (pf_writer pf) (source_schema src) (source_batches src)"
proof -
  let ?e = "pf_env pf" and ?i = "view_id v"
  have "length (entropy_at ?e k) = 18" for k using assms(11) by (simp add: good_entropy_def)
  then have pat: "request_id_pattern ?i"
    using submit_new_record[OF submit assms(3)] token_urlsafe_shape by metis
  obtain y1 y' m c r where run: "system_exec g pf qa (Act_submit sql (seconds n) (Inr ())) y = Some y1"
    "system_run g pf qa (tl (clean_query (length (sy_jobs y)) sql (seconds n) src)) y1 = Some y'"
    and sub: "executor_submit ?e (admission_call g qa) (Inr ()) sql (seconds n) (sy_executor y) (sy_broker y) =
      Some (Inr \<lparr>sub_request = v, sub_governed_sql = governed\<rparr>, sy_executor y1, sy_broker y1)"
    and inv: "broker_inv (sy_broker y')"
    and comp: "complete_at ?e ?i r (sy_broker y')" "rec_source r = Some src"
    by (rule clean_query_runs[OF assms(1-3,7) submit assms(10) clock fetch ts(1) bspec[OF ts(2)] ts(3) adm])
  obtain b' where op: "open_source ?e ?i (sy_broker y') = (Inr src, b')" and comp': "complete_at ?e ?i r b'"
    by (rule open_complete[OF comp])
  have inv': "broker_inv b'"
    using store_evolves_inv[OF op_evolves(6)[OF broker_inv_distinct[OF inv], of ?e ?i] inv] op by simp
  obtain r' where vs: "complete_at ?e ?i r' (viewer_side ident b')" "rec_source r' = Some (object_of ident src)"
    by (rule viewer_side_complete[OF comp' comp(2)])
  have "list_all (\<lambda>q. \<not> is_submit q) (calls k)" "Cancel ?i \<notin> set (calls k)" for k
    using others[of k] by (auto simp: list_all_iff)
  note calls = this
  obtain out b'' where str: "framed_stream ?e (pf_writer pf) MVP_ARROW_LIMITS ?i (object_of ident src) calls
      (viewer_side ident b') = Some (out, b'')" by (rule framed_stream_returns[OF calls(1)])
  have "admissible (pf_writer pf) (source_schema (source_content (object_of ident src))) MVP_ARROW_LIMITS
      (source_batches (source_content (object_of ident src)))" using adm by simp
  from live_stream_whole[OF str viewer_side_inv[OF inv'] this vs calls(2)] obtain sent where
    sent: "parse_stream (concat out) = Some (map Arrow_frame sent @ [Complete_frame])"
      "concat sent = ipc_stream (pf_writer pf) (source_schema src) (source_batches src)" by auto
  obtain st' where st: "call_tool ?e (admission_call g qa) (Inr ()) STATUS_TOOL_NAME
      (Some [(''request_id'', PStr ?i)]) (agent_side y') =
    Some (Inr (receipt_result (status_receipt_dump \<lparr>qs_request_id = ?i, qs_status = LC_COMPLETE\<rparr>)), st')"
    using status_tool_complete[OF comp(1) pat] unfolding agent_side_def by blast
  have "stream_request ?e ?i (sy_broker y') = (Inr src, b')" by (simp add: stream_request_def op)
  with submit_tool_accepted[OF args sub pat assms(8)] run st str sent show ?thesis
    unfolding agent_side_def by blast
qed

text \<open>The sample query, while others list and look it up before every check of the stream.\<close>

definition watching :: "nat \<Rightarrow> ((nat, nat) source_object, nat) broker_call list" where
  "watching k = [List_all, Get sample_id, Cancel ''other'']"

theorem agent_query_reaches_viewer_witness:
  "\<exists>y1 y' st' b' out b'' sent.
     call_tool frozen_env (admission_call sample_sqlglot sample_query_admission) (Inr ()) SUBMIT_TOOL_NAME
       (Some [(''sql'', PStr ''q''), (''requested_ttl'', PInt 60)]) (agent_side sample_system) =
       Some (Inr (receipt_result (query_receipt_dump
           \<lparr>qr_status = ACCEPTED, qr_request_id = sample_id, qr_reason_code = NONE,
            qr_governed_sql = Some ''q limit 51''\<rparr>)), agent_side y1) \<and>
     system_exec sample_sqlglot still_platform sample_query_admission
       (Act_submit ''q'' (seconds 60) (Inr ())) sample_system = Some y1 \<and>
     system_run sample_sqlglot still_platform sample_query_admission
       (tl (clean_query 0 ''q'' (seconds 60) sample_result)) y1 = Some y' \<and>
     call_tool frozen_env (admission_call sample_sqlglot sample_query_admission) (Inr ()) STATUS_TOOL_NAME
       (Some [(''request_id'', PStr sample_id)]) (agent_side y') =
       Some (Inr (receipt_result (status_receipt_dump
           \<lparr>qs_request_id = sample_id, qs_status = LC_COMPLETE\<rparr>)), st') \<and>
     stream_request frozen_env sample_id (sy_broker y') = (Inr sample_result, b') \<and>
     framed_stream frozen_env sample_writer MVP_ARROW_LIMITS sample_id (object_of (\<lambda>s. 0) sample_result)
       watching (viewer_side (\<lambda>s. 0) b') = Some (out, b'') \<and>
     parse_stream (concat out) = Some (map Arrow_frame sent @ [Complete_frame]) \<and>
     concat sent = ipc_stream sample_writer sample_schema [sample_batch, sample_batch]"
proof -
  let ?a = "[(''sql'', PStr ''q''), (''requested_ttl'', PInt 60)]"
  obtain v b where submit: "broker_submit (pf_env still_platform) (seconds 60) (sy_broker sample_system) = Some (Inr v, b)"
    and v: "view_id v = sample_id" "view_expires_at v = seconds 60"
    by (rule still_submission)
  have args: "valid_arguments (Some ?a)" "map_of ?a ''sql'' = Some (PStr ''q'')"
    "map_of ?a ''requested_ttl'' = Some (PInt 60)" by code_simp+
  have ent: "good_entropy (pf_env still_platform)"
    by (simp add: good_entropy_def still_platform_def frozen_env_def steady_env_def)
  have calls: "list_all (\<lambda>q. \<not> is_submit q \<and> q \<noteq> Cancel (view_id v)) (watching k)" for k
    by (simp add: watching_def v(1))
  have deadline: "instant_of (clock_at (pf_env still_platform) k) < view_expires_at v" for k
    by (simp add: still_platform_def frozen_env_def v(2) seconds_def)
  have eqs: "pf_env still_platform = frozen_env" "pf_writer still_platform = sample_writer"
    "source_schema sample_result = sample_schema" "source_batches sample_result = [sample_batch, sample_batch]"
    "length (sy_jobs sample_system) = 0"
    by (simp_all add: still_platform_def sample_platform_def sample_result_def sample_system_def)
  have schema: "\<forall>t \<in> set [sample_arrow_table]. table_schema t = source_schema sample_result"
    using still_facts(8) by blast
  have nonempty: "''q limit 51'' \<noteq> []" "[sample_arrow_table] \<noteq> []" by simp_all
  show ?thesis
    using agent_query_reaches_viewer[OF still_facts(1-3) args still_facts(4) nonempty(1) submit
        still_facts(5) ent still_facts(6) deadline still_facts(7) nonempty(2) schema still_facts(9,10) calls,
        of "\<lambda>s. 0"]
    unfolding v(1) eqs .
qed

end
