(* ===== verification/Snowflake_Shutdown.thy ===== *)
theory Snowflake_Shutdown
  imports Snowflake_Live
begin

text \<open>
  Shutdown.  Once \<open>close\<close> has refused new submissions and cancelled what was pending, nothing
  becomes pending again and no task is added; so under fair scheduling the tasks that \<open>close\<close>
  gathers all end, and with them every thread, cursor and connection.
\<close>

section \<open>The open tasks\<close>

text \<open>
  The set \<open>_tasks\<close>, from which the callback of a task discards it when the task is done: a task
  enters it when it is scheduled and leaves it when its coroutine is over.
\<close>

fun task_done :: "'s run_phase \<Rightarrow> bool" where
  "task_done Run_done \<longleftrightarrow> True"
| "task_done Run_abandoned \<longleftrightarrow> True"
| "task_done ph \<longleftrightarrow> False"

definition open_tasks :: "('n, 'c, 's) system \<Rightarrow> nat list" where
  "open_tasks y = filter (\<lambda>k. \<not> task_done (job_run (sy_jobs y ! k))) [0..<length (sy_jobs y)]"

lemma job_over_task_done: "job_over j \<Longrightarrow> task_done (job_run j)"
  by (cases "job_run j") (simp_all add: job_over_def)

lemma job_over_holds_nothing:
  assumes "job_over j"
  shows "\<not> job_critical j" "job_connection j \<noteq> Some n" "job_cursor j \<noteq> Some c"
proof -
  have "job_worker j = None \<or> (\<exists>r. job_worker j = Some (Wk_done r))"
    using assms by (cases "job_worker j" rule: work_over.cases) (auto simp: job_over_def)
  then show "\<not> job_critical j" "job_connection j \<noteq> Some n" "job_cursor j \<noteq> Some c" by auto
qed

section \<open>A closed executor\<close>

definition shut :: "('n, 'c, 's) system \<Rightarrow> bool" where
  "shut y \<longleftrightarrow> exec_closed (sy_executor y) \<and> (\<forall>i. \<not> pending_in (sy_broker y) i)"

lemma shut_step:
  assumes "system_exec g pf qa a y = Some y'" and "broker_inv (sy_broker y)" and "shut y"
  shows "shut y' \<and> length (sy_jobs y') = length (sy_jobs y)"
proof (cases "\<exists>sql ttl spawn. a = Act_submit sql ttl spawn")
  case True
  with assms(1,3) show ?thesis by (auto simp: shut_def executor_submit_def)
next
  case False
  from system_exec_calm[OF assms(1) False] assms(2,3)
  have "\<forall>i. \<not> pending_in (sy_broker y') i" using calm_pending by (auto simp: shut_def)
  moreover have "exec_closed (sy_executor y') \<and> length (sy_jobs y') = length (sy_jobs y)"
    using False assms(1,3)
    by (cases a) (auto simp: shut_def executor_close_def Let_def
        split: if_splits option.splits sum.splits prod.splits)
  ultimately show ?thesis by (simp add: shut_def)
qed

lemma close_shuts:
  assumes "system_exec g pf qa Act_close y = Some y'" and "broker_inv (sy_broker y)" and "aware pf"
  shows "shut y' \<and> length (sy_jobs y') = length (sy_jobs y)"
proof -
  obtain res x' b' where close: "executor_close (pf_env pf) (sy_executor y) (sy_broker y) = (res, x', b')"
    "y' = with_broker b' y\<lparr>sy_executor := x'\<rparr>" using assms(1) by (auto split: prod.splits)
  have "tz_aware (clock_at (pf_env pf) n)" for n using assms(3) by simp
  note facts = executor_close_facts[OF close(1) assms(2) this]
  have "rec_status r \<noteq> PENDING" if "map_of (records b') i = Some r" for i r
    using facts that by blast
  moreover have "exec_closed x'" using facts by blast
  ultimately show ?thesis by (auto simp: close(2) shut_def pending_in_def)
qed

lemma shut_for_good:
  assumes "schedule_runs g pf qa sched ys" and "\<And>m. broker_inv (sy_broker (ys m))" and "shut (ys n)"
    and "n \<le> m"
  shows "shut (ys m) \<and> length (sy_jobs (ys m)) = length (sy_jobs (ys n))"
  using assms(4)
proof (induction rule: dec_induct)
  case (step m)
  with shut_step[OF _ assms(2), of g pf qa "sched m" m "ys (Suc m)"] assms(1)
  show ?case by (auto simp: schedule_runs_def)
qed (use assms(3) in simp)

text \<open>Finitely many jobs, each of which is over from some point on, are all over from some point on.\<close>

lemma eventually_all:
  fixes P :: "nat \<Rightarrow> nat \<Rightarrow> bool"
  assumes "\<And>k. k < l \<Longrightarrow> \<exists>m. \<forall>m' \<ge> m. P k m'"
  shows "\<exists>m. \<forall>m' \<ge> m. \<forall>k < l. P k m'"
  using assms
proof (induction l)
  case (Suc l)
  then obtain m1 where m1: "\<forall>m' \<ge> m1. \<forall>k < l. P k m'" by fastforce
  obtain m2 where "\<forall>m' \<ge> m2. P l m'" using Suc.prems[of l] by blast
  with m1 have "\<forall>m' \<ge> max m1 m2. \<forall>k < Suc l. P k m'" by (simp add: less_Suc_eq)
  then show ?case ..
qed simp

lemma schedule_reachable:
  assumes "system_initial (ys 0)" and "schedule_runs g pf qa sched ys"
  shows "runs system_initial (system_step g pf qa) (ys m)"
proof (induction m)
  case 0
  from assms(1) show ?case by (rule runs_init)
next
  case (Suc m)
  with schedule_step[OF assms(2)] show ?case by (blast intro: runs_step)
qed

text \<open>
  Property C8.  Shutdown completes and leaves nothing behind.  In every endless fair run of the
  service from a fresh process with an aware clock, once the executor has been closed there comes
  a point from which on, whoever submits or calls: no task was added, none of those \<open>close\<close>
  waits for is unfinished, no request is pending, the executor's lock is free, and every cursor
  and every connection that was opened has had its close called as often as it was opened.
\<close>

theorem shutdown_completes:
  assumes "system_initial (ys 0)" and "schedule_runs g pf qa sched ys" and "fair sched ys"
    and "\<And>m. tz_aware (clock_at (pf_env pf) m)" and "sched n = Act_close"
  shows "\<exists>m > n. \<forall>m' \<ge> m.
    length (sy_jobs (ys m')) = length (sy_jobs (ys n)) \<and> open_tasks (ys m') = [] \<and>
    (\<forall>i r. map_of (records (sy_broker (ys m'))) i = Some r \<longrightarrow> rec_status r \<noteq> PENDING) \<and>
    \<not> sv_active (sy_service (ys m')) \<and>
    (\<forall>k. connection_balance k (conn_log (sy_service (ys m'))) = 0) \<and>
    (\<forall>c. cursor_balance c (conn_log (sy_service (ys m'))) = 0)"
proof -
  note reach = schedule_reachable[OF assms(1,2)]
  note inv = service.reachable_inv[OF reach] and lock = locked.reachable_inv[OF reach]
  have "system_exec g pf qa Act_close (ys n) = Some (ys (Suc n))"
    using assms(2,5) by (metis schedule_runs_def)
  from close_shuts[OF this inv] assms(4)
  have start: "shut (ys (Suc n))" "length (sy_jobs (ys (Suc n))) = length (sy_jobs (ys n))" by auto
  let ?l = "length (sy_jobs (ys n))"
  have still: "shut (ys m) \<and> length (sy_jobs (ys m)) = ?l" if "Suc n \<le> m" for m
    using shut_for_good[OF assms(2) inv start(1) that] start(2) by simp
  have "\<exists>m. \<forall>m' \<ge> m. job_over (sy_jobs (ys m') ! k)" if "k < ?l" for k
    using fair_job_over[OF assms(2,3) that] by blast
  from eventually_all[where P = "\<lambda>k m. job_over (sy_jobs (ys m) ! k)", OF this] obtain m where m: "\<forall>m' \<ge> m. \<forall>k < ?l. job_over (sy_jobs (ys m') ! k)"
    by blast
  show ?thesis
  proof (intro exI[of _ "max (Suc n) m"] conjI allI impI)
    fix m' assume "max (Suc n) m \<le> m'"
    then have m': "Suc n \<le> m'" "m \<le> m'" by simp_all
    note shut = still[OF m'(1)]
    have over: "job_over j" if "j \<in> set (sy_jobs (ys m'))" for j
      using m m'(2) shut that by (auto simp: in_set_conv_nth)
    show "length (sy_jobs (ys m')) = ?l" using shut by simp
    show "open_tasks (ys m') = []"
      using over by (auto simp: open_tasks_def filter_empty_conv job_over_task_done)
    show "rec_status r \<noteq> PENDING" if "map_of (records (sy_broker (ys m'))) i = Some r" for i r
      using shut that by (auto simp: shut_def pending_in_def)
    have none: "tally job_critical (sy_jobs (ys m')) = 0"
      "tally (\<lambda>j. job_connection j = Some k) (sy_jobs (ys m')) = 0"
      "tally (\<lambda>j. job_cursor j = Some c) (sy_jobs (ys m')) = 0" for k c
      using over by (auto intro!: tally_none simp: job_over_holds_nothing)
    with lock[of m']
    show "\<not> sv_active (sy_service (ys m'))" "connection_balance k (conn_log (sy_service (ys m'))) = 0"
      "cursor_balance c (conn_log (sy_service (ys m'))) = 0" for k c
      by (simp_all add: lock_inv_def)
  qed simp
qed

text \<open>The executor is closed while the sample request's thread holds its cursor.\<close>

abbreviation closing_sched :: "nat \<Rightarrow> (nat, (nat, nat) batch_source) action" where
  "closing_sched \<equiv> then_listing (sample_start @ Act_close # sample_rest)"

theorem shutdown_completes_witness:
  "closing_sched 8 = Act_close \<and> open_tasks (states_under closing_sched 8) = [0] \<and>
   (\<exists>m > 8. open_tasks (states_under closing_sched m) = [] \<and>
      cursor_balance 7 (conn_log (sy_service (states_under closing_sched m))) = 0)"
proof (intro conjI)
  have "map_option (\<lambda>y. list_all job_over (sy_jobs y))
    (sample_exec_all (sample_start @ Act_close # sample_rest) sample_system) = Some True" by code_simp
  then obtain y where y: "sample_exec_all (sample_start @ Act_close # sample_rest) sample_system = Some y"
    "list_all job_over (sy_jobs y)" by auto
  show close: "closing_sched 8 = Act_close"
    by (simp add: then_listing_def sample_start_def nth_append)
  have initial: "system_initial (states_under closing_sched 0)" using sample_system_initial by simp
  have clock: "tz_aware (clock_at (pf_env sample_platform) m)" for m
    by (simp add: sample_platform_def steady_env_def)
  from shutdown_completes[OF initial then_listing_runs[OF y] then_listing_fair[OF y] clock close]
  show "\<exists>m > 8. open_tasks (states_under closing_sched m) = [] \<and>
      cursor_balance 7 (conn_log (sy_service (states_under closing_sched m))) = 0" by blast
  have "map_option open_tasks (sample_exec_all sample_start sample_system) = Some [0]" by code_simp
  then obtain y8 where y8: "sample_exec_all sample_start sample_system = Some y8" "open_tasks y8 = [0]"
    by auto
  have "closing_sched (0 + m) = sample_start ! m" if "m < length sample_start" for m
    using that by (simp add: then_listing_def nth_append)
  from states_under_run[OF y8(1) states_under.simps(1) this]
  have "states_under closing_sched (length sample_start) = y8" by simp
  moreover have "length sample_start = 8" by (simp add: sample_start_def)
  ultimately show "open_tasks (states_under closing_sched 8) = [0]" using y8(2) by simp
qed

end
