(* ===== verification/Snowflake_Paths.thy ===== *)
theory Snowflake_Paths
  imports Snowflake_Props
begin

text \<open>
  Every way through \<open>_execute\<close> (\<open>src/snowglobe/snowflake_executor.py\<close>), told by the answers of the
  driver and of standard output alone: which calls are made, in which order, with which arguments,
  what is printed and what the thread ends with.
\<close>

section \<open>The paths\<close>

text \<open>
  On a cursor.  \<open>calls\<close> and \<open>printed\<close> are what was asked of the driver and printed before; \<open>free\<close>
  says that the request can take the cursor.  What is fetched is specified on its own, in
  \<open>Snowflake_Serve\<close>.
\<close>

inductive work_path ::
  "('n, 'c, 'm, 'x) platform \<Rightarrow> string \<Rightarrow> string \<Rightarrow> 'c \<Rightarrow> bool \<Rightarrow> ('n, 'c) driver_log \<Rightarrow> string list \<Rightarrow>
   ('n, 'c) driver_log \<Rightarrow> string list \<Rightarrow> ('m, 'x) batch_source result \<Rightarrow> bool"
  for pf i sql c free calls printed
where
  not_taken: "\<not> free \<Longrightarrow> work_path pf i sql c free calls printed [] [] (Inl RequestUnavailable)"
| not_printed: "free \<Longrightarrow> pf_stdout pf printed = Inl x \<Longrightarrow>
    work_path pf i sql c free calls printed []
      [''Executing governed SQL for request '' @ i @ '':'' @ [CHR 0x0A] @ sql] (Inl x)"
| not_executed: "free \<Longrightarrow> pf_stdout pf printed = Inr () \<Longrightarrow> dr_execute (pf_driver pf) calls c sql 60 = Inl x \<Longrightarrow>
    work_path pf i sql c free calls printed [Executed c sql 60]
      [''Executing governed SQL for request '' @ i @ '':'' @ [CHR 0x0A] @ sql] (Inl x)"
| fetched: "free \<Longrightarrow> pf_stdout pf printed = Inr () \<Longrightarrow> dr_execute (pf_driver pf) calls c sql 60 = Inr () \<Longrightarrow>
    work_path pf i sql c free calls printed [Executed c sql 60, Fetched c]
      [''Executing governed SQL for request '' @ i @ '':'' @ [CHR 0x0A] @ sql]
      (fetch_admitted_result pf (calls @ [Executed c sql 60]) c)"

text \<open>
  Around it: the connection, the cursor and their closing.  The last close that raises decides the
  outcome; otherwise it is the outcome of the work.
\<close>

definition connection_answer ::
  "('n, 'c, 'm, 'x) platform \<Rightarrow> ('n, 'c) query_admission \<Rightarrow> ('n, 'c) driver_log \<Rightarrow> 'n result" where
  "connection_answer pf qa calls =
     (case qa_connect qa of
        Some f \<Rightarrow> f calls (qa_arguments qa)
      | None \<Rightarrow> (case dr_import (pf_driver pf) of
                   Inl x \<Rightarrow> Inl x
                 | Inr _ \<Rightarrow> dr_connect (pf_driver pf) calls (qa_arguments qa)))"

definition unless_raised :: "unit result \<Rightarrow> 'a result \<Rightarrow> 'a result" where
  "unless_raised a r = (case a of Inl x \<Rightarrow> Inl x | Inr _ \<Rightarrow> r)"

inductive execution_path ::
  "('n, 'c, 'm, 'x) platform \<Rightarrow> ('n, 'c) query_admission \<Rightarrow> string \<Rightarrow> string \<Rightarrow> bool \<Rightarrow>
   ('n, 'c) driver_log \<Rightarrow> string list \<Rightarrow> ('n, 'c) driver_log \<Rightarrow> string list \<Rightarrow>
   ('m, 'x) batch_source result \<Rightarrow> bool"
  for pf qa i sql free calls printed
where
  not_connected: "connection_answer pf qa calls = Inl x \<Longrightarrow>
    execution_path pf qa i sql free calls printed [Connect_failed] [] (Inl x)"
| no_cursor: "connection_answer pf qa calls = Inr n \<Longrightarrow>
    dr_cursor (pf_driver pf) (calls @ [Connected n]) n = Inl x \<Longrightarrow>
    execution_path pf qa i sql free calls printed [Connected n, Cursor_failed n, Connection_closed n] []
      (unless_raised (dr_close_connection (pf_driver pf) (calls @ [Connected n, Cursor_failed n]) n) (Inl x))"
| worked: "connection_answer pf qa calls = Inr n \<Longrightarrow>
    dr_cursor (pf_driver pf) (calls @ [Connected n]) n = Inr c \<Longrightarrow>
    work_path pf i sql c free (calls @ [Connected n, Cursor_opened n c]) printed work lines r \<Longrightarrow>
    execution_path pf qa i sql free calls printed
      ([Connected n, Cursor_opened n c] @ work @ [Cursor_closed c, Connection_closed n]) lines
      (unless_raised
        (dr_close_connection (pf_driver pf)
          (calls @ [Connected n, Cursor_opened n c] @ work @ [Cursor_closed c]) n)
        (unless_raised
          (dr_close_cursor (pf_driver pf) (calls @ [Connected n, Cursor_opened n c] @ work) c) r))"

section \<open>The cursor in the request's record\<close>

definition cursor_free :: "env \<Rightarrow> string \<Rightarrow> ('s, 'c) broker \<Rightarrow> bool" where
  "cursor_free e i b \<longleftrightarrow>
     (\<exists>r. map_of (records b) i = Some r \<and> rec_status r = PENDING \<and> rec_cursor r = None \<and>
        instant_of (clock_at e (clock_reads b)) < rec_expires_at r)"

text \<open>Afterwards the record holds no cursor, or one it held before; no other record has changed.\<close>

definition cursor_returned :: "env \<Rightarrow> string \<Rightarrow> ('s, 'c) broker \<Rightarrow> ('s, 'c) broker \<Rightarrow> bool" where
  "cursor_returned e i b b' \<longleftrightarrow>
     (\<forall>j. j \<noteq> i \<longrightarrow> map_of (records b') j = map_of (records b) j) \<and>
     (case map_of (records b') i of
        None \<Rightarrow> map_of (records b) i = None
      | Some r' \<Rightarrow> rec_cursor r' = None \<or>
          \<not> cursor_free e i b \<and> (\<exists>r. map_of (records b) i = Some r \<and> rec_cursor r' = rec_cursor r))"

lemma cursor_returned_refl: "cursor_returned e i b b"
  by (auto simp: cursor_returned_def cursor_free_def split: option.splits)

lemma mark_started_free:
  assumes "cursor_free e i b" and "\<And>n. tz_aware (clock_at e n)"
  obtains b' r where "mark_started e i (Some c) b = (Inr (), b')" "rec_status r = PENDING"
    "rec_cursor r = Some c" "map_of (records b') = (map_of (records b))(i \<mapsto> r)"
proof -
  from assms(1) obtain r where r: "map_of (records b) i = Some r" "rec_status r = PENDING"
    "rec_cursor r = None" "instant_of (clock_at e (clock_reads b)) < rec_expires_at r"
    unfolding cursor_free_def by blast
  have "expire e r (clock_reads b) = (Inr None, r, Suc (clock_reads b))"
    using r assms(2) by (simp add: expire_def now_def)
  with r show ?thesis
    by (intro that[of _ "r\<lparr>rec_cursor := Some c\<rparr>"])
      (auto simp: mark_started_def register_cursor_def locked_record_def log_event_def Let_def
        register_body_def cancel_opt_def AList.update_conv' split: prod.splits)
qed

lemma mark_started_taken:
  assumes "\<not> cursor_free e i b" and "\<And>n. tz_aware (clock_at e n)"
  obtains b' where "mark_started e i (Some c) b = (Inl RequestUnavailable, b')" "cursor_returned e i b b'"
proof -
  obtain res b0 where lr: "locked_record e i (register_body c) b = (res, b0)" by fastforce
  have "(res = Inl RequestUnavailable \<or> res = Inr None) \<and> cursor_returned e i b b0"
    using lr
  proof (cases rule: locked_record_cases)
    case (ran r c' r1 n r2)
    with assms show ?thesis
      by (auto simp: expire_def now_def register_body_def cursor_returned_def cursor_free_def Let_def
          AList.update_conv' split: if_splits)
  qed (use assms in \<open>auto simp: cursor_returned_def expire_def now_def split: if_splits option.splits\<close>)
  with lr show ?thesis
    by (intro that[of "cancel_quietly c b0"])
      (auto simp: mark_started_def register_cursor_def cursor_returned_def cancel_quietly_def log_event_def)
qed

lemma release_started_holds:
  assumes "map_of (records b) i = Some r" and "rec_status r = PENDING" and "rec_cursor r = Some c"
    and "\<And>n. tz_aware (clock_at e n)"
  obtains b' r' where "release_started e i (Some c) b = (Inr (), b')" "rec_cursor r' = None"
    "map_of (records b') = (map_of (records b))(i \<mapsto> r')"
proof -
  obtain res b0 where lr: "locked_record e i (release_body c) b = (res, b0)" by fastforce
  have "res = Inr () \<and> (\<exists>r'. rec_cursor r' = None \<and> map_of (records b0) = (map_of (records b))(i \<mapsto> r'))"
    using lr
  proof (cases rule: locked_record_cases)
    case (ran r0 c' r1 n r2)
    with assms have "res = Inr () \<and> rec_cursor r2 = None \<and> map_of (records b0) = (map_of (records b))(i \<mapsto> r2)"
      by (auto simp: expire_def now_def release_body_def AList.update_conv' split: if_splits)
    then show ?thesis by blast
  qed (use assms in \<open>auto simp: expire_def now_def split: if_splits\<close>)
  with lr show ?thesis
    by (auto simp: release_started_def release_cursor_def suppress_unavailable_def intro: that)
qed

section \<open>The blocks take one of the paths\<close>

lemma run_query_path:
  assumes "run_query pf i sql c st = (r, st')"
  shows "\<exists>work lines. work_path pf i sql c True (conn_log st) (sv_printed st) work lines r \<and>
    conn_log st' = conn_log st @ work \<and> sv_printed st' = sv_printed st @ lines \<and>
    sv_broker st' = sv_broker st \<and> sv_active st' = sv_active st \<and> conn_logger st' = conn_logger st"
proof -
  have timeout: "MVP_STATEMENT_TIMEOUT_SECONDS = 60" by (simp add: MVP_STATEMENT_TIMEOUT_SECONDS_def)
  let ?calls = "conn_log st" and ?printed = "sv_printed st"
  have path: "\<exists>work lines. work_path pf i sql c True ?calls ?printed work lines r \<and>
      conn_log st' = ?calls @ work \<and> sv_printed st' = ?printed @ lines \<and>
      sv_broker st' = sv_broker st \<and> sv_active st' = sv_active st \<and> conn_logger st' = conn_logger st"
    if "work_path pf i sql c True ?calls ?printed work lines r" "conn_log st' = ?calls @ work"
      "sv_printed st' = ?printed @ lines" "sv_broker st' = sv_broker st" "sv_active st' = sv_active st"
      "conn_logger st' = conn_logger st" for work lines
    using that by blast
  note run = run_query_def execute_statement_def print_line_def fetch_step_def note_call_def
    execution_notice_def timeout
  show ?thesis
  proof (cases "pf_stdout pf ?printed")
    case (Inl x)
    then have "r = Inl x" using assms by (auto simp: run)
    with assms Inl show ?thesis
      by (intro path[of "[]"]) (auto simp: run intro: work_path.not_printed)
  next
    case (Inr u)
    show ?thesis
    proof (cases "dr_execute (pf_driver pf) ?calls c sql 60")
      case ex: (Inl x)
      have "r = Inl x" using assms Inr ex by (auto simp: run)
      with assms Inr ex show ?thesis
        by (intro path[of "[Executed c sql 60]"]) (auto simp: run intro: work_path.not_executed)
    next
      case ex: (Inr v)
      have "r = fetch_admitted_result pf (?calls @ [Executed c sql 60]) c" using assms Inr ex by (auto simp: run)
      with assms Inr ex show ?thesis
        by (intro path[of "[Executed c sql 60, Fetched c]"]) (auto simp: run intro: work_path.fetched)
    qed
  qed
qed

lemma with_started_cursor_path:
  assumes "with_started_cursor pf i sql c st = (r, st')" and "\<And>n. tz_aware (clock_at (pf_env pf) n)"
  shows "\<exists>work lines.
    work_path pf i sql c (cursor_free (pf_env pf) i (sv_broker st)) (conn_log st) (sv_printed st) work lines r \<and>
    conn_log st' = conn_log st @ work \<and> sv_printed st' = sv_printed st @ lines \<and>
    cursor_returned (pf_env pf) i (sv_broker st) (sv_broker st') \<and>
    sv_active st' = sv_active st \<and> conn_logger st' = conn_logger st"
proof (cases "cursor_free (pf_env pf) i (sv_broker st)")
  case False
  from mark_started_taken[OF this assms(2)] obtain b where b:
    "mark_started (pf_env pf) i (Some c) (sv_broker st) = (Inl RequestUnavailable, b)"
    "cursor_returned (pf_env pf) i (sv_broker st) b" by blast
  with assms(1) have "r = Inl RequestUnavailable" "st' = st\<lparr>sv_broker := b\<rparr>"
    by (auto simp: with_started_cursor_def start_cursor_def)
  with False b(2) show ?thesis by (auto intro: work_path.not_taken)
next
  case True
  from mark_started_free[OF this assms(2)] obtain b1 r1 where b1:
    "mark_started (pf_env pf) i (Some c) (sv_broker st) = (Inr (), b1)" "rec_status r1 = PENDING"
    "rec_cursor r1 = Some c" "map_of (records b1) = (map_of (records (sv_broker st)))(i \<mapsto> r1)" by blast
  define st1 where "st1 = st\<lparr>sv_broker := b1\<rparr>"
  obtain q st2 where q: "run_query pf i sql c st1 = (q, st2)" by fastforce
  from run_query_path[OF q] obtain work lines where path:
    "work_path pf i sql c True (conn_log st1) (sv_printed st1) work lines q"
    "conn_log st2 = conn_log st1 @ work" "sv_printed st2 = sv_printed st1 @ lines"
    "sv_broker st2 = sv_broker st1" "sv_active st2 = sv_active st1" "conn_logger st2 = conn_logger st1" by blast
  have "map_of (records (sv_broker st2)) i = Some r1" using b1(4) path(4) by (simp add: st1_def)
  from release_started_holds[OF this b1(2,3) assms(2)] obtain b3 r3 where b3:
    "release_started (pf_env pf) i (Some c) (sv_broker st2) = (Inr (), b3)" "rec_cursor r3 = None"
    "map_of (records b3) = (map_of (records (sv_broker st2)))(i \<mapsto> r3)" by blast
  have "r = q" "st' = st2\<lparr>sv_broker := b3\<rparr>"
    using assms(1) b1(1) q b3(1)
    by (auto simp: with_started_cursor_def start_cursor_def give_back_cursor_def try_finally_def
        finally_outcome_def st1_def[symmetric])
  moreover have "cursor_returned (pf_env pf) i (sv_broker st) b3"
    using b1(4) b3(2,3) path(4) by (simp add: cursor_returned_def st1_def)
  ultimately show ?thesis using path True by (auto simp: st1_def)
qed

lemma finally_unless: "finally_outcome r a = unless_raised a r"
  by (simp add: finally_outcome_def unless_raised_def)

lemma execute_request_path:
  assumes "execute_request pf qa i sql st = (r, st')" and "\<not> sv_active st"
    and clock: "\<And>n. tz_aware (clock_at (pf_env pf) n)"
  shows "\<exists>calls lines.
    execution_path pf qa i sql (cursor_free (pf_env pf) i (sv_broker st)) (conn_log st) (sv_printed st) calls lines r \<and>
    conn_log st' = conn_log st @ calls \<and> sv_printed st' = sv_printed st @ lines \<and>
    cursor_returned (pf_env pf) i (sv_broker st) (sv_broker st') \<and>
    \<not> sv_active st' \<and> quiet_logger (conn_logger st')"
proof -
  define st0 where "st0 = st\<lparr>sv_active := True, conn_logger := suppress_connector_logs (conn_logger st)\<rparr>"
  have st0: "conn_log st0 = conn_log st" "sv_printed st0 = sv_printed st" "sv_broker st0 = sv_broker st"
    "quiet_logger (conn_logger st0)" by (simp_all add: st0_def)
  have answer: "(case qa_connect qa of None \<Rightarrow> connect_default (pf_driver pf) | Some f \<Rightarrow> f) calls
      (qa_arguments qa) = connection_answer pf qa calls" for calls
    by (simp add: connection_answer_def connect_default_def then_do_def split: option.splits)
  note enter = st0_def[symmetric]
  note blocks = execute_request_def request_cursor_def try_finally_def release_active_def open_connection_def
    open_cursor_def close_cursor_def close_connection_def answer finally_unless enter
  show ?thesis
  proof (cases "connection_answer pf qa (conn_log st)")
    case (Inl x)
    have "r = Inl x" "st' = (note_call Connect_failed st0)\<lparr>sv_active := False\<rparr>"
      using assms(1,2) Inl by (auto simp: blocks st0 unless_raised_def)
    with Inl show ?thesis
      by (intro exI[of _ "[Connect_failed]"] exI[of _ "[]"])
        (auto simp: st0 cursor_returned_refl note_call_def intro: execution_path.not_connected)
  next
    case n: (Inr n)
    define st1 where "st1 = note_call (Connected n) st0"
    have log1: "conn_log st1 = conn_log st @ [Connected n]" by (simp add: st1_def st0)
    show ?thesis
    proof (cases "dr_cursor (pf_driver pf) (conn_log st @ [Connected n]) n")
      case (Inl x)
      have "r = unless_raised (dr_close_connection (pf_driver pf) (conn_log st @ [Connected n, Cursor_failed n]) n) (Inl x)"
        "st' = (note_call (Connection_closed n) (note_call (Cursor_failed n) st1))\<lparr>sv_active := False\<rparr>"
        using assms(1,2) n Inl by (auto simp: blocks st0 st1_def[symmetric] log1 unless_raised_def)
      with n Inl show ?thesis
        by (intro exI[of _ "[Connected n, Cursor_failed n, Connection_closed n]"] exI[of _ "[]"])
          (auto simp: st0 st1_def cursor_returned_refl note_call_def intro: execution_path.no_cursor)
    next
      case c: (Inr c)
      define st2 where "st2 = note_call (Cursor_opened n c) st1"
      obtain q st3 where q: "with_started_cursor pf i sql c st2 = (q, st3)" by fastforce
      have st2: "conn_log st2 = conn_log st @ [Connected n, Cursor_opened n c]" "sv_printed st2 = sv_printed st"
        "sv_broker st2 = sv_broker st" "quiet_logger (conn_logger st2)"
        by (simp_all add: st2_def st1_def st0 note_call_def)
      from with_started_cursor_path[OF q clock] obtain work lines where w:
        "work_path pf i sql c (cursor_free (pf_env pf) i (sv_broker st))
           (conn_log st @ [Connected n, Cursor_opened n c]) (sv_printed st) work lines q"
        "conn_log st3 = conn_log st @ [Connected n, Cursor_opened n c] @ work"
        "sv_printed st3 = sv_printed st @ lines"
        "cursor_returned (pf_env pf) i (sv_broker st) (sv_broker st3)" "conn_logger st3 = conn_logger st2"
        unfolding st2 by (metis append_assoc)
      have "r = unless_raised (dr_close_connection (pf_driver pf)
            (conn_log st @ [Connected n, Cursor_opened n c] @ work @ [Cursor_closed c]) n)
          (unless_raised (dr_close_cursor (pf_driver pf) (conn_log st @ [Connected n, Cursor_opened n c] @ work) c) q)"
        "st' = (note_call (Connection_closed n) (note_call (Cursor_closed c) st3))\<lparr>sv_active := False\<rparr>"
        using assms(1,2) n c q
        by (auto simp: blocks st0 st1_def[symmetric] log1 st2_def[symmetric] w(2) unless_raised_def split: sum.splits)
      with execution_path.worked[OF n c w(1)] w(2-5) st2(4) show ?thesis
        by (intro exI[of _ "[Connected n, Cursor_opened n c] @ work @ [Cursor_closed c, Connection_closed n]"]
            exI[of _ lines]) (auto simp: note_call_def)
    qed
  qed
qed

text \<open>
  Property C21.  What the thread of a request does, whatever the driver answers.  Left alone with the
  lock free and an aware clock, it is done after ten steps; the calls made to the driver, in order
  and with their arguments, the lines printed and the outcome are those of the path that the
  answers select: no connection; no cursor; the request no longer able to take the cursor; the
  notice, which names the request and shows the governed SQL, not printed; the statement, run with a timeout of
  sixty seconds, refused; or its result fetched and admitted.  What was opened is closed, cursor
  before connection, and a close that raises decides the outcome.  On every path the lock is
  released, the connector's logger is silent, the record of the request is left without the cursor
  and no other record is touched.
\<close>

theorem execution_on_every_path:
  assumes "\<not> sv_active st" and "\<And>n. tz_aware (clock_at (pf_env pf) n)"
  shows "\<exists>calls lines r st'.
    worker_run pf qa i sql (10 + m) (Wk_created, st) = (Wk_done r, st') \<and>
    execution_path pf qa i sql (cursor_free (pf_env pf) i (sv_broker st)) (conn_log st) (sv_printed st) calls lines r \<and>
    conn_log st' = conn_log st @ calls \<and> sv_printed st' = sv_printed st @ lines \<and>
    cursor_returned (pf_env pf) i (sv_broker st) (sv_broker st') \<and>
    \<not> sv_active st' \<and> quiet_logger (conn_logger st')"
proof -
  obtain r st' where ex: "execute_request pf qa i sql st = (r, st')" by fastforce
  with execute_request_path[OF ex assms] worker_runs_the_blocks[of pf qa i sql m st] show ?thesis by auto
qed

text \<open>A driver that refuses the statement and then fails to close the cursor.\<close>

definition refusing_platform :: "(nat, nat, nat, nat) platform" where
  "refusing_platform = sample_platform
     \<lparr>pf_driver := (pf_driver sample_platform)
        \<lparr>dr_execute := (\<lambda>calls c s t. Inl TypeError), dr_close_cursor := (\<lambda>calls c. Inl ValueError)\<rparr>\<rparr>"

theorem execution_on_every_path_witness:
  "\<exists>(st :: (nat, nat, (nat, nat) batch_source) service) st' r lines.
     worker_run refusing_platform sample_query_admission sample_id ''q limit 51'' 10 (Wk_created, st) = (Wk_done r, st') \<and>
     conn_log st = [] \<and>
     conn_log st' = [Connected 1, Cursor_opened 1 7, Executed 7 ''q limit 51'' 60, Cursor_closed 7, Connection_closed 1] \<and>
     execution_path refusing_platform sample_query_admission sample_id ''q limit 51''
       (cursor_free steady_env sample_id (sv_broker st)) [] [] (conn_log st') lines r \<and>
     map_option rec_cursor (map_of (records (sv_broker st')) sample_id) = Some None"
proof -
  let ?ran = "worker_run refusing_platform sample_query_admission sample_id ''q limit 51'' 10"
  have "map_option (\<lambda>y. (sv_active (sy_service y), conn_log (sy_service y), sv_printed (sy_service y),
      conn_log (snd (?ran (Wk_created, sy_service y))),
      map_option rec_cursor (map_of (records (sv_broker (snd (?ran (Wk_created, sy_service y))))) sample_id)))
    (system_run sample_sqlglot sample_platform sample_query_admission (take 3 sample_start) sample_system) =
    Some (False, [], [], [Connected 1, Cursor_opened 1 7, Executed 7 ''q limit 51'' 60, Cursor_closed 7,
      Connection_closed 1], Some None)"
    by code_simp
  from map_option_eq_Some[THEN iffD1, OF this]
  obtain y :: "(nat, nat, (nat, nat) batch_source) system" where y:
    "\<not> sv_active (sy_service y)" "conn_log (sy_service y) = []" "sv_printed (sy_service y) = []"
    "conn_log (snd (?ran (Wk_created, sy_service y))) =
       [Connected 1, Cursor_opened 1 7, Executed 7 ''q limit 51'' 60, Cursor_closed 7, Connection_closed 1]"
    "map_option rec_cursor (map_of (records (sv_broker (snd (?ran (Wk_created, sy_service y))))) sample_id) =
       Some None"
    unfolding prod.inject eq_False by blast
  have env: "pf_env refusing_platform = steady_env" by (simp add: refusing_platform_def sample_platform_def)
  have "tz_aware (clock_at (pf_env refusing_platform) n)" for n by (simp add: env steady_env_def)
  from execution_on_every_path[OF y(1) this, where qa = sample_query_admission and i = sample_id and
      sql = "''q limit 51''" and m = 0]
  obtain calls lines r st' where
    "?ran (Wk_created, sy_service y) = (Wk_done r, st')"
    "execution_path refusing_platform sample_query_admission sample_id ''q limit 51''
       (cursor_free steady_env sample_id (sv_broker (sy_service y))) [] [] calls lines r"
    "conn_log st' = calls" unfolding env y(2,3) append_Nil add_0_right by blast
  with y show ?thesis
    by (intro exI[of _ "sy_service y"] exI[of _ st'] exI[of _ r] exI[of _ lines])
      (simp del: worker_run.simps)
qed

end
