(* ===== verification/Argparse.thy ===== *)
theory Argparse
  imports Python
begin

text \<open>
  What the programs of the repository use of \<open>argparse\<close> and of \<open>int(str)\<close>: long options with one
  value, flags and the help option, at most one positional or a set of subcommands, defaults,
  required arguments, abbreviated options, \<open>--option=value\<close>, clustered short options and \<open>--\<close>.
  What differs between the supported Python versions is a parameter, the \<open>rules\<close>.
\<close>

section \<open>int(str)\<close>

text \<open>The white space \<open>int\<close> strips, of the characters below 256.\<close>

definition int_space :: "char \<Rightarrow> bool" where
  "int_space ch \<longleftrightarrow> (9 \<le> char_code ch \<and> char_code ch \<le> 13) \<or> char_code ch \<in> {32, 133, 160}"

text \<open>
  Decimal digits with single underscores between them: their number and their value.  \<open>after\<close> says
  whether the last character was a digit.
\<close>

fun scan_digits :: "bool \<Rightarrow> nat \<Rightarrow> int \<Rightarrow> string \<Rightarrow> (nat \<times> int) option" where
  "scan_digits after k n [] = (if after then Some (k, n) else None)"
| "scan_digits after k n (ch # cs) =
     (if is_digit_char ch then scan_digits True (Suc k) (10 * n + int (char_code ch - 48)) cs
      else if ch = CHR ''_'' \<and> after then scan_digits False k n cs
      else None)"

text \<open>\<open>sys.get_int_max_str_digits()\<close> at its default; leading zeros count.\<close>

definition MAX_STR_DIGITS :: nat where "MAX_STR_DIGITS = 4300"

definition strip_int :: "string \<Rightarrow> string" where
  "strip_int s = rev (dropWhile int_space (rev (dropWhile int_space s)))"

definition unsigned_int :: "string \<Rightarrow> int option" where
  "unsigned_int s =
     (case scan_digits False 0 0 s of
        None \<Rightarrow> None
      | Some (k, n) \<Rightarrow> if MAX_STR_DIGITS < k then None else Some n)"

definition py_int :: "string \<Rightarrow> int option" where
  "py_int s =
     (case strip_int s of
        [] \<Rightarrow> None
      | ch # cs \<Rightarrow>
          if ch = CHR ''-'' then map_option uminus (unsigned_int cs)
          else if ch = CHR ''+'' then unsigned_int cs
          else unsigned_int (ch # cs))"

section \<open>Parsers\<close>

text \<open>\<open>Store\<close> converts with \<open>type\<close>; \<open>None\<close> stands for its \<open>TypeError\<close> or \<open>ValueError\<close>.\<close>

datatype option_action = Help | Store_true | Store "string \<Rightarrow> pyval option"

record arg_option =
  opt_strings :: "string list"
  opt_dest :: string
  opt_action :: option_action

type_synonym namespace = "(string, pyval) odict"

text \<open>
  A positional takes one argument, or it is a subcommand with the parser of each; that parser
  answers the values it set and the arguments it did not recognise.
\<close>

datatype positional =
    Single string
  | Commands string "(string \<times> (string list \<Rightarrow> (namespace \<times> string list) result)) list"

text \<open>\<open>ap_error\<close> is what \<open>error\<close> raises: \<open>SystemExit\<close> unless a subclass overrides it.\<close>

record arg_parser =
  ap_options :: "arg_option list"
  ap_positional :: "positional option"
  ap_defaults :: namespace
  ap_required :: "string list"
  ap_error :: py_exn

definition help_option :: arg_option where
  "help_option = \<lparr>opt_strings = [''-h'', ''--help''], opt_dest = ''help'', opt_action = Help\<rparr>"

text \<open>
  Version dependent: whether an ambiguous option is an error as soon as it is read or only when
  its turn comes, whether a \<open>--\<close> before the subcommand is dropped, and what looks like a negative
  number and so like an argument.
\<close>

record rules =
  eager_ambiguity :: bool
  drops_dashes :: bool
  negative_number :: "string \<Rightarrow> bool"

text \<open>
  The matcher of Python 3.12 and 3.13, \<open>^-\d+$|^-\d*\.\d+$\<close>; the dollar also matches before a final
  line feed.
\<close>

definition chop_newline :: "string \<Rightarrow> string" where
  "chop_newline s = (if drop (length s - 1) s = [char_of (10 :: nat)] then take (length s - 1) s else s)"

definition negative_decimal :: "string \<Rightarrow> bool" where
  "negative_decimal s =
     (let t = drop 1 (chop_newline s); frac = dropWhile is_digit_char t in
      take 1 s = ''-'' \<and> t \<noteq> [] \<and>
      (frac = [] \<or>
       take 1 frac = ''.'' \<and> drop 1 frac \<noteq> [] \<and> list_all is_digit_char (drop 1 frac)))"

section \<open>Reading the arguments\<close>

text \<open>The explicit argument joined to an option: \<open>-xARG\<close> or \<open>--option=ARG\<close>.\<close>

datatype explicit = No_arg | Joined string | Equals string

text \<open>An argument, or an option with its interpretations: none when it is unknown.\<close>

datatype token =
    Tok_dashes
  | Tok_arg string
  | Tok_opt string "(arg_option \<times> string \<times> explicit) list"

primrec tok_string :: "token \<Rightarrow> string" where
  "tok_string Tok_dashes = ''--''"
| "tok_string (Tok_arg s) = s"
| "tok_string (Tok_opt s ts) = s"

text \<open>\<open>s.partition('=')\<close>.\<close>

definition split_eq :: "string \<Rightarrow> string \<times> explicit" where
  "split_eq s =
     (takeWhile (\<lambda>ch. ch \<noteq> CHR ''='') s,
      case dropWhile (\<lambda>ch. ch \<noteq> CHR ''='') s of [] \<Rightarrow> No_arg | _ # cs \<Rightarrow> Equals cs)"

definition find_option :: "arg_option list \<Rightarrow> string \<Rightarrow> arg_option option" where
  "find_option opts s = find (\<lambda>opt. s \<in> set (opt_strings opt)) opts"

definition option_names :: "arg_option list \<Rightarrow> (string \<times> arg_option) list" where
  "option_names opts = concat (map (\<lambda>opt. map (\<lambda>s. (s, opt)) (opt_strings opt)) opts)"

definition is_prefix :: "string \<Rightarrow> string \<Rightarrow> bool" where
  "is_prefix p s \<longleftrightarrow> take (length p) s = p"

text \<open>\<open>_get_option_tuples\<close>: the options an argument may abbreviate, or be joined to.\<close>

definition option_tuples :: "arg_option list \<Rightarrow> string \<Rightarrow> (arg_option \<times> string \<times> explicit) list" where
  "option_tuples opts s =
     (if take 1 (drop 1 s) = ''-''
      then (case split_eq s of (p, ex) \<Rightarrow>
              map (\<lambda>(t, opt). (opt, t, ex)) (filter (\<lambda>(t, opt). is_prefix p t) (option_names opts)))
      else concat (map (\<lambda>(t, opt).
             if t = take 2 s then [(opt, t, Joined (drop 2 s))]
             else if is_prefix s t then [(opt, t, No_arg)] else []) (option_names opts)))"

text \<open>\<open>_parse_optional\<close>; no option of the programs looks like a negative number.\<close>

definition parse_optional :: "rules \<Rightarrow> arg_option list \<Rightarrow> string \<Rightarrow> token" where
  "parse_optional v opts s =
     (if take 1 s \<noteq> ''-'' then Tok_arg s
      else (case find_option opts s of
              Some opt \<Rightarrow> Tok_opt s [(opt, s, No_arg)]
            | None \<Rightarrow>
                if length s = 1 then Tok_arg s
                else (case split_eq s of (p, ex) \<Rightarrow>
                       (case (if ex = No_arg then None else find_option opts p) of
                          Some opt \<Rightarrow> Tok_opt s [(opt, p, ex)]
                        | None \<Rightarrow>
                            if option_tuples opts s \<noteq> [] then Tok_opt s (option_tuples opts s)
                            else if negative_number v s \<or> CHR '' '' \<in> set s then Tok_arg s
                            else Tok_opt s []))))"

fun classify :: "rules \<Rightarrow> arg_option list \<Rightarrow> string list \<Rightarrow> token list" where
  "classify v opts [] = []"
| "classify v opts (s # ss) =
     (if s = ''--'' then Tok_dashes # map Tok_arg ss
      else parse_optional v opts s # classify v opts ss)"

fun is_option :: "token \<Rightarrow> bool" where
  "is_option (Tok_opt s ts) \<longleftrightarrow> True"
| "is_option t \<longleftrightarrow> False"

fun is_ambiguous :: "token \<Rightarrow> bool" where
  "is_ambiguous (Tok_opt s ts) \<longleftrightarrow> 1 < length ts"
| "is_ambiguous t \<longleftrightarrow> False"

section \<open>Options\<close>

fun takes_value :: "option_action \<Rightarrow> bool" where
  "takes_value (Store conv) \<longleftrightarrow> True"
| "takes_value act \<longleftrightarrow> False"

fun next_explicit :: "string \<Rightarrow> explicit" where
  "next_explicit [] = No_arg"
| "next_explicit (ch # cs) = (if ch = CHR ''='' then Equals cs else Joined (ch # cs))"

text \<open>
  \<open>consume_optional\<close> up to the actions: the options to act on with their values, the arguments not
  recognised and the tokens left; \<open>None\<close> for an \<open>ArgumentError\<close>.
\<close>

type_synonym consumed = "(arg_option \<times> string option) list \<times> string list \<times> token list"

fun option_chain ::
  "arg_option list \<Rightarrow> arg_option \<Rightarrow> string \<Rightarrow> string \<Rightarrow> token list \<Rightarrow> consumed option" where
  "option_chain opts opt t [] rest = None"
| "option_chain opts opt t (ch # cs) rest =
     (if take 1 (drop 1 t) = ''-'' \<or> ch = CHR ''-'' then None
      else (case find_option opts [CHR ''-'', ch] of
              None \<Rightarrow> Some ([(opt, None)], [CHR ''-'' # ch # cs], rest)
            | Some opt' \<Rightarrow>
                (case (if takes_value (opt_action opt')
                       then (case (next_explicit cs, rest) of
                               (Joined x, _) \<Rightarrow> Some ([(opt', Some x)], [], rest)
                             | (Equals x, _) \<Rightarrow> Some ([(opt', Some x)], [], rest)
                             | (No_arg, Tok_arg s # rest') \<Rightarrow> Some ([(opt', Some s)], [], rest')
                             | (No_arg, _) \<Rightarrow> None)
                       else (case next_explicit cs of
                               No_arg \<Rightarrow> Some ([(opt', None)], [], rest)
                             | Equals x \<Rightarrow> None
                             | Joined x \<Rightarrow> option_chain opts opt' [CHR ''-'', ch] cs rest)) of
                   None \<Rightarrow> None
                 | Some (acts, extras, rest') \<Rightarrow> Some ((opt, None) # acts, extras, rest'))))"

definition consume_optional ::
  "arg_option list \<Rightarrow> arg_option \<times> string \<times> explicit \<Rightarrow> token list \<Rightarrow> consumed option"
where
  "consume_optional opts tuple rest =
     (case tuple of (opt, t, ex) \<Rightarrow>
        if takes_value (opt_action opt) then
          (case ex of
             Joined x \<Rightarrow> Some ([(opt, Some x)], [], rest)
           | Equals x \<Rightarrow> Some ([(opt, Some x)], [], rest)
           | No_arg \<Rightarrow>
               (case rest of Tok_arg s # rest' \<Rightarrow> Some ([(opt, Some s)], [], rest') | _ \<Rightarrow> None))
        else (case ex of
                No_arg \<Rightarrow> Some ([(opt, None)], [], rest)
              | Equals x \<Rightarrow> None
              | Joined x \<Rightarrow> option_chain opts opt t x rest))"

section \<open>parse_args\<close>

text \<open>
  The state of a parse: the positional still to come, the values set, the destinations of the
  options seen, the arguments not recognised and those a subcommand's parser did not recognise.
\<close>

record parse_state =
  ps_positional :: "positional option"
  ps_values :: namespace
  ps_seen :: "string list"
  ps_extras :: "string list"
  ps_unrecognized :: "string list"

definition set_value :: "string \<Rightarrow> pyval \<Rightarrow> parse_state \<Rightarrow> parse_state" where
  "set_value dest v st = st\<lparr>ps_values := AList.update dest v (ps_values st)\<rparr>"

definition add_extras :: "string list \<Rightarrow> parse_state \<Rightarrow> parse_state" where
  "add_extras ss st = st\<lparr>ps_extras := ps_extras st @ ss\<rparr>"

text \<open>\<open>take_action\<close>; the help option prints the help and exits.\<close>

definition act :: "py_exn \<Rightarrow> arg_option \<times> string option \<Rightarrow> parse_state \<Rightarrow> parse_state result" where
  "act err todo st =
     (case todo of (opt, value) \<Rightarrow>
        let st' = st\<lparr>ps_seen := opt_dest opt # ps_seen st\<rparr> in
        case opt_action opt of
          Help \<Rightarrow> Inl SystemExit
        | Store_true \<Rightarrow> Inr (set_value (opt_dest opt) (PBool True) st')
        | Store conv \<Rightarrow>
            (case Option.bind value conv of
               None \<Rightarrow> Inl err
             | Some v \<Rightarrow> Inr (set_value (opt_dest opt) v st')))"

fun act_all :: "py_exn \<Rightarrow> (arg_option \<times> string option) list \<Rightarrow> parse_state \<Rightarrow> parse_state result" where
  "act_all err [] st = Inr st"
| "act_all err (todo # todos) st = then_do (act err todo st) (act_all err todos)"

text \<open>
  \<open>consume_positionals\<close> where at most one positional is to come: what it does and the tokens left,
  \<open>None\<close> when the arguments here do not match it.  A \<open>--\<close> beside a single argument is dropped; the
  subcommand takes everything that follows.
\<close>

definition run_command ::
  "rules \<Rightarrow> py_exn \<Rightarrow> string \<Rightarrow> (string \<times> (string list \<Rightarrow> (namespace \<times> string list) result)) list \<Rightarrow>
   string \<Rightarrow> string list \<Rightarrow> parse_state \<Rightarrow> parse_state result"
where
  "run_command v err dest cmds name args st =
     (case map_of cmds name of
        None \<Rightarrow> Inl err
      | Some sub \<Rightarrow>
          then_do (sub args) (\<lambda>(values, unrecognized).
            Inr (st\<lparr>ps_values := AList.merge (AList.update dest (PStr name) (ps_values st)) values,
                    ps_unrecognized := ps_unrecognized st @ unrecognized\<rparr>)))"

definition consume_positional ::
  "rules \<Rightarrow> py_exn \<Rightarrow> token list \<Rightarrow> parse_state \<Rightarrow> (parse_state result \<times> token list) option" where
  "consume_positional v err toks st =
     (let st' = st\<lparr>ps_positional := None\<rparr> in
      case ps_positional st of
        None \<Rightarrow> None
      | Some (Single dest) \<Rightarrow>
          (case toks of
             Tok_arg s # Tok_dashes # rest \<Rightarrow> Some (Inr (set_value dest (PStr s) st'), rest)
           | Tok_arg s # rest \<Rightarrow> Some (Inr (set_value dest (PStr s) st'), rest)
           | Tok_dashes # Tok_arg s # rest \<Rightarrow> Some (Inr (set_value dest (PStr s) st'), rest)
           | _ \<Rightarrow> None)
      | Some (Commands dest cmds) \<Rightarrow>
          (case toks of
             Tok_arg s # rest \<Rightarrow>
               Some (run_command v err dest cmds s (map tok_string rest) st', [])
           | Tok_dashes # Tok_arg s # rest \<Rightarrow>
               if drops_dashes v then Some (run_command v err dest cmds s (map tok_string rest) st', [])
               else Some (run_command v err dest cmds ''--'' (s # map tok_string rest) st', [])
           | _ \<Rightarrow> None))"

lemma consume_positional_shorter:
  "consume_positional v err toks st = Some (res, rest) \<Longrightarrow> length rest < length toks"
  by (auto simp: consume_positional_def Let_def
      split: option.splits positional.splits list.splits token.splits if_splits)

lemma option_chain_shorter:
  "option_chain opts opt t cs rest = Some (acts, extras, rest') \<Longrightarrow> length rest' \<le> length rest"
  by (induction opts opt t cs rest arbitrary: acts extras rest' rule: option_chain.induct)
    (auto split: if_splits option.splits explicit.splits list.splits token.splits)

lemma consume_optional_shorter:
  "consume_optional opts tuple rest = Some (acts, extras, rest') \<Longrightarrow> length rest' \<le> length rest"
  by (auto simp: consume_optional_def dest: option_chain_shorter
      split: prod.splits if_splits explicit.splits list.splits token.splits)

text \<open>
  The loop of \<open>_parse_known_args\<close>: positionals before the next option, then that option, until no
  option is left; then the rest.
\<close>

function parse_loop :: "rules \<Rightarrow> arg_parser \<Rightarrow> token list \<Rightarrow> parse_state \<Rightarrow> parse_state result" where
  "parse_loop v p toks st =
     (if \<not> list_ex is_option toks then
        (case consume_positional v (ap_error p) toks st of
           None \<Rightarrow> Inr (add_extras (map tok_string toks) st)
         | Some (res, rest) \<Rightarrow> then_do res (\<lambda>st'. Inr (add_extras (map tok_string rest) st')))
      else (case toks of
              Tok_opt s tuples # rest \<Rightarrow>
                (case tuples of
                   [] \<Rightarrow> parse_loop v p rest (add_extras [s] st)
                 | tuple # others \<Rightarrow>
                     if others \<noteq> [] then Inl (ap_error p)
                     else (case consume_optional (ap_options p) tuple rest of
                             None \<Rightarrow> Inl (ap_error p)
                           | Some (acts, extras, rest') \<Rightarrow>
                               (case act_all (ap_error p) acts (add_extras extras st) of
                                  Inl x \<Rightarrow> Inl x
                                | Inr st' \<Rightarrow> parse_loop v p rest' st')))
            | _ \<Rightarrow>
                (case consume_positional v (ap_error p) toks st of
                   Some (res, rest) \<Rightarrow>
                     (case res of Inl x \<Rightarrow> Inl x | Inr st' \<Rightarrow> parse_loop v p rest st')
                 | None \<Rightarrow>
                     parse_loop v p (dropWhile (\<lambda>t. \<not> is_option t) toks)
                       (add_extras (map tok_string (takeWhile (\<lambda>t. \<not> is_option t) toks)) st))))"
  by pat_completeness auto

lemma dropWhile_shorter: "\<not> P t \<Longrightarrow> t # ts = xs \<Longrightarrow> length (dropWhile (\<lambda>t. \<not> P t) xs) < length xs"
  using length_dropWhile_le[of "\<lambda>t. \<not> P t" ts] by auto

termination parse_loop
  by (relation "measure (\<lambda>(v, p, toks, st). length toks)")
    (auto dest: consume_optional_shorter consume_positional_shorter simp: less_Suc_eq_le
      intro: length_dropWhile_le)

definition parse_known_args ::
  "rules \<Rightarrow> arg_parser \<Rightarrow> string list \<Rightarrow> (namespace \<times> string list) result" where
  "parse_known_args v p args =
     (let toks = classify v (ap_options p) args in
      if eager_ambiguity v \<and> list_ex is_ambiguous toks then Inl (ap_error p)
      else then_do
        (parse_loop v p toks
          \<lparr>ps_positional = ap_positional p, ps_values = ap_defaults p, ps_seen = [], ps_extras = [],
           ps_unrecognized = []\<rparr>)
        (\<lambda>st. if ps_positional st \<noteq> None \<or> \<not> set (ap_required p) \<subseteq> set (ps_seen st)
              then Inl (ap_error p)
              else Inr (ps_values st, ps_extras st @ ps_unrecognized st)))"

definition parse_args :: "rules \<Rightarrow> arg_parser \<Rightarrow> string list \<Rightarrow> namespace result" where
  "parse_args v p args =
     then_do (parse_known_args v p args) (\<lambda>(values, extras).
       if extras \<noteq> [] then Inl (ap_error p) else Inr values)"

text \<open>The rules of Python 3.12.\<close>

definition sample_rules :: rules where
  "sample_rules = \<lparr>eager_ambiguity = True, drops_dashes = False, negative_number = negative_decimal\<rparr>"

section \<open>Facts\<close>

text \<open>An argument that does not begin with a dash is an argument.\<close>

lemma parse_optional_plain: "take 1 s \<noteq> ''-'' \<Longrightarrow> parse_optional v opts s = Tok_arg s"
  by (simp add: parse_optional_def)

text \<open>A dashed argument is one only when it is a single dash, or looks like no option of the parser.\<close>

lemma parse_optional_dashed:
  assumes "parse_optional v opts s = Tok_arg t" and "take 1 s = ''-''"
  shows "t = s \<and> (s = ''-'' \<or> negative_number v s \<or> CHR '' '' \<in> set s)"
proof -
  obtain p ex where "split_eq s = (p, ex)" by fastforce
  moreover have "s = ''-''" if "length s = 1"
    using that assms(2) by (cases s) auto
  ultimately show ?thesis
    using assms by (auto simp: parse_optional_def split: option.splits if_splits)
qed

lemma find_option_names: "find_option opts s = Some opt \<Longrightarrow> opt \<in> set opts \<and> s \<in> set (opt_strings opt)"
  by (auto simp: find_option_def find_Some_iff)

section \<open>When a parser exits\<close>

text \<open>An argument that a help option may be read from: \<open>-h...\<close> or an abbreviation of \<open>--help\<close>.\<close>

definition asks_help :: "string \<Rightarrow> bool" where
  "asks_help s \<longleftrightarrow> take 2 s = ''-h'' \<or> 3 \<le> length s \<and> is_prefix s ''--help''"

text \<open>An option of a parser that is not its help option has long names only.\<close>

definition only_help_exits :: "arg_option list \<Rightarrow> bool" where
  "only_help_exits opts \<longleftrightarrow>
     list_all (\<lambda>opt. opt = help_option \<or>
       opt_action opt \<noteq> Help \<and> list_all (\<lambda>t. 3 \<le> length t \<and> take 2 t = ''--'') (opt_strings opt)) opts"

definition reads_as :: "arg_option list \<Rightarrow> string \<Rightarrow> arg_option \<times> string \<times> explicit \<Rightarrow> bool" where
  "reads_as opts s tuple \<longleftrightarrow>
     (case tuple of (opt, t, ex) \<Rightarrow>
        opt \<in> set opts \<and> t \<in> set (opt_strings opt) \<and>
        (case ex of No_arg \<Rightarrow> is_prefix s t | Joined x \<Rightarrow> t = take 2 s | Equals x \<Rightarrow> True))"

lemma option_names_iff: "(t, opt) \<in> set (option_names opts) \<longleftrightarrow> opt \<in> set opts \<and> t \<in> set (opt_strings opt)"
  by (auto simp: option_names_def)

lemma split_eq_No_arg:
  assumes "split_eq s = (p, No_arg)"
  shows "p = s"
proof -
  have "dropWhile (\<lambda>ch. ch \<noteq> CHR ''='') s = []" and p: "p = takeWhile (\<lambda>ch. ch \<noteq> CHR ''='') s"
    using assms by (simp_all add: split_eq_def split: list.splits)
  then have "\<forall>ch \<in> set s. ch \<noteq> CHR ''=''" by (simp only: dropWhile_eq_Nil_conv)
  with p show ?thesis by (simp only: takeWhile_eq_all_conv)
qed

lemma split_eq_Joined [simp]: "split_eq s \<noteq> (p, Joined x)"
  by (auto simp: split_eq_def split: list.splits)

lemma option_tuples_read:
  assumes "tuple \<in> set (option_tuples opts s)"
  shows "reads_as opts s tuple"
proof (cases "take 1 (drop 1 s) = ''-''")
  case True
  obtain p ex where sp: "split_eq s = (p, ex)" by fastforce
  with assms True show ?thesis
    by (cases ex) (auto simp: option_tuples_def reads_as_def option_names_iff dest: split_eq_No_arg)
next
  case False
  with assms show ?thesis
    by (auto simp: option_tuples_def reads_as_def option_names_iff split: if_splits)
qed

lemma parse_optional_reads:
  assumes "parse_optional v opts s = Tok_opt s' ts"
  shows "s' = s \<and> take 1 s = ''-'' \<and> (length s = 1 \<longrightarrow> find_option opts s \<noteq> None)"
    and "tuple \<in> set ts \<Longrightarrow> reads_as opts s tuple"
proof -
  obtain p ex where sp: "split_eq s = (p, ex)" by fastforce
  show "s' = s \<and> take 1 s = ''-'' \<and> (length s = 1 \<longrightarrow> find_option opts s \<noteq> None)"
    using assms sp by (auto simp: parse_optional_def split: option.splits if_splits)
  assume tuple: "tuple \<in> set ts"
  show "reads_as opts s tuple"
    using assms sp tuple option_tuples_read[of tuple opts s] find_option_names[of opts s]
      find_option_names[of opts p]
    by (cases ex)
      (auto simp: parse_optional_def reads_as_def is_prefix_def split: option.splits if_splits)
qed

text \<open>The tokens of a parser's arguments, as its loop finds them.\<close>

definition well_read :: "arg_option list \<Rightarrow> token \<Rightarrow> bool" where
  "well_read opts tok =
     (case tok of Tok_opt s ts \<Rightarrow> 2 \<le> length s \<and> s \<noteq> ''--'' \<and> (\<forall>tuple \<in> set ts. reads_as opts s tuple) | _ \<Rightarrow> True)"

lemma only_help_find:
  assumes "only_help_exits opts" and "find_option opts s = Some opt" and "length s \<le> 2"
  shows "opt = help_option \<and> s = ''-h''"
proof -
  have opt: "opt \<in> set opts" "s \<in> set (opt_strings opt)" using find_option_names[OF assms(2)] by simp_all
  with assms(1,3) have "opt = help_option" by (fastforce simp: only_help_exits_def list_all_iff)
  with opt(2) assms(3) show ?thesis by (auto simp: help_option_def)
qed

lemma classify_well_read:
  assumes "only_help_exits opts"
  shows "tok \<in> set (classify v opts args) \<Longrightarrow> well_read opts tok"
proof (induction args)
  case (Cons s ss)
  consider "s = ''--''" | "s \<noteq> ''--''" "tok \<in> set (classify v opts ss)"
    | "s \<noteq> ''--''" "tok = parse_optional v opts s"
    using Cons.prems by fastforce
  then show ?case
  proof cases
    case 1
    with Cons.prems show ?thesis by (auto simp: well_read_def)
  next
    case 2
    then show ?thesis by (intro Cons.IH)
  next
    case False: 3
    show ?thesis
    proof (cases tok)
      case (Tok_opt s' ts)
      with False have po: "parse_optional v opts s = Tok_opt s' ts" by simp
      have "2 \<le> length s"
      proof (rule ccontr)
        assume short: "\<not> 2 \<le> length s"
        note reads = parse_optional_reads(1)[OF po]
        then have "0 < length s" by (auto simp: take_Cons')
        with short have one: "length s = 1" by linarith
        with reads obtain opt where "find_option opts s = Some opt" by blast
        with only_help_find[OF assms this] one show False by simp
      qed
      with Tok_opt po False parse_optional_reads[OF po] show ?thesis by (auto simp: well_read_def)
    qed (simp_all add: well_read_def)
  qed
qed simp

lemma classify_strings: "map tok_string (classify v opts args) = args"
proof (induction args)
  case (Cons s ss)
  have "tok_string (parse_optional v opts s) = s"
  proof (cases "parse_optional v opts s")
    case (Tok_arg t)
    then show ?thesis
      using parse_optional_dashed[OF Tok_arg] parse_optional_plain[of s v opts]
      by (cases "take 1 s = ''-''") auto
  next
    case (Tok_opt t ts)
    then show ?thesis using parse_optional_reads(1)[OF Tok_opt] by simp
  next
    case Tok_dashes
    then show ?thesis
      by (auto simp: parse_optional_def split: option.splits if_splits prod.splits)
  qed
  with Cons show ?case by (simp add: comp_def)
qed simp

text \<open>The option acted on first is the help option only where the argument asks for help.\<close>

lemma reads_help:
  assumes "only_help_exits opts" and "reads_as opts s (opt, t, ex)" and "2 \<le> length s" and "s \<noteq> ''--''"
    and "opt_action opt = Help \<or> (\<exists>x. ex = Joined x)" and "\<And>x. ex \<noteq> Equals x"
  shows "asks_help s"
proof -
  have mem: "opt \<in> set opts" "t \<in> set (opt_strings opt)" using assms(2) by (auto simp: reads_as_def)
  show ?thesis
  proof (cases "opt = help_option")
    case True
    then have t: "t = ''-h'' \<or> t = ''--help''" using mem(2) by (simp add: help_option_def)
    show ?thesis
    proof (cases ex)
      case No_arg
      with assms(2) have pre: "is_prefix s t" by (simp add: reads_as_def)
      show ?thesis
      proof (cases "length s = 2")
        case True
        with pre t assms(4) have "s = ''-h''" by (auto simp: is_prefix_def)
        then show ?thesis by (simp add: asks_help_def)
      next
        case False
        with assms(3) have "3 \<le> length s" by simp
        with pre t show ?thesis by (auto simp: asks_help_def is_prefix_def)
      qed
    next
      case (Joined x)
      with assms(2) have eq: "t = take 2 s" by (simp add: reads_as_def)
      then have "length t \<le> 2" by simp
      with t have "t = ''-h''" by auto
      with eq show ?thesis by (simp add: asks_help_def)
    qed (use assms(6) in simp)
  next
    case False
    with assms(1) mem have long: "opt_action opt \<noteq> Help" "3 \<le> length t"
      by (auto simp: only_help_exits_def list_all_iff)
    with assms(5) obtain x where "ex = Joined x" by blast
    with assms(2) have "t = take 2 s" by (simp add: reads_as_def)
    with long(2) show ?thesis by simp
  qed
qed

lemma option_chain_subset:
  "option_chain opts opt t cs rest = Some (acts, extras, rest') \<Longrightarrow> set rest' \<subseteq> set rest"
  by (induction opts opt t cs rest arbitrary: acts extras rest' rule: option_chain.induct;
      auto split: if_splits option.splits explicit.splits list.splits token.splits; blast)

lemma consume_optional_subset:
  "consume_optional opts tuple rest = Some (acts, extras, rest') \<Longrightarrow> set rest' \<subseteq> set rest"
  by (auto simp: consume_optional_def dest: option_chain_subset[THEN subsetD]
      split: prod.splits if_splits explicit.splits list.splits token.splits)

lemma consume_optional_help:
  assumes "consume_optional opts (opt, t, ex) rest = Some (acts, extras, rest')"
    and "(opt', value) \<in> set acts" and "opt_action opt' = Help"
  shows "(opt_action opt = Help \<or> (\<exists>x. ex = Joined x)) \<and> (\<forall>x. ex \<noteq> Equals x)"
  using assms
  by (cases ex) (auto simp: consume_optional_def split: if_splits list.splits token.splits)

lemma act_all_exit:
  "act_all err acts st = Inl x \<Longrightarrow> x \<noteq> err \<Longrightarrow>
   x = SystemExit \<and> (\<exists>opt value. (opt, value) \<in> set acts \<and> opt_action opt = Help)"
proof (induction acts arbitrary: st)
  case (Cons todo todos)
  obtain opt arg where todo: "todo = (opt, arg)" by fastforce
  show ?case
  proof (cases "act err todo st")
    case (Inl y)
    with Cons.prems have "y = x" by simp
    with Inl Cons.prems(2) todo have "x = SystemExit \<and> opt_action opt = Help"
      by (auto simp: act_def Let_def split: option_action.splits option.splits)
    with todo show ?thesis by auto
  next
    case (Inr st')
    with Cons show ?thesis by fastforce
  qed
qed simp

lemma act_positional: "act err todo st = Inr st' \<Longrightarrow> ps_positional st' = ps_positional st"
  by (auto simp: act_def set_value_def Let_def split: prod.splits option_action.splits option.splits)

lemma act_all_positional: "act_all err acts st = Inr st' \<Longrightarrow> ps_positional st' = ps_positional st"
  by (induction acts arbitrary: st) (auto simp: then_do_Inr_iff dest: act_positional)

text \<open>
  A subcommand raises its parser's error, or exits, and then one of its own arguments asks for help.
\<close>

definition commands_exit_on_help :: "py_exn \<Rightarrow> positional option \<Rightarrow> bool" where
  "commands_exit_on_help err pos \<longleftrightarrow>
     (\<forall>dest cmds name sub args x. pos = Some (Commands dest cmds) \<longrightarrow> map_of cmds name = Some sub \<longrightarrow>
        sub args = Inl x \<longrightarrow> x \<noteq> err \<longrightarrow> x = SystemExit \<and> list_ex asks_help args)"

lemma run_command_exit:
  assumes "run_command v err dest cmds name args st = Inl x" and "x \<noteq> err"
    and "commands_exit_on_help err (Some (Commands dest cmds))"
  shows "x = SystemExit \<and> list_ex asks_help args"
  using assms
  by (auto simp: run_command_def commands_exit_on_help_def then_do_Inl_iff split: option.splits)

lemma consume_positional_exit:
  assumes "consume_positional v err toks st = Some (Inl x, rest)" and "x \<noteq> err"
    and "commands_exit_on_help err (ps_positional st)"
  shows "x = SystemExit \<and> list_ex asks_help (map tok_string toks)"
  using assms
  by (auto simp: consume_positional_def Let_def dest!: run_command_exit
      split: option.splits positional.splits list.splits token.splits if_splits)

lemma consume_positional_state:
  assumes "consume_positional v err toks st = Some (Inr st', rest)"
  shows "ps_positional st' = None \<and> set rest \<subseteq> set toks"
proof -
  have run: "ps_positional st' = ps_positional st0"
    if "run_command v err dest cmds name args st0 = Inr st'" for dest cmds name args st0
    using that by (auto simp: run_command_def then_do_Inr_iff split: option.splits)
  show ?thesis
    using assms
    by (auto simp: consume_positional_def Let_def set_value_def dest!: run
        split: option.splits positional.splits list.splits token.splits if_splits)
qed

lemma consume_positional_strings:
  "consume_positional v err toks st = Some (Inr st', rest) \<Longrightarrow>
   list_ex P (map tok_string rest) \<Longrightarrow> list_ex P (map tok_string toks)"
  by (auto simp: list_ex_iff dest!: consume_positional_state)

declare parse_loop.simps [simp del]

lemma parse_loop_last:
  assumes "\<not> list_ex is_option toks"
  shows "parse_loop v p toks st =
    (case consume_positional v (ap_error p) toks st of
       None \<Rightarrow> Inr (add_extras (map tok_string toks) st)
     | Some (res, rest) \<Rightarrow> then_do res (\<lambda>st'. Inr (add_extras (map tok_string rest) st')))"
  using assms by (subst parse_loop.simps) simp

lemma parse_loop_option:
  "parse_loop v p (Tok_opt s tuples # rest) st =
    (case tuples of
       [] \<Rightarrow> parse_loop v p rest (add_extras [s] st)
     | tuple # others \<Rightarrow>
         if others \<noteq> [] then Inl (ap_error p)
         else (case consume_optional (ap_options p) tuple rest of
                 None \<Rightarrow> Inl (ap_error p)
               | Some (acts, extras, rest') \<Rightarrow>
                   (case act_all (ap_error p) acts (add_extras extras st) of
                      Inl x \<Rightarrow> Inl x
                    | Inr st' \<Rightarrow> parse_loop v p rest' st')))"
  by (subst parse_loop.simps) simp

lemma parse_loop_positional:
  assumes "list_ex is_option toks" and "\<not> is_option (hd toks)"
  shows "parse_loop v p toks st =
    (case consume_positional v (ap_error p) toks st of
       Some (res, rest) \<Rightarrow> (case res of Inl x \<Rightarrow> Inl x | Inr st' \<Rightarrow> parse_loop v p rest st')
     | None \<Rightarrow>
         parse_loop v p (dropWhile (\<lambda>t. \<not> is_option t) toks)
           (add_extras (map tok_string (takeWhile (\<lambda>t. \<not> is_option t) toks)) st))"
  using assms
  by (subst parse_loop.simps; cases toks) (auto split: token.splits)

lemma parse_loop_exit:
  assumes "parse_loop v p toks st = Inl x" and "x \<noteq> ap_error p"
    and "only_help_exits (ap_options p)" and "\<forall>tok \<in> set toks. well_read (ap_options p) tok"
    and "commands_exit_on_help (ap_error p) (ps_positional st)"
  shows "x = SystemExit \<and> list_ex asks_help (map tok_string toks)"
  using assms(1,4,5)
proof (induction "length toks" arbitrary: toks st rule: less_induct)
  case less
  let ?err = "ap_error p"
  note prems = less.prems
  have none [simp]: "commands_exit_on_help ?err None" by (simp add: commands_exit_on_help_def)
  show ?case
  proof (cases "list_ex is_option toks")
    case False
    with prems(1) obtain rest where
      "consume_positional v ?err toks st = Some (Inl x, rest)"
      by (auto simp: parse_loop_last then_do_Inl_iff split: option.splits prod.splits)
    then show ?thesis by (rule consume_positional_exit) (use assms(2) prems(3) in auto)
  next
    case True
    then obtain tok rest where toks: "toks = tok # rest" by (cases toks) auto
    show ?thesis
    proof (cases "is_option tok")
      case False
      have loop: "parse_loop v p toks st = Inl x" by (rule prems(1))
      show ?thesis
      proof (cases "consume_positional v ?err toks st")
        case None
        let ?rest = "dropWhile (\<lambda>t. \<not> is_option t) toks"
        have sub: "set ?rest \<subseteq> set toks" by (auto dest: set_dropWhileD)
        have "length ?rest < length toks"
          using False toks length_dropWhile_le[of "\<lambda>t. \<not> is_option t" rest] by simp
        moreover have "parse_loop v p ?rest
            (add_extras (map tok_string (takeWhile (\<lambda>t. \<not> is_option t) toks)) st) = Inl x"
          using loop None True False toks by (simp add: parse_loop_positional)
        ultimately have "x = SystemExit \<and> list_ex asks_help (map tok_string ?rest)"
          by (rule less.hyps) (use prems(2,3) sub in \<open>auto simp: add_extras_def\<close>)
        with sub show ?thesis by (auto simp: list_ex_iff)
      next
        case (Some out)
        obtain res rest' where out: "out = (res, rest')" by fastforce
        show ?thesis
        proof (cases res)
          case (Inl y)
          with loop Some True False toks out have "y = x" by (simp add: parse_loop_positional)
          with Some out Inl show ?thesis
            using consume_positional_exit[of v ?err toks st x rest'] assms(2) prems(3) by simp
        next
          case (Inr st')
          note cp = Some[unfolded out Inr]
          have "parse_loop v p rest' st' = Inl x"
            using loop Some True False toks out Inr by (simp add: parse_loop_positional)
          then have "x = SystemExit \<and> list_ex asks_help (map tok_string rest')"
            using less.hyps[of rest' st'] consume_positional_state[OF cp]
              consume_positional_shorter[OF cp] prems(2) by auto
          with consume_positional_strings[OF cp] show ?thesis by blast
        qed
      qed
    next
      case isopt: True
      then obtain s tuples where Tok_opt: "tok = Tok_opt s tuples" by (cases tok) auto
      show ?thesis
      proof (cases tuples)
        case Nil
        with True toks Tok_opt prems less.hyps[of rest "add_extras [s] st"] show ?thesis
          by (auto simp: parse_loop_option add_extras_def)
      next
        case (Cons tuple others)
        obtain opt t ex where tuple: "tuple = (opt, t, ex)" by (cases tuple) auto
        obtain acts extras rest' where co:
          "others = []" "consume_optional (ap_options p) tuple rest = Some (acts, extras, rest')"
          using prems(1) assms(2) True toks Tok_opt Cons
          by (auto simp: parse_loop_option split: if_splits option.splits)
        show ?thesis
        proof (cases "act_all ?err acts (add_extras extras st)")
          case (Inl y)
          then have "y = x"
            using prems(1) True toks Tok_opt Cons co by (simp add: parse_loop_option)
          with act_all_exit[OF _ assms(2)] Inl obtain opt' arg where
            exit: "x = SystemExit" "(opt', arg) \<in> set acts" "opt_action opt' = Help" by blast
          note asked = consume_optional_help[OF co(2)[unfolded tuple] exit(2,3)]
          have "well_read (ap_options p) tok" using prems(2) toks by simp
          then have "asks_help s"
            using asked reads_help[OF assms(3), of s opt t ex] Tok_opt Cons tuple
            by (auto simp: well_read_def)
          then show ?thesis by (simp add: toks Tok_opt exit(1))
        next
          case (Inr st')
          have "parse_loop v p rest' st' = Inl x"
            using prems(1) True toks Tok_opt Cons co Inr by (simp add: parse_loop_option)
          moreover have "length rest' < length toks"
            using consume_optional_shorter[OF co(2)] toks by simp
          moreover have "\<forall>tok \<in> set rest'. well_read (ap_options p) tok"
            using consume_optional_subset[OF co(2)] prems(2) toks by auto
          moreover have "ps_positional st' = ps_positional st"
            using act_all_positional[OF Inr] by (simp add: add_extras_def)
          ultimately have "x = SystemExit \<and> list_ex asks_help (map tok_string rest')"
            using less.hyps[of rest' st'] prems(3) by simp
          then show ?thesis using consume_optional_subset[OF co(2)] by (auto simp: list_ex_iff toks)
        qed
      qed
    qed
  qed
qed

lemma parse_known_args_exit:
  assumes "parse_known_args v p args = Inl x" and "x \<noteq> ap_error p"
    and "only_help_exits (ap_options p)" and "commands_exit_on_help (ap_error p) (ap_positional p)"
  shows "x = SystemExit \<and> list_ex asks_help args"
proof -
  let ?toks = "classify v (ap_options p) args"
  have "parse_loop v p ?toks \<lparr>ps_positional = ap_positional p, ps_values = ap_defaults p, ps_seen = [],
      ps_extras = [], ps_unrecognized = []\<rparr> = Inl x"
    using assms(1,2) by (auto simp: parse_known_args_def Let_def then_do_Inl_iff split: if_splits)
  from parse_loop_exit[OF this assms(2,3)] classify_well_read[OF assms(3)] assms(4)
  show ?thesis by (simp add: classify_strings)
qed

lemma parse_args_exit:
  assumes "parse_args v p args = Inl x" and "x \<noteq> ap_error p"
    and "only_help_exits (ap_options p)" and "commands_exit_on_help (ap_error p) (ap_positional p)"
  shows "x = SystemExit \<and> list_ex asks_help args"
  using assms parse_known_args_exit[of v p args x]
  by (auto simp: parse_args_def then_do_Inl_iff split: if_splits prod.splits)

text \<open>The parser of a subcommand raises as that property asks.\<close>

lemma commands_exit_on_help_intro:
  assumes "\<And>name sub. (name, sub) \<in> set cmds \<Longrightarrow>
      \<exists>p. sub = parse_known_args v p \<and> ap_error p = err \<and> only_help_exits (ap_options p) \<and>
        commands_exit_on_help err (ap_positional p)"
  shows "commands_exit_on_help err (Some (Commands dest cmds))"
  unfolding commands_exit_on_help_def
  using assms parse_known_args_exit by (fastforce dest!: map_of_SomeD)

lemma no_commands [simp]:
  "commands_exit_on_help err None" "commands_exit_on_help err (Some (Single dest))"
  by (simp_all add: commands_exit_on_help_def)

section \<open>What a parser sets\<close>

lemma option_chain_known:
  "option_chain opts opt t cs rest = Some (acts, extras, rest') \<Longrightarrow> opt \<in> set opts \<Longrightarrow> fst ` set acts \<subseteq> set opts"
proof (induction opts opt t cs rest arbitrary: acts extras rest' rule: option_chain.induct)
  case (2 opts opt t ch cs rest)
  show ?case
  proof (cases "find_option opts [CHR ''-'', ch]")
    case None
    with 2 show ?thesis by (auto split: if_splits)
  next
    case (Some opt')
    then have opt': "opt' \<in> set opts" using find_option_names by blast
    have chain: "\<not> (take 1 (drop 1 t) = ''-'' \<or> ch = CHR ''-'')" using "2.prems"(1) by auto
    show ?thesis
    proof (cases "takes_value (opt_action opt')")
      case True
      with "2.prems" Some opt' show ?thesis
        by (auto split: if_splits explicit.splits list.splits token.splits)
    next
      case False
      show ?thesis
      proof (cases "next_explicit cs")
        case (Joined x)
        with False Some "2.prems"(1) chain obtain acts' where
          "option_chain opts opt' [CHR ''-'', ch] cs rest = Some (acts', extras, rest')"
          "acts = (opt, None) # acts'" by (auto split: option.splits)
        with "2.IH"[OF chain Some False Joined this(1) opt'] "2.prems"(2) show ?thesis by simp
      qed (use "2.prems" Some opt' False in \<open>auto split: if_splits\<close>)
    qed
  qed
qed simp

lemma consume_optional_known:
  assumes "consume_optional opts (opt, t, ex) rest = Some (acts, extras, rest')" and "opt \<in> set opts"
  shows "fst ` set acts \<subseteq> set opts"
  using assms option_chain_known
  by (fastforce simp: consume_optional_def split: if_splits explicit.splits list.splits token.splits)

text \<open>
  A predicate on the state that acting on the parser's options and consuming positionals keep, and
  that does not look at the extra arguments, holds at the end of the loop.
\<close>

lemma act_all_invariant:
  assumes "\<And>todo st st'. fst todo \<in> set opts \<Longrightarrow> I st \<Longrightarrow> act err todo st = Inr st' \<Longrightarrow> I st'"
  shows "act_all err acts st = Inr st' \<Longrightarrow> fst ` set acts \<subseteq> set opts \<Longrightarrow> I st \<Longrightarrow> I st'"
proof (induction acts arbitrary: st)
  case (Cons todo todos)
  then obtain st1 where "act err todo st = Inr st1" "act_all err todos st1 = Inr st'"
    by (auto simp: then_do_Inr_iff)
  with Cons assms[of todo st st1] show ?case by auto
qed simp

lemma parse_loop_invariant:
  assumes act: "\<And>todo st st'. fst todo \<in> set (ap_options p) \<Longrightarrow> I st \<Longrightarrow>
      act (ap_error p) todo st = Inr st' \<Longrightarrow> I st'"
    and pos: "\<And>toks st st' rest. I st \<Longrightarrow>
      consume_positional v (ap_error p) toks st = Some (Inr st', rest) \<Longrightarrow> I st'"
    and extras: "\<And>st ss. I st \<Longrightarrow> I (add_extras ss st)"
  shows "parse_loop v p toks st = Inr st' \<Longrightarrow> \<forall>tok \<in> set toks. well_read (ap_options p) tok \<Longrightarrow>
    I st \<Longrightarrow> I st'"
proof (induction "length toks" arbitrary: toks st rule: less_induct)
  case less
  let ?err = "ap_error p"
  note prems = less.prems
  show ?case
  proof (cases "list_ex is_option toks")
    case False
    with prems(1,3) pos extras show ?thesis
      by (auto simp: parse_loop_last then_do_Inr_iff split: option.splits)
  next
    case True
    then obtain tok rest where toks: "toks = tok # rest" by (cases toks) auto
    show ?thesis
    proof (cases "is_option tok")
      case False
      note loop = parse_loop_positional[OF True, of v p st]
      show ?thesis
      proof (cases "consume_positional v ?err toks st")
        case None
        let ?rest = "dropWhile (\<lambda>t. \<not> is_option t) toks"
        have "length ?rest < length toks"
          using False toks length_dropWhile_le[of "\<lambda>t. \<not> is_option t" rest] by simp
        moreover have "parse_loop v p ?rest
            (add_extras (map tok_string (takeWhile (\<lambda>t. \<not> is_option t) toks)) st) = Inr st'"
          using prems(1) None False toks loop by simp
        moreover have "\<forall>tok \<in> set ?rest. well_read (ap_options p) tok"
          using prems(2) by (auto dest: set_dropWhileD)
        ultimately show ?thesis by (rule less.hyps) (rule extras[OF prems(3)])
      next
        case (Some out)
        then obtain st1 rest' where cp: "consume_positional v ?err toks st = Some (Inr st1, rest')"
          and rec: "parse_loop v p rest' st1 = Inr st'"
          using prems(1) False toks loop by (cases out; cases "fst out") auto
        show ?thesis
          by (rule less.hyps[OF consume_positional_shorter[OF cp] rec _ pos[OF prems(3) cp]])
            (use prems(2) consume_positional_state[OF cp] in auto)
      qed
    next
      case isopt: True
      then obtain s tuples where Tok_opt: "tok = Tok_opt s tuples" by (cases tok) auto
      show ?thesis
      proof (cases tuples)
        case Nil
        with prems toks Tok_opt extras[of st "[s]"] less.hyps[of rest "add_extras [s] st"] show ?thesis
          by (simp add: parse_loop_option)
      next
        case (Cons tuple others)
        obtain opt t ex where tuple: "tuple = (opt, t, ex)" by (cases tuple) auto
        obtain acts es rest' where co: "consume_optional (ap_options p) tuple rest = Some (acts, es, rest')"
          and nil: "others = []"
          using prems(1) toks Tok_opt Cons
          by (auto simp: parse_loop_option split: if_splits option.splits)
        obtain st1 where st1: "act_all ?err acts (add_extras es st) = Inr st1"
          and rec: "parse_loop v p rest' st1 = Inr st'"
          using prems(1) toks Tok_opt Cons co nil by (auto simp: parse_loop_option split: sum.splits)
        have "opt \<in> set (ap_options p)"
          using prems(2) toks Tok_opt Cons tuple by (auto simp: well_read_def reads_as_def)
        note known = consume_optional_known[OF co[unfolded tuple] this]
        have "I st1" by (rule act_all_invariant[where I = I, OF act st1 known extras[OF prems(3)]])
        moreover have "length rest' < length toks" using consume_optional_shorter[OF co] toks by simp
        moreover have "\<forall>tok \<in> set rest'. well_read (ap_options p) tok"
          using consume_optional_subset[OF co] prems(2) toks by auto
        ultimately show ?thesis using less.hyps[OF _ rec] by blast
      qed
    qed
  qed
qed

definition parse_start :: "arg_parser \<Rightarrow> parse_state" where
  "parse_start p =
     \<lparr>ps_positional = ap_positional p, ps_values = ap_defaults p, ps_seen = [], ps_extras = [],
      ps_unrecognized = []\<rparr>"

lemma parse_known_args_sets:
  assumes "parse_known_args v p args = Inr (values, extras)" and "only_help_exits (ap_options p)"
    and "I (parse_start p)"
    and "\<And>todo st st'. fst todo \<in> set (ap_options p) \<Longrightarrow> I st \<Longrightarrow>
      act (ap_error p) todo st = Inr st' \<Longrightarrow> I st'"
    and "\<And>toks st st' rest. I st \<Longrightarrow>
      consume_positional v (ap_error p) toks st = Some (Inr st', rest) \<Longrightarrow> I st'"
    and "\<And>st ss. I st \<Longrightarrow> I (add_extras ss st)"
  obtains st where "I st" "values = ps_values st" "ps_positional st = None"
    "set (ap_required p) \<subseteq> set (ps_seen st)"
proof -
  let ?toks = "classify v (ap_options p) args"
  from assms(1) obtain st where st: "parse_loop v p ?toks (parse_start p) = Inr st"
    "ps_positional st = None" "set (ap_required p) \<subseteq> set (ps_seen st)" "values = ps_values st"
    by (auto simp: parse_known_args_def parse_start_def Let_def then_do_Inr_iff split: if_splits)
  have "I st"
    by (rule parse_loop_invariant[where I = I, OF assms(4-6) st(1) _ assms(3)])
      (use classify_well_read[OF assms(2)] in auto)
  with st(2-4) that show ?thesis by blast
qed

end
