(* ===== verification/Runtime.thy ===== *)
theory Runtime
  imports Snowflake_Executor Control Argparse
begin

text \<open>
  Composition (\<open>src/snowglobe/runtime.py\<close>, \<open>create_snowflake_executor\<close> of
  \<open>snowflake_executor.py\<close>, \<open>local_server.py\<close>) and the operator's check (\<open>preflight.py\<close>).  The
  local machine is a parameter: the files as TOML documents, keys, home directory, and the order
  of Python's set of connection fields.  What the Uvicorn server does is an argument; the usage and
  help texts \<open>argparse\<close> prints before it exits are not modelled.
\<close>

section \<open>The local machine\<close>

record 'k host =
  hs_document :: "string \<Rightarrow> (string, pyval) odict result"
  hs_keys :: "'k key_library"
  hs_expanduser :: "string \<Rightarrow> string result"
  hs_field_order :: "string list"
  hs_message :: "string \<Rightarrow> string \<Rightarrow> py_exn \<Rightarrow> string"

definition host_snowflake_profile :: "'k host \<Rightarrow> string \<Rightarrow> string \<Rightarrow> snowflake_profile result" where
  "host_snowflake_profile h path name =
     load_snowflake_profile (hs_message h path name) (hs_expanduser h) (hs_field_order h)
       (hs_document h path) name"

definition host_snowglobe_profile :: "'k host \<Rightarrow> string \<Rightarrow> string \<Rightarrow> snowglobe_profile result" where
  "host_snowglobe_profile h path name =
     load_snowglobe_profile (hs_message h path name) (hs_document h path) name"

section \<open>Creating the runtime\<close>

text \<open>The executor's admission callback is the configured \<open>SnowflakeQueryAdmission\<close>.\<close>

definition create_snowflake_executor ::
  "'k host \<Rightarrow> string \<Rightarrow> string \<Rightarrow> string \<Rightarrow> ('n, 'c) connect option \<Rightarrow>
   (string executor \<times> ('n, 'c) query_admission) result"
where
  "create_snowflake_executor h connections config name connect =
     then_do (host_snowflake_profile h connections name) (\<lambda>connection.
     then_do (host_snowglobe_profile h config name) (\<lambda>profile.
     then_do (from_view_names (profile_views profile) MVP_MAXIMUM_VIEWPORT_ROWS) (\<lambda>policy.
     then_do (build_connector_arguments (hs_keys h) connection) (\<lambda>args.
       Inr (executor_init, \<lparr>qa_policy = policy, qa_arguments = args, qa_connect = connect\<rparr>)))))"

definition create_runtime ::
  "'k host \<Rightarrow> string option \<Rightarrow> string option \<Rightarrow> string \<Rightarrow>
   (('s, 'c, string) runtime \<times> ('n, 'c) query_admission option) result"
where
  "create_runtime h connections config name =
     then_do (broker_init MVP_MAXIMUM_TTL (Some MVP_MAXIMUM_PENDING_REQUESTS) (Some MVP_MAXIMUM_REQUESTS))
       (\<lambda>broker.
     if (connections = None) \<noteq> (config = None) then Inl ValueError
     else (case (connections, config) of
             (Some cs, Some cf) \<Rightarrow>
               then_do (create_snowflake_executor h cs cf name None) (\<lambda>(x, qa).
                 Inr (\<lparr>rt_broker = broker, rt_executor = Some x\<rparr>, Some qa))
           | _ \<Rightarrow> Inr (\<lparr>rt_broker = broker, rt_executor = None\<rparr>, None)))"

text \<open>\<open>Runtime.close\<close>.\<close>

definition runtime_close ::
  "env \<Rightarrow> ('s, 'c, 'w) runtime \<Rightarrow> unit result \<times> ('s, 'c, 'w) runtime" where
  "runtime_close e st = control_close e st"

section \<open>The local server\<close>

text \<open>
  The application's lifespan: inside the MCP application's own lifespan (what its entry and exit
  answer is an argument) the service runs, here any transformation of the state with its outcome,
  and the runtime is closed in the \<open>finally\<close>.
\<close>

definition lifespan ::
  "env \<Rightarrow> unit result \<Rightarrow> unit result \<Rightarrow>
   (('s, 'c, 'w) runtime \<Rightarrow> unit result \<times> ('s, 'c, 'w) runtime) \<Rightarrow> ('s, 'c, 'w) runtime \<Rightarrow>
   unit result \<times> ('s, 'c, 'w) runtime"
where
  "lifespan e enter leave serve st =
     (case enter of
        Inl x \<Rightarrow> (Inl x, st)
      | Inr _ \<Rightarrow>
          (case try_finally serve (runtime_close e) st of
             (r, st') \<Rightarrow> (finally_outcome r leave, st')))"

record server_arguments =
  sa_connections :: "string option"
  sa_config :: "string option"
  sa_profile :: string

text \<open>A path argument is the \<open>Path\<close> of its text; without one the attribute is the default.\<close>

definition text_option :: "string \<Rightarrow> string \<Rightarrow> arg_option" where
  "text_option name dest =
     \<lparr>opt_strings = [name], opt_dest = dest, opt_action = Store (\<lambda>s. Some (PStr s))\<rparr>"

definition text_value :: "namespace \<Rightarrow> string \<Rightarrow> string option" where
  "text_value ns k = Option.bind (map_of ns k) as_str"

definition server_parser :: arg_parser where
  "server_parser =
     \<lparr>ap_options =
        [help_option, text_option ''--connections'' ''connections'',
         text_option ''--snowglobe-config'' ''snowglobe_config'', text_option ''--profile'' ''profile''],
      ap_positional = None,
      ap_defaults =
        [(''connections'', PNone), (''snowglobe_config'', PNone), (''profile'', PStr ''default'')],
      ap_required = [], ap_error = SystemExit\<rparr>"

definition server_arguments_of :: "namespace \<Rightarrow> server_arguments" where
  "server_arguments_of ns =
     \<lparr>sa_connections = text_value ns ''connections'', sa_config = text_value ns ''snowglobe_config'',
      sa_profile = the (text_value ns ''profile'')\<rparr>"

datatype console_line = Out string | Err string

definition creating_notice :: string where
  "creating_notice =
     ''Creating Snowglobe runtime (validating configured profiles, policy, and RSA key; '' @
     ''not connecting to Snowflake)...''"

definition composing_notice :: string where
  "composing_notice = ''Composing MCP and viewer routes around the shared local runtime...''"

definition starting_notice :: string where
  "starting_notice =
     ''Starting the loopback server. Uvicorn will report when startup completes; '' @
     ''this process then remains running until Ctrl-C.''"

text \<open>
  \<open>main\<close> after argument parsing.  \<open>compose\<close> is \<open>create_app\<close>, which only wires routes; \<open>serve\<close>
  is \<open>uvicorn.run\<close> on the loopback address.  \<open>text_of\<close> is \<open>str\<close> of an exception.
\<close>

definition LOOPBACK :: "string \<times> int" where "LOOPBACK = (''127.0.0.1'', 8000)"

definition server_main ::
  "(py_exn \<Rightarrow> string) \<Rightarrow> 'k host \<Rightarrow>
   (('s, 'c, string) runtime \<times> ('n, 'c) query_admission option \<Rightarrow> 'app result) \<Rightarrow>
   ('app \<Rightarrow> string \<times> int \<Rightarrow> unit result) \<Rightarrow> server_arguments \<Rightarrow> nat result \<times> console_line list"
where
  "server_main text_of h compose serve args =
     (case create_runtime h (sa_connections args) (sa_config args) (sa_profile args) of
        Inl x \<Rightarrow>
          (if is_Exception x then Inr 1 else Inl x,
           Out creating_notice #
             (if is_Exception x then [Err (''Snowglobe startup failed: '' @ text_of x)] else []))
      | Inr rt \<Rightarrow>
          (case compose rt of
             Inl x \<Rightarrow>
               (if is_Exception x then Inr 1 else Inl x,
                [Out creating_notice, Out composing_notice] @
                  (if is_Exception x then [Err (''Snowglobe startup failed: '' @ text_of x)] else []))
           | Inr app \<Rightarrow>
               (then_do (serve app LOOPBACK) (\<lambda>_. Inr 0),
                [Out creating_notice, Out composing_notice, Out starting_notice])))"

definition server_command ::
  "rules \<Rightarrow> (py_exn \<Rightarrow> string) \<Rightarrow> 'k host \<Rightarrow>
   (('s, 'c, string) runtime \<times> ('n, 'c) query_admission option \<Rightarrow> 'app result) \<Rightarrow>
   ('app \<Rightarrow> string \<times> int \<Rightarrow> unit result) \<Rightarrow> string list \<Rightarrow> nat result \<times> console_line list"
where
  "server_command v text_of h compose serve argv =
     (case parse_args v server_parser argv of
        Inl x \<Rightarrow> (Inl x, [])
      | Inr ns \<Rightarrow> server_main text_of h compose serve (server_arguments_of ns))"

section \<open>Preflight\<close>

record ('n, 'c) preflight_state = "('n, 'c) connector_state" +
  pre_progress :: "string list"

text \<open>A progress message is kept when a callback was given.\<close>

definition progress_note ::
  "bool \<Rightarrow> string \<Rightarrow> ('n, 'c) preflight_state \<Rightarrow> ('n, 'c) preflight_state" where
  "progress_note wanted line st = (if wanted then st\<lparr>pre_progress := pre_progress st @ [line]\<rparr> else st)"

definition connecting_notice :: string where
  "connecting_notice =
     ''Connecting to Snowflake and opening a cursor without executing SQL '' @
     ''(30-second login timeout; an in-flight socket operation may take longer)...''"

definition check_cursor ::
  "('n, 'c, 'm, 'x) driver \<Rightarrow> ('n, 'c) connect option \<Rightarrow> arguments \<Rightarrow> bool \<Rightarrow>
   ('n, 'c) preflight_state \<Rightarrow> unit result \<times> ('n, 'c) preflight_state"
where
  "check_cursor d connect args wanted st =
     (case request_cursor d connect args (\<lambda>c st. (Inr (), st)) (progress_note wanted connecting_notice st) of
        (Inl x, st1) \<Rightarrow> (Inl x, st1)
      | (Inr _, st1) \<Rightarrow>
          (Inr (), progress_note wanted ''Snowflake connection and cursor check passed.'' st1))"

definition run_preflight ::
  "'k host \<Rightarrow> ('n, 'c, 'm, 'x) driver \<Rightarrow> string \<Rightarrow> string \<Rightarrow> string \<Rightarrow> bool \<Rightarrow>
   ('n, 'c) connect option \<Rightarrow> bool \<Rightarrow> ('n, 'c) preflight_state \<Rightarrow>
   unit result \<times> ('n, 'c) preflight_state"
where
  "run_preflight h d connections config name check_connection connect wanted st =
     (let st1 = progress_note wanted ''Checking Snowflake connection profile...'' st in
      case host_snowflake_profile h connections name of
        Inl x \<Rightarrow> (Inl x, st1)
      | Inr connection \<Rightarrow>
          (let st2 = progress_note wanted ''Checking Snowglobe policy profile and allowed views...'' st1 in
           case then_do (host_snowglobe_profile h config name)
                  (\<lambda>p. from_view_names (profile_views p) MVP_MAXIMUM_VIEWPORT_ROWS) of
             Inl x \<Rightarrow> (Inl x, st2)
           | Inr policy \<Rightarrow>
               (let st3 = progress_note wanted ''Checking RSA private key...'' st2 in
                case build_connector_arguments (hs_keys h) connection of
                  Inl x \<Rightarrow> (Inl x, st3)
                | Inr args \<Rightarrow>
                    if check_connection then check_cursor d connect args wanted st3 else (Inr (), st3))))"

record preflight_arguments =
  pa_connections :: string
  pa_config :: string
  pa_profile :: string
  pa_connect :: bool

definition preflight_main ::
  "(py_exn \<Rightarrow> string) \<Rightarrow> 'k host \<Rightarrow> ('n, 'c, 'm, 'x) driver \<Rightarrow> preflight_arguments \<Rightarrow>
   ('n, 'c) preflight_state \<Rightarrow> nat result \<times> console_line list \<times> ('n, 'c) preflight_state"
where
  "preflight_main text_of h d args st =
     (case run_preflight h d (pa_connections args) (pa_config args) (pa_profile args)
             (pa_connect args) None True (st\<lparr>pre_progress := []\<rparr>) of
        (Inl x, st') \<Rightarrow>
          (if is_Exception x
           then (Inr 1, map Out (pre_progress st') @ [Err (''Snowglobe preflight failed: '' @ text_of x)], st')
           else (Inl x, map Out (pre_progress st'), st'))
      | (Inr _, st') \<Rightarrow> (Inr 0, map Out (pre_progress st' @ [''Snowglobe preflight passed.'']), st'))"

definition preflight_parser :: arg_parser where
  "preflight_parser =
     \<lparr>ap_options =
        [help_option, text_option ''--connections'' ''connections'',
         text_option ''--snowglobe-config'' ''snowglobe_config'', text_option ''--profile'' ''profile'',
         \<lparr>opt_strings = [''--connect''], opt_dest = ''connect'', opt_action = Store_true\<rparr>],
      ap_positional = None,
      ap_defaults =
        [(''connections'', PStr ''connections.toml''), (''snowglobe_config'', PStr ''snowglobe.toml''),
         (''profile'', PStr ''default''), (''connect'', PBool False)],
      ap_required = [], ap_error = SystemExit\<rparr>"

definition preflight_arguments_of :: "namespace \<Rightarrow> preflight_arguments" where
  "preflight_arguments_of ns =
     \<lparr>pa_connections = the (text_value ns ''connections''),
      pa_config = the (text_value ns ''snowglobe_config''),
      pa_profile = the (text_value ns ''profile''), pa_connect = (map_of ns ''connect'' = Some (PBool True))\<rparr>"

definition preflight_command ::
  "rules \<Rightarrow> (py_exn \<Rightarrow> string) \<Rightarrow> 'k host \<Rightarrow> ('n, 'c, 'm, 'x) driver \<Rightarrow> string list \<Rightarrow>
   ('n, 'c) preflight_state \<Rightarrow> nat result \<times> console_line list \<times> ('n, 'c) preflight_state"
where
  "preflight_command v text_of h d argv st =
     (case parse_args v preflight_parser argv of
        Inl x \<Rightarrow> (Inl x, [], st)
      | Inr ns \<Rightarrow> preflight_main text_of h d (preflight_arguments_of ns) st)"

section \<open>What the command lines set\<close>

lemma runtime_parsers_exit [simp]:
  "only_help_exits (ap_options server_parser)" "only_help_exits (ap_options preflight_parser)"
  by (simp_all add: only_help_exits_def server_parser_def preflight_parser_def text_option_def)

text \<open>An attribute whose options all keep \<open>P\<close> satisfies it after parsing if its default does.\<close>

lemma parsed_attribute:
  assumes "parse_args v p argv = Inr ns" and "only_help_exits (ap_options p)"
    and "ap_positional p = None"
    and "\<exists>x. map_of (ap_defaults p) k = Some x \<and> P x"
    and "\<And>opt value. opt \<in> set (ap_options p) \<Longrightarrow> opt_dest opt = k \<Longrightarrow>
      (case opt_action opt of Help \<Rightarrow> True | Store_true \<Rightarrow> P (PBool True)
       | Store conv \<Rightarrow> \<forall>s x. conv s = Some x \<longrightarrow> P x)"
  shows "\<exists>x. map_of ns k = Some x \<and> P x"
proof -
  define I :: "parse_state \<Rightarrow> bool" where "I st \<longleftrightarrow> ps_positional st = None \<and>
    (\<exists>x. map_of (ps_values st) k = Some x \<and> P x)" for st
  have act: "I st'" if "fst todo \<in> set (ap_options p)" "I st" "act (ap_error p) todo st = Inr st'"
    for todo st st'
    using that assms(5)[of "fst todo"] unfolding I_def
    by (cases todo; cases "snd todo")
      (auto simp: act_def set_value_def AList.update_conv' Let_def split: option.splits option_action.splits)
  have pos: "I st'" if "I st" "consume_positional v (ap_error p) toks st = Some (Inr st', rest)"
    for toks st st' rest
    using that by (simp add: I_def consume_positional_def)
  have extra: "I (add_extras ss st)" if "I st" for st ss using that by (simp add: I_def add_extras_def)
  have start: "I (parse_start p)" using assms(3,4) by (simp add: I_def parse_start_def)
  obtain extras where "parse_known_args v p argv = Inr (ns, extras)"
    using assms(1) by (auto simp: parse_args_def then_do_def split: sum.splits if_splits)
  then obtain st where "I st" "ns = ps_values st"
    by (rule parse_known_args_sets[where I = I, OF _ assms(2) start act pos extra])
  then show ?thesis by (simp add: I_def)
qed

text \<open>So the attributes \<open>main\<close> uses are always there, of the type it takes them for.\<close>

lemma server_profile_parsed:
  assumes "parse_args v server_parser argv = Inr ns"
  shows "\<exists>name. text_value ns ''profile'' = Some name"
proof -
  have "\<exists>x. map_of ns ''profile'' = Some x \<and> as_str x \<noteq> None"
    by (rule parsed_attribute[OF assms])
      (auto simp: server_parser_def text_option_def help_option_def only_help_exits_def)
  then show ?thesis by (auto simp: text_value_def)
qed

lemma preflight_text_parsed:
  assumes "parse_args v preflight_parser argv = Inr ns"
    and "k \<in> {''connections'', ''snowglobe_config'', ''profile''}"
  shows "\<exists>s. text_value ns k = Some s"
proof -
  have "\<exists>x. map_of ns k = Some x \<and> as_str x \<noteq> None"
    by (rule parsed_attribute[OF assms(1)])
      (use assms(2) in \<open>auto simp: preflight_parser_def text_option_def help_option_def only_help_exits_def\<close>)
  then show ?thesis by (auto simp: text_value_def)
qed

lemma preflight_connect_parsed:
  assumes "parse_args v preflight_parser argv = Inr ns"
  shows "\<exists>c. map_of ns ''connect'' = Some (PBool c)"
proof -
  have "\<exists>x. map_of ns ''connect'' = Some x \<and> (\<exists>c. x = PBool c)"
    by (rule parsed_attribute[OF assms])
      (auto simp: preflight_parser_def text_option_def help_option_def only_help_exits_def)
  then show ?thesis by auto
qed

section \<open>What preflight shows\<close>

fun runs_no_query :: "('n, 'c) driver_event \<Rightarrow> bool" where
  "runs_no_query (Executed c s t) \<longleftrightarrow> False"
| "runs_no_query (Fetched c) \<longleftrightarrow> False"
| "runs_no_query ev \<longleftrightarrow> True"

text \<open>The calls of one empty \<open>with request_cursor(...)\<close> block.\<close>

lemma empty_request_cursor_log:
  obtains calls where
    "conn_log (snd (request_cursor d connect args (\<lambda>c st. (Inr (), st)) st)) = conn_log st @ calls"
    "list_all runs_no_query calls" "\<And>n. connection_balance n calls = 0" "\<And>c. cursor_balance c calls = 0"
proof -
  define st0 where "st0 = st\<lparr>conn_logger := suppress_connector_logs (conn_logger st)\<rparr>"
  have log0: "conn_log st0 = conn_log st" by (simp add: st0_def)
  show ?thesis
  proof (cases "(case connect of None \<Rightarrow> connect_default d | Some f \<Rightarrow> f) (conn_log st0) args")
    case (Inl x)
    then show ?thesis
      by (intro that[of "[Connect_failed]"])
        (simp_all add: request_cursor_def open_connection_def log0 flip: st0_def)
  next
    case conn: (Inr n)
    show ?thesis
    proof (cases "dr_cursor d (conn_log st0 @ [Connected n]) n")
      case (Inl x)
      with conn show ?thesis
        by (intro that[of "[Connected n, Cursor_failed n, Connection_closed n]"])
          (simp_all add: request_cursor_def open_connection_def open_cursor_def try_finally_def
            close_connection_def log0 flip: st0_def)
    next
      case (Inr c)
      with conn show ?thesis
        by (intro that[of "[Connected n, Cursor_opened n c, Cursor_closed c, Connection_closed n]"])
          (simp_all add: request_cursor_def open_connection_def open_cursor_def try_finally_def
            close_connection_def close_cursor_def log0 flip: st0_def)
    qed
  qed
qed

lemma progress_note_log [simp]: "conn_log (progress_note wanted line st) = conn_log st"
  by (simp add: progress_note_def)

lemma check_cursor_log:
  obtains calls where "conn_log (snd (check_cursor d connect args wanted st)) = conn_log st @ calls"
    "list_all runs_no_query calls" "\<And>n. connection_balance n calls = 0" "\<And>c. cursor_balance c calls = 0"
proof -
  obtain r st1 where rc: "request_cursor d connect args (\<lambda>c st. (Inr (), st))
      (progress_note wanted connecting_notice st) = (r, st1)" by fastforce
  obtain calls where "conn_log st1 = conn_log st @ calls"
    "list_all runs_no_query calls" "\<And>n. connection_balance n calls = 0" "\<And>c. cursor_balance c calls = 0"
    using empty_request_cursor_log[of d connect args "progress_note wanted connecting_notice st"] rc
    by auto
  with rc that[of calls] show ?thesis by (cases r) (simp_all add: check_cursor_def)
qed

text \<open>
  Property C30.  Preflight predicts startup and touches no data.  Without the connection check it
  raises exactly what creating the configured executor raises, and passes exactly when that
  succeeds, so a configuration that passes starts the runtime; and whatever it is asked to check,
  it executes and fetches nothing and closes every connection and cursor it opens.
\<close>

theorem preflight_predicts_startup:
  "fst (run_preflight h d connections config name False connect wanted st) =
     then_do (create_snowflake_executor h connections config name other) (\<lambda>_. Inr ()) \<and>
   (is_ok (create_snowflake_executor h connections config name (None :: ('n, 'c) connect option)) \<longleftrightarrow>
     is_ok (create_runtime h (Some connections) (Some config) name ::
       (('s, 'c, string) runtime \<times> ('n, 'c) query_admission option) result)) \<and>
   (\<exists>calls. conn_log (snd (run_preflight h d connections config name check connect wanted st)) =
        conn_log st @ calls \<and> list_all runs_no_query calls \<and>
        (\<forall>n. connection_balance n calls = 0) \<and> (\<forall>c. cursor_balance c calls = 0))"
proof (intro conjI)
  show "fst (run_preflight h d connections config name False connect wanted st) =
     then_do (create_snowflake_executor h connections config name other) (\<lambda>_. Inr ())"
    by (simp add: run_preflight_def create_snowflake_executor_def then_do_def Let_def split: sum.splits)
  have "\<exists>b :: ('s, 'c) broker. broker_init MVP_MAXIMUM_TTL (Some MVP_MAXIMUM_PENDING_REQUESTS)
      (Some MVP_MAXIMUM_REQUESTS) = Inr b"
    by (simp add: broker_init_def MVP_MAXIMUM_TTL_def MVP_MAXIMUM_PENDING_REQUESTS_def
        MVP_MAXIMUM_REQUESTS_def minutes_def seconds_def)
  then show "is_ok (create_snowflake_executor h connections config name (None :: ('n, 'c) connect option)) \<longleftrightarrow>
     is_ok (create_runtime h (Some connections) (Some config) name ::
       (('s, 'c, string) runtime \<times> ('n, 'c) query_admission option) result)"
    by (cases "create_snowflake_executor h connections config name (None :: ('n, 'c) connect option)")
      (auto simp: create_runtime_def)
  let ?st = "snd (run_preflight h d connections config name check connect wanted st)"
  define st3 where "st3 = progress_note wanted ''Checking RSA private key...''
    (progress_note wanted ''Checking Snowglobe policy profile and allowed views...''
      (progress_note wanted ''Checking Snowflake connection profile...'' st))"
  have "conn_log ?st = conn_log st \<or> (\<exists>args. ?st = snd (check_cursor d connect args wanted st3))"
    by (auto simp: run_preflight_def Let_def then_do_def st3_def split: sum.splits)
  then show "\<exists>calls. conn_log ?st = conn_log st @ calls \<and> list_all runs_no_query calls \<and>
        (\<forall>n. connection_balance n calls = 0) \<and> (\<forall>c. cursor_balance c calls = 0)"
  proof
    assume "conn_log ?st = conn_log st"
    then show ?thesis by (intro exI[of _ "[]"]) simp
  next
    assume "\<exists>args. ?st = snd (check_cursor d connect args wanted st3)"
    then obtain args where "?st = snd (check_cursor d connect args wanted st3)" by blast
    moreover have "conn_log st3 = conn_log st" by (simp add: st3_def)
    ultimately show ?thesis using check_cursor_log[of d connect args wanted st3] by metis
  qed
qed

section \<open>The two commands\<close>

text \<open>A command line that names both files and the profile.\<close>

definition named_profile :: "string \<Rightarrow> string \<Rightarrow> string \<Rightarrow> string list" where
  "named_profile cs cf name = [''--connections'', cs, ''--snowglobe-config'', cf, ''--profile'', name]"

lemma exact_option:
  assumes "take 1 s = ''-''" and "find_option opts s = Some opt"
  shows "parse_optional v opts s = Tok_opt s [(opt, s, No_arg)]"
  using assms by (simp add: parse_optional_def)

lemma plain_not_dashes: "take 1 s \<noteq> ''-'' \<Longrightarrow> s \<noteq> ''--''" by auto

text \<open>A parser with these three options, none required, reads such a line as it stands.\<close>

lemma named_profile_parsed:
  assumes "\<forall>s \<in> {cs, cf, name}. take 1 s \<noteq> ''-''"
    and "find_option (ap_options p) ''--connections'' = Some (text_option ''--connections'' ''connections'')"
    and "find_option (ap_options p) ''--snowglobe-config'' =
      Some (text_option ''--snowglobe-config'' ''snowglobe_config'')"
    and "find_option (ap_options p) ''--profile'' = Some (text_option ''--profile'' ''profile'')"
    and "ap_positional p = None" and "ap_required p = []"
  shows "parse_args v p (named_profile cs cf name) =
    Inr (AList.update ''profile'' (PStr name) (AList.update ''snowglobe_config'' (PStr cf)
      (AList.update ''connections'' (PStr cs) (ap_defaults p))))"
proof -
  have toks: "classify v (ap_options p) (named_profile cs cf name) =
      [Tok_opt ''--connections'' [(text_option ''--connections'' ''connections'', ''--connections'', No_arg)],
       Tok_arg cs,
       Tok_opt ''--snowglobe-config''
         [(text_option ''--snowglobe-config'' ''snowglobe_config'', ''--snowglobe-config'', No_arg)],
       Tok_arg cf,
       Tok_opt ''--profile'' [(text_option ''--profile'' ''profile'', ''--profile'', No_arg)],
       Tok_arg name]"
    using assms(1)
    by (simp add: named_profile_def plain_not_dashes parse_optional_plain exact_option[OF _ assms(2)]
        exact_option[OF _ assms(3)] exact_option[OF _ assms(4)])
  show ?thesis
    unfolding parse_args_def parse_known_args_def toks
    by (simp add: assms(5,6) parse_loop_option parse_loop_last consume_optional_def text_option_def
        act_def set_value_def add_extras_def consume_positional_def)
qed

lemma named_profile_arguments:
  assumes "\<forall>s \<in> {cs, cf, name}. take 1 s \<noteq> ''-''"
  obtains ns ns' where
    "parse_args v server_parser (named_profile cs cf name) = Inr ns"
    "server_arguments_of ns = \<lparr>sa_connections = Some cs, sa_config = Some cf, sa_profile = name\<rparr>"
    "parse_args v preflight_parser (named_profile cs cf name) = Inr ns'"
    "preflight_arguments_of ns' =
      \<lparr>pa_connections = cs, pa_config = cf, pa_profile = name, pa_connect = False\<rparr>"
proof -
  note parsed = named_profile_parsed[OF assms, where v = v]
  note defs = find_option_def help_option_def text_option_def
  show thesis
    by (rule that[OF parsed _ parsed])
      (simp_all add: server_parser_def preflight_parser_def server_arguments_of_def
        preflight_arguments_of_def text_value_def AList.update_conv' defs)
qed

text \<open>What startup and the check have in common: the two profiles, the policy and the key.\<close>

lemma create_runtime_checks:
  "create_runtime h (Some connections) (Some config) name =
     (Inl x :: (('s, 'c, string) runtime \<times> ('n, 'c) query_admission option) result) \<longleftrightarrow>
   fst (run_preflight h (d :: ('n, 'c, 'm, 'x) driver) connections config name False None wanted st) = Inl x"
proof -
  obtain b :: "('s, 'c) broker" where "broker_init MVP_MAXIMUM_TTL (Some MVP_MAXIMUM_PENDING_REQUESTS)
      (Some MVP_MAXIMUM_REQUESTS) = Inr b"
    by (simp add: broker_init_def MVP_MAXIMUM_TTL_def MVP_MAXIMUM_PENDING_REQUESTS_def
        MVP_MAXIMUM_REQUESTS_def minutes_def seconds_def)
  then show ?thesis
    by (auto simp: create_runtime_def run_preflight_def create_snowflake_executor_def then_do_def Let_def
        split: sum.splits)
qed

text \<open>
  Property C29.  What the operator's check says is what the server does.  On a command line that
  names both files and the profile, the two commands end with the same exit status, or the same
  exception, when the application can be composed and the server loop ends; and the message after
  \<open>startup failed\<close> is exactly the one after \<open>preflight failed\<close>.
\<close>

theorem preflight_command_predicts_server:
  fixes compose :: "('s, 'c, string) runtime \<times> ('n, 'c) query_admission option \<Rightarrow> 'app result"
    and d :: "('n, 'c, 'm, 'x) driver"
  assumes "\<forall>s \<in> {connections, config, name}. take 1 s \<noteq> ''-''"
    and "\<And>rt. is_ok (compose rt)" and "\<And>app. serve app LOOPBACK = Inr ()"
  shows "fst (server_command v text_of h compose serve (named_profile connections config name)) =
      fst (preflight_command v text_of h d (named_profile connections config name) st) \<and>
    (Err (''Snowglobe startup failed: '' @ m) \<in>
        set (snd (server_command v text_of h compose serve (named_profile connections config name))) \<longleftrightarrow>
      Err (''Snowglobe preflight failed: '' @ m) \<in>
        set (fst (snd (preflight_command v text_of h d (named_profile connections config name) st))))"
proof -
  obtain ns ns' where parsed:
    "parse_args v server_parser (named_profile connections config name) = Inr ns"
    "server_arguments_of ns = \<lparr>sa_connections = Some connections, sa_config = Some config, sa_profile = name\<rparr>"
    "parse_args v preflight_parser (named_profile connections config name) = Inr ns'"
    "preflight_arguments_of ns' =
      \<lparr>pa_connections = connections, pa_config = config, pa_profile = name, pa_connect = False\<rparr>"
    by (rule named_profile_arguments[OF assms(1)])
  let ?rt = "create_runtime h (Some connections) (Some config) name ::
    (('s, 'c, string) runtime \<times> ('n, 'c) query_admission option) result"
  let ?pf = "run_preflight h d connections config name False None True (st\<lparr>pre_progress := []\<rparr>)"
  have checks: "?rt = Inl x \<longleftrightarrow> fst ?pf = Inl x" for x by (rule create_runtime_checks)
  obtain res st' where pf: "?pf = (res, st')" by fastforce
  show ?thesis
  proof (cases ?rt)
    case (Inl x)
    with checks[of x] pf have "res = Inl x" by simp
    with Inl pf show ?thesis
      by (auto simp: server_command_def preflight_command_def parsed server_main_def preflight_main_def)
  next
    case (Inr rt)
    with checks pf have "res \<noteq> Inl x" for x by fastforce
    then obtain u where "res = Inr u" by (cases res) auto
    moreover obtain app where "compose rt = Inr app" using assms(2)[of rt] by (cases "compose rt") auto
    ultimately show ?thesis using Inr pf assms(3)
      by (auto simp: server_command_def preflight_command_def parsed server_main_def preflight_main_def)
  qed
qed

text \<open>A machine with one good profile under the name \<open>default\<close>.\<close>

definition sample_host :: "unit host" where
  "sample_host =
     \<lparr>hs_document = (\<lambda>path.
        if path = ''c.toml'' then Inr [(''default'', PDict (map (\<lambda>f.
          (f, PStr (if f = ''authenticator'' then ''SNOWFLAKE_JWT'' else ''x''))) CONNECTION_FIELDS))]
        else if path = ''p.toml'' then Inr [(''schema_version'', PInt 1),
          (''profiles'', PDict [(''default'', PDict [(''allowed_views'', PList [PStr ''A.B.C''])])])]
        else Inl OSError),
      hs_keys = \<lparr>read_bytes = (\<lambda>path. Inr [1]), load_pem = (\<lambda>bs. Inr ()), load_der = (\<lambda>bs. Inr ()),
        is_rsa = (\<lambda>k. True), pkcs8_der = (\<lambda>k. Inr [2]), path_text = (\<lambda>s. s), error_text = (\<lambda>x. [])\<rparr>,
      hs_expanduser = Inr, hs_field_order = CONNECTION_FIELDS,
      hs_message = (\<lambda>path name x. ''unreadable '' @ path)\<rparr>"

theorem preflight_command_predicts_server_witness:
  "\<forall>(d :: (nat, nat, nat, nat) driver) st.
     fst (preflight_command sample_rules (\<lambda>x. ''no file'') sample_host d
       (named_profile ''c.toml'' ''p.toml'' ''default'') st) = Inr 0 \<and>
     Err (''Snowglobe preflight failed: '' @ ''no file'') \<in>
       set (fst (snd (preflight_command sample_rules (\<lambda>x. ''no file'') sample_host d
         (named_profile ''c.toml'' ''missing.toml'' ''default'') st)))"
proof (intro allI conjI)
  fix d :: "(nat, nat, nat, nat) driver" and st :: "(nat, nat) preflight_state"
  let ?compose = "Inr :: (nat, nat, string) runtime \<times> (nat, nat) query_admission option \<Rightarrow>
    ((nat, nat, string) runtime \<times> (nat, nat) query_admission option) result"
  let ?server = "server_command sample_rules (\<lambda>x. ''no file'') sample_host ?compose (\<lambda>app address. Inr ())"
  note agree = preflight_command_predicts_server[where compose = ?compose and serve = "\<lambda>app address. Inr ()"
      and v = sample_rules and text_of = "\<lambda>x. ''no file''" and h = sample_host and name = "''default''"
      and d = d and st = st and connections = "''c.toml''" and m = "''no file''"]
  have "fst (?server (named_profile ''c.toml'' ''p.toml'' ''default'')) = Inr 0" by code_simp
  then show "fst (preflight_command sample_rules (\<lambda>x. ''no file'') sample_host d
      (named_profile ''c.toml'' ''p.toml'' ''default'') st) = Inr 0"
    using agree[where config = "''p.toml''"] by simp
  have "list_ex (\<lambda>line. line = Err (''Snowglobe startup failed: '' @ ''no file''))
      (snd (?server (named_profile ''c.toml'' ''missing.toml'' ''default'')))" by code_simp
  then have "Err (''Snowglobe startup failed: '' @ ''no file'') \<in>
      set (snd (?server (named_profile ''c.toml'' ''missing.toml'' ''default'')))"
    unfolding list_ex_iff by blast
  then show "Err (''Snowglobe preflight failed: '' @ ''no file'') \<in>
      set (fst (snd (preflight_command sample_rules (\<lambda>x. ''no file'') sample_host d
        (named_profile ''c.toml'' ''missing.toml'' ''default'') st)))"
    using agree[where config = "''missing.toml''"] by simp
qed

end
