(* ===== verification/Application.thy ===== *)
theory Application
  imports Runtime Result_Api Mcp_Gateway
begin

text \<open>
  The HTTP application (\<open>create_app\<close> of \<open>result_api.py\<close> and \<open>local_server.py\<close>, \<open>create_server\<close> of
  \<open>mcp_gateway.py\<close>): the route tables, what each route runs, and the one process state the agent's
  and the viewer's side share.  Matching a path against the table is Starlette's.
\<close>

section \<open>Route tables\<close>

datatype endpoint = Ep_health | Ep_list | Ep_open | Ep_stream | Ep_mcp nat

record route =
  route_path :: string
  route_methods :: "string list"
  route_endpoint :: endpoint

definition get_route :: "string \<Rightarrow> endpoint \<Rightarrow> route" where
  "get_route path ep = \<lparr>route_path = path, route_methods = [''GET''], route_endpoint = ep\<rparr>"

definition RESULT_ROUTES :: "route list" where
  "RESULT_ROUTES =
     [get_route ''/healthz'' Ep_health,
      get_route ''/v1/requests'' Ep_list,
      get_route ''/v1/requests/{request_id}'' Ep_open,
      get_route ''/v1/requests/{request_id}/stream'' Ep_stream]"

record ('s, 'c) result_app =
  ra_routes :: "route list"
  ra_broker :: "('s, 'c) broker"
  ra_limits :: limits

definition create_result_api :: "('s, 'c) broker \<Rightarrow> limits \<Rightarrow> ('s, 'c) result_app" where
  "create_result_api b l = \<lparr>ra_routes = RESULT_ROUTES, ra_broker = b, ra_limits = l\<rparr>"

text \<open>What a matched viewer route runs; \<open>i\<close> is its path parameter.\<close>

definition STREAM_CONTENT_TYPE :: string where
  "STREAM_CONTENT_TYPE = ''application/vnd.snowglobe.arrow-stream''"

definition serve_route ::
  "env \<Rightarrow> endpoint \<Rightarrow> string \<Rightarrow> ('s, 'c) broker \<Rightarrow> ((response + 's) \<times> ('s, 'c) broker) option" where
  "serve_route e ep i b =
     (case ep of
        Ep_health \<Rightarrow> Some (Inl health, b)
      | Ep_list \<Rightarrow> (case list_route e b of (r, b') \<Rightarrow> Some (Inl r, b'))
      | Ep_open \<Rightarrow> (case open_request e i b of (r, b') \<Rightarrow> Some (Inl r, b'))
      | Ep_stream \<Rightarrow> Some (stream_request e i b)
      | Ep_mcp n \<Rightarrow> None)"

section \<open>The MCP server\<close>

record ('s, 'c, 'w) mcp_server =
  srv_name :: string
  srv_version :: string
  srv_list_tools :: "tool list"
  srv_call_tool :: "string \<Rightarrow> (string, pyval) odict option \<Rightarrow> ('s, 'c, 'w) runtime \<Rightarrow>
    (call_tool_result result \<times> ('s, 'c, 'w) runtime) option"

definition create_server ::
  "env \<Rightarrow> 'w admission \<Rightarrow> unit result \<Rightarrow> ('s, 'c, 'w) mcp_server" where
  "create_server e adm spawn =
     \<lparr>srv_name = ''Snowglobe'', srv_version = ''0.1.0'', srv_list_tools = list_tools,
      srv_call_tool = call_tool e adm spawn\<rparr>"

section \<open>The combined application\<close>

text \<open>The viewer's routes are put before those of the MCP application, so they match first.\<close>

record ('s, 'c, 'w) local_app =
  la_routes :: "route list"
  la_server :: "('s, 'c, 'w) mcp_server"
  la_broker :: "('s, 'c) broker"
  la_limits :: limits
  la_runtime :: "('s, 'c, 'w) runtime"

definition create_app ::
  "env \<Rightarrow> 'w admission \<Rightarrow> unit result \<Rightarrow> route list \<Rightarrow> ('s, 'c, 'w) runtime \<Rightarrow>
   ('s, 'c, 'w) local_app"
where
  "create_app e adm spawn mcp_routes rt =
     (let api = create_result_api (rt_broker rt) MVP_ARROW_LIMITS in
      \<lparr>la_routes = ra_routes api @ mcp_routes, la_server = create_server e adm spawn,
       la_broker = ra_broker api, la_limits = ra_limits api, la_runtime = rt\<rparr>)"

section \<open>Facts\<close>

text \<open>The viewer's surface is read-only: every route answers \<open>GET\<close> and nothing else.\<close>

lemma viewer_routes_read_only: "list_all (\<lambda>r. route_methods r = [''GET'']) RESULT_ROUTES"
  by (simp add: RESULT_ROUTES_def get_route_def)

lemma viewer_routes_distinct: "distinct (map route_path RESULT_ROUTES)"
  by (simp add: RESULT_ROUTES_def get_route_def)

text \<open>Every answer but the stream itself forbids caching.\<close>

lemma viewer_answers_not_cached:
  assumes "serve_route e ep i b = Some (Inl r, b')"
  shows "headers r = RESPONSE_HEADERS"
  using assms
  by (cases ep)
    (auto simp: serve_route_def health_def list_route_def open_request_def stream_request_def
      json_response_def not_found_def unavailable_def split: prod.splits sum.splits if_splits)

text \<open>Agent and viewer share one broker.\<close>

lemma one_broker: "la_broker (create_app e adm spawn ms rt) = rt_broker (la_runtime (create_app e adm spawn ms rt))"
  by (simp add: create_app_def Let_def create_result_api_def)

text \<open>Serving a viewer is one of the broker's reading calls, so it keeps the broker's invariant.\<close>

lemma serve_route_calls:
  assumes "serve_route e ep i b = Some (out, b')"
  shows "b' = b \<or> b' = snd (list_requests e b) \<or> b' = snd (get_request e i b) \<or>
    b' = snd (open_source e i b)"
proof -
  obtain m b1 where l: "list_requests e b = (m, b1)" by fastforce
  obtain v b2 where g: "get_request e i b = (v, b2)" by fastforce
  obtain s b3 where o: "open_source e i b = (s, b3)" by fastforce
  show ?thesis
    using assms l g o
    by (cases ep; cases m; cases v; cases s)
      (auto simp: serve_route_def list_route_def open_request_def stream_request_def)
qed

lemma serve_route_inv:
  assumes "serve_route e ep i b = Some (out, b')" and "broker_inv b"
  shows "broker_inv b'"
  using serve_route_calls[OF assms(1)] assms(2)
    store_evolves_inv[OF op_evolves(5)[OF broker_inv_distinct[OF assms(2)], of e i]]
    store_evolves_inv[OF op_evolves(6)[OF broker_inv_distinct[OF assms(2)], of e i]]
    store_evolves_inv[OF op_evolves(7)[OF broker_inv_distinct[OF assms(2)], of e]]
  by auto

end
