(* ===== verification/Cli.thy ===== *)
theory Cli
  imports Mcp_Gateway Argparse
begin

text \<open>
  The shell adapter (\<open>src/snowglobe/cli.py\<close>): its argument parser, the MCP client session around one
  call of a tool, and the receipt it prints.  What standard input holds and what the MCP library's
  client answers are arguments; the adapter is its own process and draws at most one identifier,
  the first of its entropy source.
\<close>

section \<open>Commands\<close>

datatype command = Cmd_submit int | Cmd_status string

text \<open>\<open>_ArgumentParser\<close> raises \<open>_InvalidCommand\<close> in place of exiting, and so do its subcommands' parsers.\<close>

definition submit_parser :: arg_parser where
  "submit_parser =
     \<lparr>ap_options =
        [help_option,
         \<lparr>opt_strings = [''--ttl''], opt_dest = ''ttl'',
          opt_action = Store (\<lambda>s. map_option PInt (py_int s))\<rparr>],
      ap_positional = None, ap_defaults = [(''ttl'', PNone)], ap_required = [''ttl''],
      ap_error = InvalidCommand\<rparr>"

definition status_parser :: arg_parser where
  "status_parser =
     \<lparr>ap_options = [help_option], ap_positional = Some (Single ''request_id''),
      ap_defaults = [(''request_id'', PNone)], ap_required = [], ap_error = InvalidCommand\<rparr>"

definition cli_parser :: "rules \<Rightarrow> arg_parser" where
  "cli_parser v =
     \<lparr>ap_options = [help_option],
      ap_positional = Some (Commands ''command''
        [(''submit'', parse_known_args v submit_parser), (''status'', parse_known_args v status_parser)]),
      ap_defaults = [(''command'', PNone)], ap_required = [], ap_error = InvalidCommand\<rparr>"

text \<open>The attributes of the namespace as \<open>_run\<close> reads them.\<close>

definition command_of :: "namespace \<Rightarrow> command result" where
  "command_of ns =
     (if map_of ns ''command'' = Some (PStr ''submit'') then
        (case map_of ns ''ttl'' of Some (PInt n) \<Rightarrow> Inr (Cmd_submit n) | _ \<Rightarrow> Inl TypeError)
      else (case map_of ns ''request_id'' of Some (PStr i) \<Rightarrow> Inr (Cmd_status i) | _ \<Rightarrow> Inl TypeError))"

definition parse_command :: "rules \<Rightarrow> string list \<Rightarrow> command result" where
  "parse_command v raw = then_do (parse_args v (cli_parser v) raw) command_of"

section \<open>The session\<close>

text \<open>
  The MCP client library: the two asynchronous contexts and the calls in between.  An \<open>__aexit__\<close>
  is given the exception that ends its block, if any, and answers whether it swallows it.
\<close>

record ('t, 'h) mcp_client =
  mc_streams :: "string \<Rightarrow> bool \<Rightarrow> 't result"
  mc_close_streams :: "'t \<Rightarrow> py_exn option \<Rightarrow> bool result"
  mc_session :: "'t \<Rightarrow> 'h result"
  mc_close_session :: "'h \<Rightarrow> py_exn option \<Rightarrow> bool result"
  mc_initialize :: "'h \<Rightarrow> unit result"
  mc_call_tool :: "'h \<Rightarrow> string \<Rightarrow> (string, pyval) odict \<Rightarrow> pyval result"

text \<open>
  \<open>async with\<close> around a block that returns a value; a swallowed exception ends the function
  without one, so it returns \<open>None\<close>.
\<close>

definition async_with :: "(py_exn option \<Rightarrow> bool result) \<Rightarrow> pyval result \<Rightarrow> pyval result" where
  "async_with leave body =
     (case body of
        Inr v \<Rightarrow> then_do (leave None) (\<lambda>_. Inr v)
      | Inl x \<Rightarrow> then_do (leave (Some x)) (\<lambda>swallowed. if swallowed then Inr PNone else Inl x))"

definition MCP_URL :: string where "MCP_URL = ''http://127.0.0.1:8000/mcp''"

text \<open>\<open>_invoke\<close>: the structured content of the tool's result, \<open>PNone\<close> when it has none.\<close>

definition cli_invoke ::
  "('t, 'h) mcp_client \<Rightarrow> string \<Rightarrow> (string, pyval) odict \<Rightarrow> pyval result" where
  "cli_invoke client name args =
     then_do (mc_streams client MCP_URL False) (\<lambda>streams.
       async_with (mc_close_streams client streams)
         (then_do (mc_session client streams) (\<lambda>session.
            async_with (mc_close_session client session)
              (then_do (mc_initialize client session) (\<lambda>_. mc_call_tool client session name args)))))"

text \<open>What \<open>_run\<close> needs of it.\<close>

type_synonym session = "string \<Rightarrow> (string, pyval) odict \<Rightarrow> pyval result"

section \<open>Running a command\<close>

definition cli_id :: "env \<Rightarrow> string" where
  "cli_id e = token_urlsafe (entropy_at e 0)"

definition cli_rejected :: "env \<Rightarrow> reason_code \<Rightarrow> query_receipt result" where
  "cli_rejected e reason = new_query_receipt REJECTED (cli_id e) reason None"

definition cli_invalid_status :: "env \<Rightarrow> query_status_receipt result" where
  "cli_invalid_status e = new_status_receipt (cli_id e) LC_NOT_FOUND"

text \<open>\<open>except Exception\<close>: any other exception goes on.\<close>

definition except_exception :: "'a result \<Rightarrow> 'a result \<Rightarrow> 'a result" where
  "except_exception r handler =
     (case r of Inr v \<Rightarrow> Inr v | Inl x \<Rightarrow> if is_Exception x then handler else Inl x)"

definition run_submit :: "env \<Rightarrow> session \<Rightarrow> int \<Rightarrow> string \<Rightarrow> query_receipt result" where
  "run_submit e invoke ttl sql =
     (let requested_ttl = (case timedelta_of_seconds ttl of Inr d \<Rightarrow> d | Inl x \<Rightarrow> 0) in
      if sql = [] \<or> requested_ttl \<le> 0 then cli_rejected e INVALID_REQUEST
      else except_exception
             (then_do (invoke SUBMIT_TOOL_NAME [(''sql'', PStr sql), (''requested_ttl'', PInt ttl)])
                query_receipt_validate)
             (cli_rejected e SERVICE_UNAVAILABLE))"

definition run_status :: "env \<Rightarrow> session \<Rightarrow> string \<Rightarrow> query_status_receipt result" where
  "run_status e invoke i =
     (case new_status_receipt i LC_NOT_FOUND of
        Inl x \<Rightarrow> if is_Exception x then cli_invalid_status e else Inl x
      | Inr valid \<Rightarrow>
          except_exception
            (then_do (invoke STATUS_TOOL_NAME [(''request_id'', PStr i)]) (\<lambda>content.
             then_do (status_receipt_validate content) (\<lambda>receipt.
               if qs_request_id receipt \<noteq> qs_request_id valid then Inl ValueError else Inr receipt)))
            (new_status_receipt (qs_request_id valid) LC_SERVICE_UNAVAILABLE))"

section \<open>main\<close>

text \<open>The line a receipt is printed as: its compact JSON.\<close>

definition query_line :: "query_receipt \<Rightarrow> string" where
  "query_line r = json_object (query_receipt_dump r)"

definition status_line :: "query_status_receipt \<Rightarrow> string" where
  "status_line r = json_object (status_receipt_dump r)"

definition invalid_command_line :: "env \<Rightarrow> string list \<Rightarrow> string result" where
  "invalid_command_line e raw =
     (if take 1 raw = [''status''] then then_do (cli_invalid_status e) (\<lambda>r. Inr (status_line r))
      else then_do (cli_rejected e INVALID_REQUEST) (\<lambda>r. Inr (query_line r)))"

text \<open>
  The exit status and the one line printed, or the exception that ends the process.  Standard
  input is read only for a submission.
\<close>

definition cli_main ::
  "env \<Rightarrow> rules \<Rightarrow> string result \<Rightarrow> ('t, 'h) mcp_client \<Rightarrow> string list \<Rightarrow> (nat \<times> string) result"
where
  "cli_main e v stdin client raw =
     then_do
       (case parse_command v raw of
          Inl x \<Rightarrow> if x = InvalidCommand then invalid_command_line e raw else Inl x
        | Inr (Cmd_submit ttl) \<Rightarrow>
            then_do stdin (\<lambda>sql. then_do (run_submit e (cli_invoke client) ttl sql) (\<lambda>r. Inr (query_line r)))
        | Inr (Cmd_status i) \<Rightarrow> then_do (run_status e (cli_invoke client) i) (\<lambda>r. Inr (status_line r)))
       (\<lambda>line. Inr (0, line))"

end
