(* ===== verification/Cli_Props.thy ===== *)
theory Cli_Props
  imports Cli
begin

text \<open>
  What the shell adapter makes of a command line, and that it always answers with one closed
  receipt: its parser dispatches to the subcommand, raises nothing but \<open>_InvalidCommand\<close> unless an
  argument asks for help, and reads an identifier that begins with a dash as an option.
\<close>

section \<open>What the parser makes of a command line\<close>

lemma cli_options_exit [simp]:
  "only_help_exits (ap_options submit_parser)" "only_help_exits (ap_options status_parser)"
  "only_help_exits (ap_options (cli_parser v))"
  by (simp_all add: only_help_exits_def submit_parser_def status_parser_def cli_parser_def)

lemma cli_parser_errors [simp]:
  "ap_error submit_parser = InvalidCommand" "ap_error status_parser = InvalidCommand"
  "ap_error (cli_parser v) = InvalidCommand"
  by (simp_all add: submit_parser_def status_parser_def cli_parser_def)

lemma cli_commands_exit [simp]: "commands_exit_on_help InvalidCommand (ap_positional (cli_parser v))"
  unfolding cli_parser_def arg_parser.simps
  by (rule commands_exit_on_help_intro[where v = v])
    (auto simp: submit_parser_def status_parser_def only_help_exits_def)

text \<open>Only the help option interprets an argument of the main parser, so none is ambiguous.\<close>

lemma help_only_tuples:
  assumes "take 1 s = ''-''" and "length s \<noteq> 1"
  shows "length (option_tuples [help_option] s) \<le> 1"
proof (cases "take 1 (drop 1 s) = ''-''")
  case True
  then obtain t where s: "s = CHR ''-'' # CHR ''-'' # t"
    using assms(1) by (cases s; cases "tl s") auto
  obtain p ex where sp: "split_eq s = (p, ex)" by fastforce
  then have p: "p = CHR ''-'' # CHR ''-'' # takeWhile (\<lambda>ch. ch \<noteq> CHR ''='') t"
    by (auto simp: split_eq_def s)
  with True sp show ?thesis
    by (simp add: option_tuples_def option_names_def help_option_def is_prefix_def)
next
  case False
  then obtain ch t where "s = CHR ''-'' # ch # t" "ch \<noteq> CHR ''-''"
    using assms by (cases s; cases "tl s") auto
  then show ?thesis by (auto simp: option_tuples_def option_names_def help_option_def is_prefix_def)
qed

lemma help_only_unambiguous: "\<not> is_ambiguous (parse_optional v [help_option] s)"
  using help_only_tuples[of s]
  by (auto simp: parse_optional_def split: option.splits prod.splits if_splits)

lemma classify_unambiguous: "\<not> list_ex is_ambiguous (classify v [help_option] args)"
  by (induction args) (auto simp: help_only_unambiguous list_ex_iff)

text \<open>The first argument selects the subcommand, whose parser gets all the others.\<close>

lemma cli_parser_dispatch:
  assumes "map_of [(''submit'', submit_parser), (''status'', status_parser)] name = Some sub"
  shows "parse_args v (cli_parser v) (name # args) =
    then_do (parse_known_args v sub args) (\<lambda>(values, extras).
      if extras \<noteq> [] then Inl InvalidCommand
      else Inr (AList.merge [(''command'', PStr name)] values))"
proof -
  define cmds where
    "cmds = [(''submit'', parse_known_args v submit_parser), (''status'', parse_known_args v status_parser)]"
  let ?toks = "classify v [help_option] args"
  have name: "name = ''submit'' \<or> name = ''status''" "map_of cmds name = Some (parse_known_args v sub)"
    using assms by (auto simp: cmds_def split: if_splits)
  then have "take 1 name \<noteq> ''-''" "name \<noteq> ''--''" by auto
  then have toks: "classify v [help_option] (name # args) = Tok_arg name # ?toks"
    by (simp add: parse_optional_plain)
  define st where "st = parse_start (cli_parser v)"
  have cp: "consume_positional v InvalidCommand (Tok_arg name # ?toks) st =
      Some (run_command v InvalidCommand ''command'' cmds name args (st\<lparr>ps_positional := None\<rparr>), [])"
    by (simp add: consume_positional_def st_def parse_start_def cli_parser_def cmds_def classify_strings)
  have ended: "ps_positional st' = None"
    if "run_command v InvalidCommand ''command'' cmds name args (st\<lparr>ps_positional := None\<rparr>) = Inr st'" for st'
    using consume_positional_state[OF cp[unfolded that]] by simp
  have loop: "parse_loop v (cli_parser v) (Tok_arg name # ?toks) st =
      run_command v InvalidCommand ''command'' cmds name args (st\<lparr>ps_positional := None\<rparr>)"
  proof (cases "list_ex is_option ?toks")
    case False
    with cp show ?thesis
      by (auto simp: parse_loop_last then_do_def add_extras_def split: sum.splits)
  next
    case True
    have rest: "parse_loop v (cli_parser v) [] st' = Inr st'"
      if "run_command v InvalidCommand ''command'' cmds name args (st\<lparr>ps_positional := None\<rparr>) = Inr st'" for st'
      using ended[OF that] by (simp add: parse_loop_last consume_positional_def add_extras_def)
    with True cp show ?thesis
      by (auto simp: parse_loop_positional split: sum.splits)
  qed
  have options: "ap_options (cli_parser v) = [help_option]" by (simp add: cli_parser_def)
  have start: "\<lparr>ps_positional = ap_positional (cli_parser v), ps_values = ap_defaults (cli_parser v),
      ps_seen = [], ps_extras = [], ps_unrecognized = []\<rparr> = st"
    by (simp add: st_def parse_start_def)
  have "parse_known_args v (cli_parser v) (name # args) =
      then_do (run_command v InvalidCommand ''command'' cmds name args (st\<lparr>ps_positional := None\<rparr>))
        (\<lambda>st'. Inr (ps_values st', ps_extras st' @ ps_unrecognized st'))"
    unfolding parse_known_args_def Let_def options toks start loop
    using classify_unambiguous[of v args] ended
    by (cases "run_command v InvalidCommand ''command'' cmds name args (st\<lparr>ps_positional := None\<rparr>)")
      (auto simp: cli_parser_def)
  then show ?thesis
    by (cases "parse_known_args v sub args")
      (auto simp: parse_args_def run_command_def name(2) st_def parse_start_def cli_parser_def)
qed

text \<open>What a subcommand's parser sets when it succeeds.\<close>

lemma submit_sets_ttl:
  assumes "parse_known_args v submit_parser args = Inr (values, extras)"
  obtains n where "map_of values ''ttl'' = Some (PInt n)" "map_of values ''command'' = None"
proof -
  define I :: "parse_state \<Rightarrow> bool" where "I st \<longleftrightarrow> ps_positional st = None \<and> map_of (ps_values st) ''command'' = None \<and>
    (''ttl'' \<in> set (ps_seen st) \<longrightarrow> (\<exists>n. map_of (ps_values st) ''ttl'' = Some (PInt n)))" for st
  have act: "I st'" if "fst todo \<in> set (ap_options submit_parser)" "I st"
    "act (ap_error submit_parser) todo st = Inr st'" for todo st st'
    using that unfolding I_def
    by (cases todo; cases "snd todo")
      (auto simp: submit_parser_def act_def help_option_def set_value_def AList.update_conv'
        Let_def split: option.splits)
  have pos: "I st'" if "I st"
    "consume_positional v (ap_error submit_parser) toks st = Some (Inr st', rest)" for toks st st' rest
    using that by (simp add: I_def consume_positional_def)
  have extra: "I (add_extras ss st)" if "I st" for st ss using that by (simp add: I_def add_extras_def)
  have start: "I (parse_start submit_parser)" by (simp add: I_def parse_start_def submit_parser_def)
  obtain st where "I st" "values = ps_values st" "set (ap_required submit_parser) \<subseteq> set (ps_seen st)"
    by (rule parse_known_args_sets[where I = I, OF assms cli_options_exit(1) start act pos extra])
  then show thesis using that by (auto simp: I_def submit_parser_def)
qed

lemma status_sets_id:
  assumes "parse_known_args v status_parser args = Inr (values, extras)"
  obtains i where "map_of values ''request_id'' = Some (PStr i)" "map_of values ''command'' = None"
proof -
  define I :: "parse_state \<Rightarrow> bool" where "I st \<longleftrightarrow> map_of (ps_values st) ''command'' = None \<and>
    (case ps_positional st of
       None \<Rightarrow> \<exists>i. map_of (ps_values st) ''request_id'' = Some (PStr i)
     | Some pos \<Rightarrow> pos = Single ''request_id'')" for st
  have act: "I st'" if "fst todo \<in> set (ap_options status_parser)" "I st"
    "act (ap_error status_parser) todo st = Inr st'" for todo st st'
    using that by (cases todo) (auto simp: status_parser_def act_def help_option_def Let_def)
  have pos: "I st'" if "I st"
    "consume_positional v (ap_error status_parser) toks st = Some (Inr st', rest)" for st st' toks rest
    using that unfolding I_def
    by (auto simp: consume_positional_def Let_def set_value_def AList.update_conv'
        split: option.splits list.splits token.splits)
  have extra: "I (add_extras ss st)" if "I st" for st ss
    using that by (cases "ps_positional st") (simp_all add: I_def add_extras_def)
  have start: "I (parse_start status_parser)" by (simp add: I_def parse_start_def status_parser_def)
  obtain st where "I st" "values = ps_values st" "ps_positional st = None"
    by (rule parse_known_args_sets[where I = I, OF assms cli_options_exit(2) start act pos extra])
  then show thesis using that by (auto simp: I_def)
qed

lemma merged_lookup [simp]:
  "map_of (AList.merge xs ys) k = (case map_of ys k of None \<Rightarrow> map_of xs k | Some x \<Rightarrow> Some x)"
  by (simp add: merge_conv' map_add_def)

text \<open>So a command line that parses is a command.\<close>

lemma cli_parser_sets:
  assumes "parse_args v (cli_parser v) raw = Inr ns"
  shows "is_ok (command_of ns)"
proof -
  define I :: "parse_state \<Rightarrow> bool" where "I st \<longleftrightarrow> (case ps_positional st of
       None \<Rightarrow> is_ok (command_of (ps_values st))
     | Some pos \<Rightarrow> Some pos = ap_positional (cli_parser v))" for st
  obtain extras where known: "parse_known_args v (cli_parser v) raw = Inr (ns, extras)"
    using assms by (auto simp: parse_args_def then_do_Inr_iff split: if_splits)
  have act: "I st'" if "fst todo \<in> set (ap_options (cli_parser v))" "I st"
    "act (ap_error (cli_parser v)) todo st = Inr st'" for todo st st'
    using that by (cases todo) (auto simp: cli_parser_def act_def help_option_def Let_def)
  have run: "is_ok (command_of (ps_values st'))"
    if "run_command v err ''command''
      [(''submit'', parse_known_args v submit_parser), (''status'', parse_known_args v status_parser)]
      name args st = Inr st'" for err name args st st'
    using that
    by (auto simp: run_command_def then_do_Inr_iff command_of_def AList.update_conv'
        split: option.splits if_splits elim!: submit_sets_ttl status_sets_id)
  have pos: "I st'" if "I st"
    "consume_positional v (ap_error (cli_parser v)) toks st = Some (Inr st', rest)" for st st' toks rest
  proof -
    have "ps_positional st' = None" using consume_positional_state[OF that(2)] by simp
    moreover have "is_ok (command_of (ps_values st'))"
      using that unfolding I_def
      by (auto simp: consume_positional_def Let_def cli_parser_def
          split: option.splits list.splits token.splits if_splits dest!: run)
    ultimately show ?thesis by (simp add: I_def)
  qed
  have extra: "I (add_extras ss st)" if "I st" for st ss
    using that by (auto simp: I_def add_extras_def split: option.splits)
  have start: "I (parse_start (cli_parser v))" by (simp add: I_def parse_start_def cli_parser_def)
  obtain st where "I st" "ns = ps_values st" "ps_positional st = None"
    by (rule parse_known_args_sets[where I = I, OF known cli_options_exit(3) start act pos extra])
  then show ?thesis by (simp add: I_def)
qed

lemma parse_command_Inl:
  assumes "parse_command v raw = Inl x"
  shows "x = InvalidCommand \<or> x = SystemExit \<and> list_ex asks_help raw"
proof (cases "parse_args v (cli_parser v) raw")
  case (Inl y)
  with assms parse_args_exit[OF Inl] show ?thesis by (auto simp: parse_command_def)
next
  case (Inr ns)
  with assms cli_parser_sets[OF Inr] show ?thesis by (simp add: parse_command_def)
qed

section \<open>Receipts\<close>

lemma cli_id_pattern [simp]: "good_entropy e \<Longrightarrow> request_id_pattern (cli_id e)"
  by (simp add: cli_id_def good_entropy_pattern)

lemma cli_rejected_eq:
  "good_entropy e \<Longrightarrow> reason \<noteq> NONE \<Longrightarrow> \<exists>r. cli_rejected e reason = Inr r \<and> valid_query_receipt r \<and>
     qr_status r = REJECTED \<and> qr_governed_sql r = None"
  by (simp add: cli_rejected_def valid_rejected valid_query_receipt_def governed_sql_field_def
      consistent_submission_def)

text \<open>A session that raises nothing but exceptions of class \<open>Exception\<close>.\<close>

definition session_raises_exceptions :: "session \<Rightarrow> bool" where
  "session_raises_exceptions invoke \<longleftrightarrow> (\<forall>name args x. invoke name args = Inl x \<longrightarrow> is_Exception x)"

text \<open>Validation raises nothing but \<open>ValidationError\<close>.\<close>

lemma field_raises:
  "exact_fields names content = Inl x \<Longrightarrow> x = ValidationError"
  "str_field d k = Inl x \<Longrightarrow> x = ValidationError"
  "opt_str_field d k = Inl x \<Longrightarrow> x = ValidationError"
  by (auto simp: exact_fields_def str_field_def opt_str_field_def
      split: pyval.splits option.splits if_splits)

lemma enum_field_raises: "enum_field val members d k = Inl x \<Longrightarrow> x = ValidationError"
proof (cases "str_field d k")
  case (Inr s)
  then show "enum_field val members d k = Inl x \<Longrightarrow> ?thesis"
    by (cases "enum_lookup val members s") (simp_all add: enum_field_def)
qed (auto simp: enum_field_def dest: field_raises)

lemma new_status_receipt_Inl: "new_status_receipt i st = Inl x \<Longrightarrow> x = ValidationError"
  by (auto simp: new_status_receipt_def split: if_splits)

lemmas validation_raises = field_raises enum_field_raises new_query_receipt_Inl new_status_receipt_Inl

lemma query_receipt_validate_Inl: "query_receipt_validate content = Inl x \<Longrightarrow> x = ValidationError"
  unfolding query_receipt_validate_def then_do_Inl_iff by (blast dest: validation_raises)

lemma status_receipt_validate_Inl: "status_receipt_validate content = Inl x \<Longrightarrow> x = ValidationError"
  unfolding status_receipt_validate_def then_do_Inl_iff by (blast dest: validation_raises)

lemma run_submit_closed:
  assumes "good_entropy e" and "session_raises_exceptions invoke"
  obtains r where "run_submit e invoke ttl sql = Inr r" "valid_query_receipt r"
    "qr_status r = ACCEPTED \<longrightarrow>
      (\<exists>content. invoke SUBMIT_TOOL_NAME [(''sql'', PStr sql), (''requested_ttl'', PInt ttl)] = Inr content \<and>
         query_receipt_validate content = Inr r)"
proof -
  let ?call = "invoke SUBMIT_TOOL_NAME [(''sql'', PStr sql), (''requested_ttl'', PInt ttl)]"
  let ?bad = "sql = [] \<or> (case timedelta_of_seconds ttl of Inr d \<Rightarrow> d | Inl x \<Rightarrow> 0) \<le> 0"
  obtain r1 where r1: "cli_rejected e INVALID_REQUEST = Inr r1" "valid_query_receipt r1" "qr_status r1 = REJECTED"
    using cli_rejected_eq[OF assms(1), of INVALID_REQUEST] by auto
  obtain r2 where r2: "cli_rejected e SERVICE_UNAVAILABLE = Inr r2" "valid_query_receipt r2" "qr_status r2 = REJECTED"
    using cli_rejected_eq[OF assms(1), of SERVICE_UNAVAILABLE] by auto
  show ?thesis
  proof (cases ?bad)
    case True
    with r1 that[of r1] show ?thesis by (simp add: run_submit_def Let_def)
  next
    case False
    show ?thesis
    proof (cases "then_do ?call query_receipt_validate")
      case (Inl x)
      then have "is_Exception x"
        using assms(2) query_receipt_validate_Inl
        by (fastforce simp: then_do_Inl_iff session_raises_exceptions_def is_Exception_def)
      with Inl False r2 that[of r2] show ?thesis by (simp add: run_submit_def Let_def except_exception_def)
    next
      case (Inr r)
      then have r: "\<exists>content. ?call = Inr content \<and> query_receipt_validate content = Inr r"
        by (simp add: then_do_Inr_iff)
      have "run_submit e invoke ttl sql = Inr r"
        using Inr False by (simp add: run_submit_def Let_def except_exception_def)
      moreover have "valid_query_receipt r" using r query_receipt_validate_Inr by blast
      ultimately show ?thesis using r that by blast
    qed
  qed
qed

lemma run_status_closed:
  assumes "good_entropy e" and "session_raises_exceptions invoke"
  obtains r where "run_status e invoke i = Inr r" "request_id_pattern (qs_request_id r)"
    "if request_id_pattern i then qs_request_id r = i else qs_status r = LC_NOT_FOUND"
proof (cases "request_id_pattern i")
  case False
  with assms(1) that show ?thesis
    by (simp add: run_status_def new_status_receipt_def is_Exception_def cli_invalid_status_def)
next
  case True
  let ?body = "then_do (invoke STATUS_TOOL_NAME [(''request_id'', PStr i)]) (\<lambda>content.
      then_do (status_receipt_validate content) (\<lambda>receipt.
        if qs_request_id receipt \<noteq> i then Inl ValueError else Inr receipt))"
  have run: "run_status e invoke i =
      except_exception ?body (Inr \<lparr>qs_request_id = i, qs_status = LC_SERVICE_UNAVAILABLE\<rparr>)"
    using True by (simp add: run_status_def new_status_receipt_def)
  show ?thesis
  proof (cases ?body)
    case (Inl x)
    then have "is_Exception x"
      using assms(2) status_receipt_validate_Inl
      by (fastforce simp: then_do_Inl_iff session_raises_exceptions_def is_Exception_def split: if_splits)
    with Inl run True that show ?thesis by (simp add: except_exception_def)
  next
    case (Inr r)
    then have "qs_request_id r = i" by (auto simp: then_do_Inr_iff split: if_splits)
    with Inr run True that show ?thesis by (simp add: except_exception_def)
  qed
qed

section \<open>Properties\<close>

text \<open>
  Property C27.  The command always ends with exit status 0 and prints one closed receipt: a line of
  JSON that validates as the receipt of its command, whatever the arguments, as long as none asks
  for help, and whatever the service answered or raised.  A submission is reported accepted only
  when the service answered that very receipt; a status receipt carries the identifier that was
  asked for, or, if it was malformed, a fresh one with \<open>not_found\<close>.
\<close>

theorem cli_prints_one_closed_receipt:
  assumes "good_entropy e" and "session_raises_exceptions (cli_invoke client)"
    and "\<not> list_ex asks_help raw"
  shows "\<exists>line d. cli_main e v (Inr sql) client raw = Inr (0, line) \<and> json_loads line = Some d \<and>
    (case parse_command v raw of
       Inl x \<Rightarrow>
         if take 1 raw = [''status''] then is_ok (status_receipt_validate (dump_content d))
         else is_ok (query_receipt_validate (dump_content d))
     | Inr (Cmd_submit ttl) \<Rightarrow>
         \<exists>r. query_receipt_validate (dump_content d) = Inr r \<and>
           (qr_status r = ACCEPTED \<longrightarrow>
             (\<exists>content. cli_invoke client SUBMIT_TOOL_NAME [(''sql'', PStr sql), (''requested_ttl'', PInt ttl)] =
                Inr content \<and> query_receipt_validate content = Inr r))
     | Inr (Cmd_status i) \<Rightarrow>
         \<exists>r. status_receipt_validate (dump_content d) = Inr r \<and>
           (if request_id_pattern i then qs_request_id r = i else qs_status r = LC_NOT_FOUND))"
proof (cases "parse_command v raw")
  case (Inl x)
  then have x: "x = InvalidCommand" using parse_command_Inl assms(3) by blast
  obtain r1 where r1: "cli_rejected e INVALID_REQUEST = Inr r1" "valid_query_receipt r1"
    using cli_rejected_eq[OF assms(1), of INVALID_REQUEST] by auto
  obtain r2 where r2: "cli_invalid_status e = Inr r2" "request_id_pattern (qs_request_id r2)"
    using assms(1) by (simp add: cli_invalid_status_def new_status_receipt_def)
  show ?thesis
    using Inl x r1 r2 query_receipt_validates[OF r1(2)] status_receipt_roundtrip[OF r2(2)]
    by (simp add: cli_main_def invalid_command_line_def query_line_def status_line_def)
next
  case (Inr cmd)
  show ?thesis
  proof (cases cmd)
    case (Cmd_submit ttl)
    obtain r where r: "run_submit e (cli_invoke client) ttl sql = Inr r" "valid_query_receipt r"
      "qr_status r = ACCEPTED \<longrightarrow>
        (\<exists>content. cli_invoke client SUBMIT_TOOL_NAME [(''sql'', PStr sql), (''requested_ttl'', PInt ttl)] =
           Inr content \<and> query_receipt_validate content = Inr r)"
      by (rule run_submit_closed[OF assms(1,2)])
    with Inr Cmd_submit query_receipt_validates[OF r(2)] show ?thesis
      by (simp add: cli_main_def query_line_def)
  next
    case (Cmd_status i)
    obtain r where r: "run_status e (cli_invoke client) i = Inr r" "request_id_pattern (qs_request_id r)"
      "if request_id_pattern i then qs_request_id r = i else qs_status r = LC_NOT_FOUND"
      by (rule run_status_closed[OF assms(1,2)])
    with Inr Cmd_status status_receipt_roundtrip[OF r(2)] show ?thesis
      by (simp add: cli_main_def status_line_def)
  qed
qed

text \<open>A service that cannot be reached.\<close>

definition offline_client :: "(unit, unit) mcp_client" where
  "offline_client =
     \<lparr>mc_streams = (\<lambda>url terminate. Inl OSError), mc_close_streams = (\<lambda>t x. Inr False),
      mc_session = (\<lambda>t. Inr ()), mc_close_session = (\<lambda>h x. Inr False),
      mc_initialize = (\<lambda>h. Inr ()), mc_call_tool = (\<lambda>h name args. Inl OSError)\<rparr>"

lemma good_entropy_steady: "good_entropy steady_env"
  by (simp add: good_entropy_def steady_env_def)

theorem cli_prints_one_closed_receipt_witness:
  "\<exists>line d. cli_main steady_env sample_rules (Inr []) offline_client [''status'', sample_id] = Inr (0, line) \<and>
     json_loads line = Some d \<and>
     (\<exists>r. status_receipt_validate (dump_content d) = Inr r \<and> qs_request_id r = sample_id)"
proof -
  have ses: "session_raises_exceptions (cli_invoke offline_client)"
    by (simp add: session_raises_exceptions_def offline_client_def cli_invoke_def is_Exception_def)
  have parse: "parse_command sample_rules [''status'', sample_id] = Inr (Cmd_status sample_id)"
    by code_simp
  have pat: "request_id_pattern sample_id" by code_simp
  have quiet: "\<not> list_ex asks_help [''status'', sample_id]" by code_simp
  from cli_prints_one_closed_receipt[where v = sample_rules and sql = "[]",
      OF good_entropy_steady ses quiet] show ?thesis
    by (simp only: parse sum.case command.case pat if_True)
qed

text \<open>What \<open>parse_args\<close> makes of \<open>status\<close> with one more argument, or two.\<close>

lemma parse_command_status:
  "parse_command v (''status'' # args) =
     then_do (parse_known_args v status_parser args) (\<lambda>(values, extras).
       if extras \<noteq> [] then Inl InvalidCommand
       else command_of (AList.merge [(''command'', PStr ''status'')] values))"
  using cli_parser_dispatch[of "''status''" status_parser v args]
  by (cases "parse_known_args v status_parser args") (auto simp: parse_command_def)

lemma status_options [simp]: "ap_options status_parser = [help_option]"
  by (simp add: status_parser_def)

lemma status_single:
  assumes "classify v [help_option] args = [Tok_arg i] \<or> classify v [help_option] args = [Tok_dashes, Tok_arg i]"
  shows "parse_command v (''status'' # args) = Inr (Cmd_status i)"
  using assms
  by (auto simp: parse_command_status parse_known_args_def parse_loop_last consume_positional_def
      set_value_def add_extras_def status_parser_def command_of_def)

lemma url_char_plain: "ch \<in> set i \<Longrightarrow> list_all url_char i \<Longrightarrow> ch \<noteq> CHR ''='' \<and> ch \<noteq> CHR '' ''"
  by (auto simp: list_all_iff url_char_def is_upper_def is_lower_def is_digit_char_def char_code_def)

lemma identifier_option:
  assumes "request_id_pattern i" and "take 1 i = ''-''" and "\<not> negative_number v i" and "\<not> asks_help i"
  shows "parse_optional v [help_option] i = Tok_opt i []"
proof -
  have long: "20 \<le> length i" using assms(1) by (simp add: request_id_pattern_def)
  have chars: "ch \<noteq> CHR ''='' \<and> ch \<noteq> CHR '' ''" if "ch \<in> set i" for ch
    using url_char_plain[OF that] assms(1) by (simp add: request_id_pattern_def)
  have dropped: "dropWhile (\<lambda>ch. ch \<noteq> CHR ''='') i = []" using chars by (auto simp: dropWhile_eq_Nil_conv)
  have taken: "takeWhile (\<lambda>ch. ch \<noteq> CHR ''='') i = i" using chars by (auto simp: takeWhile_eq_all_conv)
  have split: "split_eq i = (i, No_arg)" unfolding split_eq_def dropped taken by simp
  have names: "i \<noteq> ''-h''" "i \<noteq> ''--help''" using long by auto
  have prefix: "\<not> is_prefix i ''-h''" "\<not> is_prefix i ''--help''"
    using long by (auto simp: is_prefix_def)
  have short: "take 2 i \<noteq> ''-h''" using assms(4) by (simp add: asks_help_def)
  have "length (take 2 i) \<noteq> length ''--help''" using long by simp
  then have "take 2 i \<noteq> ''--help''" by (rule contrapos_nn) simp
  then have tuples: "option_tuples [help_option] i = []"
    using prefix short split by (auto simp: option_tuples_def option_names_def help_option_def)
  have unknown: "find_option [help_option] i = None"
    using names by (simp add: find_option_def help_option_def)
  have space: "CHR '' '' \<notin> set i" using chars by blast
  have "length i \<noteq> 1" using long by simp
  then show ?thesis using assms(2) by (simp add: parse_optional_def assms(3) unknown split tuples space)
qed

lemma status_option_rejected:
  assumes "parse_optional v [help_option] i = Tok_opt i []" and "i \<noteq> ''--''"
  shows "parse_command v [''status'', i] = Inl InvalidCommand"
  using assms
  by (simp add: parse_command_status parse_known_args_def parse_loop_option parse_loop_last
      consume_positional_def add_extras_def) (simp add: status_parser_def add_extras_def)

text \<open>
  Property C28.  Which identifiers \<open>snowglobe status\<close> can poll.  Given as it was returned, an
  identifier is read as the identifier when it does not begin with a dash; one that does, as one
  in sixty-four generated ones, is taken for an unknown option: the command answers \<open>not_found\<close>
  under a fresh identifier without asking the service.  After \<open>--\<close> every identifier is read.
\<close>

theorem cli_status_reads_identifier:
  assumes "request_id_pattern i"
  shows "parse_command v [''status'', ''--'', i] = Inr (Cmd_status i) \<and>
    (take 1 i \<noteq> ''-'' \<longrightarrow> parse_command v [''status'', i] = Inr (Cmd_status i)) \<and>
    (take 1 i = ''-'' \<and> \<not> negative_number v i \<and> \<not> asks_help i \<longrightarrow>
       cli_main e v stdin client [''status'', i] =
         then_do (cli_invalid_status e) (\<lambda>r. Inr (0, status_line r)))"
proof (intro conjI impI)
  show "parse_command v [''status'', ''--'', i] = Inr (Cmd_status i)"
    by (rule status_single) simp
  have "i \<noteq> ''--''" using assms by (auto simp: request_id_pattern_def)
  then show "parse_command v [''status'', i] = Inr (Cmd_status i)" if "take 1 i \<noteq> ''-''"
    by (intro status_single) (simp add: parse_optional_plain[OF that])
  assume "take 1 i = ''-'' \<and> \<not> negative_number v i \<and> \<not> asks_help i"
  with \<open>i \<noteq> ''--''\<close> have "parse_command v [''status'', i] = Inl InvalidCommand"
    by (intro status_option_rejected identifier_option assms) auto
  then show "cli_main e v stdin client [''status'', i] =
      then_do (cli_invalid_status e) (\<lambda>r. Inr (0, status_line r))"
    by (cases "cli_invalid_status e") (simp_all add: cli_main_def invalid_command_line_def)
qed

definition dashed_id :: string where "dashed_id = ''-bcdefghijklmnopqrstuvwx''"

theorem cli_status_reads_identifier_witness:
  "request_id_pattern dashed_id \<and>
   parse_command sample_rules [''status'', ''--'', dashed_id] = Inr (Cmd_status dashed_id) \<and>
   cli_main steady_env sample_rules (Inr []) offline_client [''status'', dashed_id] =
     Inr (0, status_line \<lparr>qs_request_id = sample_id, qs_status = LC_NOT_FOUND\<rparr>)"
proof -
  have pat: "request_id_pattern dashed_id" and dash: "take 1 dashed_id = ''-''"
    and quiet: "\<not> negative_number sample_rules dashed_id" "\<not> asks_help dashed_id" by code_simp+
  have fresh: "cli_invalid_status steady_env = Inr \<lparr>qs_request_id = sample_id, qs_status = LC_NOT_FOUND\<rparr>"
    by code_simp
  from cli_status_reads_identifier[OF pat, of sample_rules steady_env "Inr []" offline_client]
    pat dash quiet show ?thesis by (simp add: fresh)
qed

section \<open>From the shell to the control plane\<close>

text \<open>The call of a tool that a command makes.\<close>

definition command_call :: "string \<Rightarrow> command \<Rightarrow> string \<times> (string, pyval) odict" where
  "command_call sql cmd =
     (case cmd of
        Cmd_submit ttl \<Rightarrow> (SUBMIT_TOOL_NAME, [(''sql'', PStr sql), (''requested_ttl'', PInt ttl)])
      | Cmd_status i \<Rightarrow> (STATUS_TOOL_NAME, [(''request_id'', PStr i)]))"

definition call_accepted :: "string \<Rightarrow> (string, pyval) odict \<Rightarrow> bool" where
  "call_accepted name args \<longleftrightarrow>
     (if name = SUBMIT_TOOL_NAME then valid_arguments (Some args)
      else valid_status_arguments (Some args) \<noteq> None)"

lemma tool_names [simp]: "SUBMIT_TOOL_NAME \<noteq> STATUS_TOOL_NAME" "STATUS_TOOL_NAME \<noteq> SUBMIT_TOOL_NAME"
  by (simp_all add: SUBMIT_TOOL_NAME_def STATUS_TOOL_NAME_def)

lemma receipt_result_simps [simp]:
  "result_text (receipt_result d) = json_object d" "structured_content (receipt_result d) = d"
  by (simp_all add: receipt_result_def)

lemma submit_call_accepted:
  assumes "call_accepted SUBMIT_TOOL_NAME [(''sql'', PStr sql), (''requested_ttl'', PInt ttl)]"
  obtains d where "sql \<noteq> []" "timedelta_of_seconds ttl = Inr d" "0 < d"
proof -
  from assms have "sql \<noteq> []" "1 \<le> ttl" "is_ok (timedelta_of_seconds ttl)"
    by (auto simp: call_accepted_def valid_arguments_iff)
  moreover from this obtain d where "timedelta_of_seconds ttl = Inr d" by (auto simp: is_ok_Inr)
  ultimately show ?thesis using that[of d]
    by (auto simp: timedelta_of_seconds_def seconds_def split: if_splits)
qed

text \<open>
  Property C16.  The shell adapter relays the control plane.  When a command line parses and the
  gateway finds the call valid and answers it, and the session hands the adapter the structured
  content of that answer, the line printed is, character for character, the text the gateway
  answered with: nothing is added, dropped or changed on the way.
\<close>

theorem cli_relays_the_gateway:
  assumes "parse_command v raw = Inr cmd" and "command_call sql cmd = (name, args)"
    and "call_accepted name args"
    and "call_tool ge adm spawn name (Some args) st = Some (Inr out, st')"
    and "cli_invoke client name args = Inr (dump_content (structured_content out))"
    and "good_entropy ge" and "\<And>y. spawn = Inl y \<Longrightarrow> is_Exception y"
    and "\<forall>sql y. adm sql = Inl y \<longrightarrow> is_Exception y"
  shows "cli_main e v (Inr sql) client raw = Inr (0, result_text out)"
proof (cases cmd)
  case (Cmd_submit ttl)
  with assms(2) have name: "name = SUBMIT_TOOL_NAME"
    and args: "args = [(''sql'', PStr sql), (''requested_ttl'', PInt ttl)]"
    by (auto simp: command_call_def)
  obtain d where d: "sql \<noteq> []" "timedelta_of_seconds ttl = Inr d" "0 < d"
    using submit_call_accepted assms(3) name args by blast
  obtain r where r: "valid_query_receipt r" "out = receipt_result (query_receipt_dump r)"
    using call_tool_closed[OF assms(4,6,7,8)] by (auto simp: closed_result_def name)
  have "query_receipt_validate (dump_content (query_receipt_dump r)) = Inr r"
    by (rule query_receipt_validates[OF r(1)])
  then have "run_submit e (cli_invoke client) ttl sql = Inr r"
    using assms(5) d by (simp add: run_submit_def r(2) name args except_exception_def)
  with assms(1) Cmd_submit show ?thesis by (simp add: cli_main_def query_line_def r(2))
next
  case (Cmd_status i)
  with assms(2) have name: "name = STATUS_TOOL_NAME" and args: "args = [(''request_id'', PStr i)]"
    by (auto simp: command_call_def)
  have pat: "request_id_pattern i" and valid: "valid_status_arguments (Some args) = Some i"
    using assms(3) by (auto simp: call_accepted_def name args valid_status_arguments_iff)
  obtain s st1 where "control_status ge i st = (Inr \<lparr>qs_request_id = i, qs_status = s\<rparr>, st1)"
    by (rule control_status_valid[OF pat])
  then have out: "out = receipt_result (status_receipt_dump \<lparr>qs_request_id = i, qs_status = s\<rparr>)"
    using assms(4) valid by (simp add: call_tool_def call_tool_body_def name status_result_def)
  have "status_receipt_validate (dump_content (status_receipt_dump \<lparr>qs_request_id = i, qs_status = s\<rparr>)) =
      Inr \<lparr>qs_request_id = i, qs_status = s\<rparr>"
    using pat by (intro status_receipt_roundtrip) simp
  then have "run_status e (cli_invoke client) i = Inr \<lparr>qs_request_id = i, qs_status = s\<rparr>"
    using assms(5) pat
    by (simp add: run_status_def out name args except_exception_def new_status_receipt_def)
  with assms(1) Cmd_status show ?thesis by (simp add: cli_main_def status_line_def out)
qed

text \<open>A session in which every step succeeds and the tool's result is \<open>out\<close>.\<close>

definition online_client :: "call_tool_result \<Rightarrow> (unit, unit) mcp_client" where
  "online_client out =
     \<lparr>mc_streams = (\<lambda>url terminate. Inr ()), mc_close_streams = (\<lambda>t x. Inr False),
      mc_session = (\<lambda>t. Inr ()), mc_close_session = (\<lambda>h x. Inr False),
      mc_initialize = (\<lambda>h. Inr ()),
      mc_call_tool = (\<lambda>h name args. Inr (dump_content (structured_content out)))\<rparr>"

theorem cli_relays_the_gateway_witness:
  "\<exists>out st'. call_tool steady_env sample_admission (Inr ()) STATUS_TOOL_NAME
      (Some [(''request_id'', PStr sample_id)]) sample_runtime = Some (Inr out, st') \<and>
     map_of (structured_content out) ''status'' = Some (Some ''pending'') \<and>
     cli_main steady_env sample_rules (Inr []) (online_client out) [''status'', sample_id] =
       Inr (0, result_text out)"
proof -
  let ?args = "[(''request_id'', PStr sample_id)]"
  let ?out = "call_tool steady_env sample_admission (Inr ()) STATUS_TOOL_NAME (Some ?args) sample_runtime"
  have "map_option (\<lambda>(res, st). case res of Inr out \<Rightarrow> map_of (structured_content out) ''status'' | Inl x \<Rightarrow> None)
      ?out = Some (Some (Some ''pending''))" by code_simp
  then obtain res st' where res: "?out = Some (res, st')"
    "(case res of Inr out \<Rightarrow> map_of (structured_content out) ''status'' | Inl x \<Rightarrow> None) =
      Some (Some ''pending'')" by auto
  then obtain out where out: "?out = Some (Inr out, st')"
    "map_of (structured_content out) ''status'' = Some (Some ''pending'')"
    by (cases res) simp_all
  have parse: "parse_command sample_rules [''status'', sample_id] = Inr (Cmd_status sample_id)" by code_simp
  have call: "command_call [] (Cmd_status sample_id) = (STATUS_TOOL_NAME, ?args)"
    by (simp add: command_call_def)
  have ok: "call_accepted STATUS_TOOL_NAME ?args" by code_simp
  have content: "cli_invoke (online_client out) STATUS_TOOL_NAME ?args = Inr (dump_content (structured_content out))"
    by (simp add: cli_invoke_def online_client_def async_with_def)
  have spawn: "is_Exception y" if "Inr () = Inl y" for y using that by simp
  have adm: "\<forall>sql y. sample_admission sql = Inl y \<longrightarrow> is_Exception y"
    by (auto simp: sample_admission_def is_Exception_def)
  from cli_relays_the_gateway[OF parse call ok out(1) content good_entropy_steady spawn adm] out
  show ?thesis by blast
qed

end
