(* ===== verification/Findings.thy ===== *)
theory Findings
  imports Broker_Cursors Configuration Control
begin

text \<open>
  Corner cases that modelling brought out, each as a closed run of the model: what the code does
  there differs from what its comments, its documents or the rest of the code mean it to do.
\<close>

section \<open>A clock that fails during bulk expiry\<close>

text \<open>
  \<open>_locked_records\<close> collects the cursors of expired records in one comprehension.  If the clock
  raises for a later record, the earlier ones are already expired and their cursors already taken
  out, but the list was never assigned: nobody cancels them.
\<close>

definition failing_clock :: env where
  "failing_clock =
     \<lparr>clock_at = (\<lambda>n. \<lparr>instant_of = 100, tz_aware = n = 0\<rparr>), entropy_at = (\<lambda>n. replicate 18 0)\<rparr>"

definition two_requests :: "(nat, nat) broker" where
  "two_requests =
     \<lparr>maximum_ttl = minutes 5, maximum_pending_requests = None, maximum_requests = None,
      records =
        [(''a'', \<lparr>rec_id = ''a'', rec_status = PENDING, rec_expires_at = 50, rec_source = None,
                 rec_cursor = Some 9\<rparr>),
         (''b'', \<lparr>rec_id = ''b'', rec_status = PENDING, rec_expires_at = 200, rec_source = None,
                 rec_cursor = None\<rparr>)],
      clock_reads = 0, tokens_drawn = 0, trace = []\<rparr>"

lemma expired_cursor_lost_when_clock_fails:
  "case list_requests failing_clock two_requests of
     (res, b) \<Rightarrow> res = Inl ValueError \<and> trace b = [Lock_acquired, Lock_released] \<and>
       map_option (\<lambda>r. (rec_status r, rec_cursor r)) (map_of (records b) ''a'') = Some (EXPIRED, None)"
  by code_simp

section \<open>Schema versions that are not the integer 1\<close>

text \<open>\<open>!=\<close> compares numerically, so a boolean or a float passes for the schema version.\<close>

lemma schema_version_accepts_true:
  "load_snowglobe_profile (\<lambda>x. []) (Inr [(''schema_version'', PBool True),
      (''profiles'', PDict [(''default'', PDict [(''allowed_views'', PList [PStr ''A.B.C''])])])])
     ''default'' = Inr \<lparr>profile_views = [''A.B.C'']\<rparr>"
  by code_simp

section \<open>Empty governed SQL\<close>

text \<open>
  The accepted receipt is built outside the \<open>try\<close>; if admission returned empty SQL its validator
  raises after the request was registered and its task scheduled.
\<close>

definition empty_admission :: "nat admission" where
  "empty_admission sql = Inr ([], 1)"

lemma empty_governed_sql_escapes:
  "map_option (\<lambda>(res, st). (res, map (rec_status \<circ> snd) (records (rt_broker st))))
     (control_submit steady_env empty_admission (Inr ()) ''q'' (seconds 60)
        (\<lparr>rt_broker = sample_broker, rt_executor = Some executor_init\<rparr> :: (nat, nat, nat) runtime)) =
   Some (Inl ValidationError, [PENDING])"
  by code_simp

end
