(* ===== verification/Spec2Isabelle.thy ===== *)
theory Spec2Isabelle
  imports Broker_Cursors Arrow_Admission Agent_To_Viewer Snowflake_Shutdown Snowflake_Paths
    Application Cli_Props Findings
begin

text \<open>
  Snowglobe, a local broker between an agent and a data warehouse (\<open>src/snowglobe/*.py\<close>).

  An agent submits a read query through one MCP server (or the shell adapter) and is answered with
  closed receipts only; the query is rewritten by a policy, executed in a background thread against
  Snowflake, its Arrow result is admitted under fixed limits and held in process memory; a human
  opens it in a local viewer until it is cancelled or expires.  One broker holds every request and
  is shared by both sides.

  Conventions.  An operation is a function from the state to a result and the new state; a raised
  exception is an \<open>Inl\<close> of the exception type of \<open>Python\<close>, and the state it leaves is returned with
  it, so every early return, raise and \<open>finally\<close> of the source is a branch.  A call that may never
  return (drawing identifiers until one is fresh) is \<open>None\<close>.  What the environment answers is an
  argument: the clock and the entropy source by read position (\<open>env\<close>), the Snowflake connector as
  a function of the calls made so far (\<open>driver\<close>), SQLGlot over an abstract syntax (\<open>sqlglot\<close>), the
  Arrow IPC writer (\<open>ipc_writer\<close>), files and keys (\<open>host\<close>, \<open>key_library\<close>), the MCP client
  (\<open>mcp_client\<close>), the points in which releases of \<open>argparse\<close> differ (\<open>rules\<close>).  A Python \<open>str\<close> is a
  list of code points below 256, a \<open>dict\<close> an association list in insertion order, an \<open>int\<close> an
  \<open>int\<close>, a \<open>bytes\<close> a list of 8-bit words, a \<open>datetime\<close> its microseconds since the epoch, and a
  sum beyond the year 9999 an \<open>OverflowError\<close>.

  Theories and the files they model:

  \<^item> \<open>Prelude\<close>, \<open>Python\<close>, \<open>Json\<close>, \<open>Tokens\<close>: ordered dictionaries, the locales \<open>invariant\<close> (a step
    relation and a predicate it keeps), \<open>simulation\<close> (an invariant under which every labelled
    operation is matched by events of an abstract system that its label permits) and \<open>codec\<close> (a
    self-delimiting encoding and its decoder), exceptions and dynamically typed values, compact \<open>json.dumps\<close> with a decoder,
    \<open>secrets.token_urlsafe\<close>.
  \<^item> \<open>Broker\<close> (\<open>broker.py\<close>): the record store and every operation,
    through the two lock scopes \<open>_locked_record\<close> and \<open>_locked_records\<close>.
    \<open>Broker_Inv\<close>: the status lifecycle as an inductive relation, the store invariant,
    and the locale \<open>call_relation\<close>: a preorder on brokers that the allowed calls stay
    within. Its lemmas carry the preorder through whole operations of the broker, the executor, the
    background task and the worker thread, and it is interpreted for what any calls can do
    (\<open>calling\<close>), for calls that add no request (\<open>calming\<close>), that publish
    only one request (\<open>filling\<close>) and that leave the configuration alone
    (\<open>settings\<close>), and for what a set of events of the abstract store explains
    (\<open>refining\<close>). \<open>Broker_Spec\<close>: that store of requests with their status, deadline and source, the
    events \<open>spec_event\<close> that create, complete, fail, cancel, expire and forget one, each possible only
    in the states it names, the events each call may cause, and the simulation of the calls by
    them; from it, the fate of one record. \<open>Broker_Props\<close>, \<open>Broker_Cursors\<close>: functional behaviour,
    the accounting of driver cursors, and termination of submission. \<open>Broker_Live\<close>: before its
    deadline a complete request is changed by nothing but its cancellation, as a further
    interpretation of the locale (\<open>completing\<close>).
  \<^item> \<open>Contracts\<close> (\<open>contracts.py\<close>): receipts, their validators and serialisation.
  \<^item> \<open>Executor\<close>, \<open>Executor_Props\<close>, \<open>Executor_Run\<close> (\<open>executor.py\<close>): submission, shutdown and the
    background task, a coroutine whose suspension points are the phases of a step function, with
    other callers of the broker between two of its steps.
  \<^item> \<open>Control\<close> (\<open>control.py\<close>), \<open>Mcp_Gateway\<close> (\<open>mcp_gateway.py\<close>), \<open>Result_Free\<close>: the agent's side, its
    tools and schemas with a conformance check, and its independence from results.
  \<^item> \<open>Arrow_Stream\<close>, \<open>Arrow_Props\<close>, \<open>Arrow_Admission\<close> (\<open>arrow_stream.py\<close>), \<open>Mvp_Limits\<close>
    (\<open>mvp_limits.py\<close>): cell sizes from raw offset buffers, incremental admission against limits and
    its declarative specification \<open>admissible\<close>, replay as bounded IPC chunks.
  \<^item> \<open>Result_Api\<close>, \<open>Result_Props\<close>, \<open>Result_Live\<close> (\<open>result_api.py\<close>): the viewer's JSON routes and the
    framed stream, whose generator re-checks the request before every frame while others may cancel
    it; the last shows when a stream completes.
  \<^item> \<open>Sql_Policy\<close> (\<open>sql_policy.py\<close>), \<open>Private_Key\<close> (\<open>private_key.py\<close>), \<open>Configuration\<close>
    (\<open>configuration.py\<close>): authorisation and re-authorisation of the generated text, the row cap, key
    loading, the two TOML profiles and the connector's arguments.
  \<^item> \<open>Snowflake\<close> (\<open>snowflake.py\<close>), \<open>Snowflake_Executor\<close> (\<open>snowflake_executor.py\<close>): the request-scoped
    connection and cursor, \<open>_execute\<close> both as nested blocks and as the steps of its worker thread,
    fetching with the empty-result fallback.  \<open>Snowflake_Steps\<close>: the two agree, and what a step
    does.  \<open>Snowflake_System\<close>: broker, executor, tasks and threads as one concurrent system.
    \<open>Snowflake_Inv\<close>: its invariants, as interpretations of \<open>invariant\<close>.  \<open>Snowflake_Props\<close>: the
    end-to-end safety properties.  \<open>Snowflake_Paths\<close>: every way through \<open>_execute\<close>, as an inductive
    relation over the raw answers of the driver and of standard output.  \<open>Snowflake_Refines\<close>: the
    whole service refines the store of \<open>Broker_Spec\<close>, action by action and event by event.
    \<open>Snowflake_Live\<close>: progress of every job, and fair schedules.  \<open>Snowflake_Serve\<close>: what is fetched,
    and the way of a query that meets no obstacle.  \<open>Snowflake_Shutdown\<close>: the set of open tasks, and
    what closing the executor comes to.
  \<^item> \<open>Agent_To_Viewer\<close>: the gateway, the control plane, the service and the result API joined on one
    process state, from the agent's call to the end of the viewer's stream.
  \<^item> \<open>Argparse\<close>: what \<open>argparse\<close>, of the standard library, makes of a command line: options and
    their abbreviations, \<open>--\<close>, negative numbers, one positional or subcommands.  The parsers of the
    three commands are values of its type \<open>arg_parser\<close>.
  \<^item> \<open>Runtime\<close> (\<open>runtime.py\<close>, \<open>preflight.py\<close>, \<open>local_server.py\<close>), \<open>Application\<close> (the \<open>create_app\<close>s and
    \<open>create_server\<close>): composition, start and shutdown, the operator's check, both command lines.
  \<^item> \<open>Cli\<close>, \<open>Cli_Props\<close> (\<open>cli.py\<close>): the shell adapter, from the command line through the client
    session to the printed line.  \<open>Findings\<close>: corner cases as closed runs.

  What the lemmas show. The broker's history keeps its invariant, each call changes the requests
  only by the events that call may cause, and no driver cancellation is lost or doubled; a
  submission has all its effects or leaves nothing pending; a finished task never leaves its
  request pending; shutdown quiesces. The concurrent service as a whole refines the same store,
  each of its actions by the events it may cause, so that only the task that holds a result
  completes its request with it, only what is overdue expires and only what has ended is
  forgotten. Whatever the driver answers, the thread of a request makes the calls, prints the
  notice and ends with the outcome that these answers select. Each step of a job lowers its rank
  and no other step raises it, so on every fair schedule every pending request ends; and after the
  executor was closed all tasks end, with every cursor and connection closed. A query that meets
  no obstacle is served: all its steps are possible, the driver sees its six calls and no other,
  and the viewer opens exactly what the driver yielded, from the receipt the agent is answered to
  the last frame of the stream. Every tool call and every run of the shell adapter answers one
  closed receipt, and no answer depends on a result; the adapter prints the gateway's answer
  character for character, and reads an identifier that begins with a dash as an option. Governed
  SQL reads configured views only and is row-capped; only such SQL reaches the driver, over at
  most one connection at a time, all of them closed on every path. What a viewer can open was
  returned by the thread of that request and meets every limit; a completed stream is the whole
  result, a stream completes unless its request was cancelled or ran out, and cancellation cuts it
  off. The operator's check and the server end alike on the same command line.

  Bounds.  No model of a terminating loop uses fuel.  The worker thread ends after at most ten of
  its own steps, whatever runs between them (\<open>worker_ends_under_interference\<close>), which is why ten
  steps suffice where it is run alone; a job, its thread included, after at most fifteen
  (\<open>job_rank\<close>).

  Not modelled.  The internals of PyArrow, SQLGlot, pydantic's coercions beyond the declared fields,
  MCP, Starlette and Uvicorn; the help and usage texts of \<open>argparse\<close>; TOML parsing and the file
  system (arguments); characters above code point 255;
  writing to standard output is taken to succeed except in the worker thread, where its failure is
  a branch.  The viewer application and the agent extension are TypeScript and outside this
  development.
\<close>

end
